(* ===== verification/Go_Prelude.thy ===== *)
theory Go_Prelude
  imports Main "HOL-Library.Word"
begin

text \<open>
  Shared vocabulary of the development: the Go types the sources use and the generic lemmas of the
  component theories.

  A Go \<open>string\<close> is a byte sequence, which is what HOL's \<open>string\<close> is (a \<open>char\<close> is eight bits);
  \<open>[]byte\<close> is a list of \<open>8 word\<close>. A \<open>time.Time\<close> is the number of nanoseconds since the Unix
  epoch, a \<open>time.Duration\<close> a signed 64-bit number of nanoseconds: products of durations wrap
  around, the difference of two times saturates. A Go map is a HOL map; a \<open>range\<close> loop over a map
  visits the keys in an order the language leaves open, so such a loop takes that order as an
  argument (\<open>range_order\<close> says what the runtime guarantees about it).
\<close>

named_theorems go_simps \<open>evaluation rules of the model's operations\<close>
named_theorems inv_intros \<open>preservation of the components' invariants\<close>

subsection \<open>Types\<close>

type_synonym byte = "8 word"
type_synonym bytes = "byte list"
type_synonym go_time = int
type_synonym duration = int

definition bytes_of_string :: "string \<Rightarrow> bytes" where
  "bytes_of_string s = map of_char s"

definition string_of_bytes :: "bytes \<Rightarrow> string" where
  "string_of_bytes bs = map (\<lambda>b. char_of (unat b)) bs"

subsection \<open>64-bit integers and durations\<close>

definition wrap64 :: "int \<Rightarrow> int" where
  "wrap64 x = signed_take_bit 63 x"

definition max_int64 :: int where
  "max_int64 = 9223372036854775807"

definition min_int64 :: int where
  "min_int64 = - 9223372036854775808"

definition Millisecond :: duration where
  "Millisecond = 1000000"

definition Second :: duration where
  "Second = 1000000000"

definition Minute :: duration where
  "Minute = 60000000000"

text \<open>The product of two \<open>time.Duration\<close> values.\<close>

definition dur_mult :: "duration \<Rightarrow> duration \<Rightarrow> duration" where
  "dur_mult a b = wrap64 (a * b)"

text \<open>\<open>t.Sub(u)\<close> saturates at the bounds of a duration; \<open>t.Add(d)\<close> has no such bound.\<close>

definition time_Sub :: "go_time \<Rightarrow> go_time \<Rightarrow> duration" where
  "time_Sub t u = max min_int64 (min max_int64 (t - u))"

definition time_Add :: "go_time \<Rightarrow> duration \<Rightarrow> go_time" where
  "time_Add t d = t + d"

definition time_After :: "go_time \<Rightarrow> go_time \<Rightarrow> bool" where
  "time_After t u \<longleftrightarrow> u < t"

lemma wrap64_id: "min_int64 \<le> x \<Longrightarrow> x \<le> max_int64 \<Longrightarrow> wrap64 x = x"
  by (simp add: wrap64_def min_int64_def max_int64_def signed_take_bit_int_eq_self)

lemma wrap64_range: "min_int64 \<le> wrap64 x \<and> wrap64 x \<le> max_int64"
  using signed_take_bit_int_greater_eq_minus_exp [of 63 x] signed_take_bit_int_less_exp [of 63 x]
  by (simp add: wrap64_def min_int64_def max_int64_def)

lemma dur_mult_exact:
  assumes "0 \<le> a" "0 \<le> b" "a * b \<le> max_int64"
  shows "dur_mult a b = a * b"
proof -
  have "0 \<le> a * b" using assms by simp
  then have "min_int64 \<le> a * b" by (simp add: min_int64_def)
  with assms(3) show ?thesis by (simp add: dur_mult_def wrap64_id)
qed

lemma time_Sub_exact:
  "min_int64 \<le> t - u \<Longrightarrow> t - u \<le> max_int64 \<Longrightarrow> time_Sub t u = t - u"
  by (simp add: time_Sub_def)

text \<open>Saturation never turns a comparison with a representable bound around.\<close>

lemma time_Sub_gt_iff:
  "min_int64 \<le> d \<Longrightarrow> d < max_int64 \<Longrightarrow> d < time_Sub t u \<longleftrightarrow> d < t - u"
  by (auto simp: time_Sub_def max_int64_def min_int64_def)

subsection \<open>Conversions between strings and bytes\<close>

lemma length_bytes_of_string [simp]: "length (bytes_of_string s) = length s"
  by (simp add: bytes_of_string_def)

lemma length_string_of_bytes [simp]: "length (string_of_bytes b) = length b"
  by (simp add: string_of_bytes_def)

lemma unat_of_char [simp]: "unat (of_char c :: byte) = of_char c"
proof -
  have "(of_char c :: byte) = of_nat (of_char c)"
    by (metis of_nat_of_char)
  moreover have "of_char c < (2 :: nat) ^ 8"
    using nat_of_char_less_256 [of c] by simp
  ultimately show ?thesis by (simp add: unat_of_nat)
qed

lemma string_of_bytes_of_string [simp]: "string_of_bytes (bytes_of_string s) = s"
  by (simp add: string_of_bytes_def bytes_of_string_def o_def)

subsection \<open>Iteration orders of Go maps\<close>

definition range_order :: "'k list \<Rightarrow> ('k \<rightharpoonup> 'v) \<Rightarrow> bool" where
  "range_order ks m \<longleftrightarrow> distinct ks \<and> set ks = dom m"

lemma range_order_finite: "range_order ks m \<Longrightarrow> finite (dom m)"
  by (metis range_order_def List.finite_set)

subsection \<open>Maps\<close>

lemma map_upd_eq_Some: "(m(k \<mapsto> v)) x = Some y \<longleftrightarrow> (if x = k then y = v else m x = Some y)"
  by auto

lemma map_del_eq_Some: "(m(k := None)) x = Some y \<longleftrightarrow> x \<noteq> k \<and> m x = Some y"
  by auto

lemma map_ext_Some: "(\<And>x y. m x = Some y \<longleftrightarrow> n x = Some y) \<Longrightarrow> m = n"
proof (rule ext)
  fix x assume *: "\<And>x y. m x = Some y \<longleftrightarrow> n x = Some y"
  show "m x = n x" by (metis * not_Some_eq)
qed

subsection \<open>Lists\<close>

text \<open>The first element a loop stops at.\<close>

lemma find_append_first: "P x \<Longrightarrow> \<forall>y \<in> set pre. \<not> P y \<Longrightarrow> List.find P (pre @ x # post) = Some x"
  by (induction pre) auto

lemma find_Some_split:
  "List.find P xs = Some x \<longleftrightarrow> (\<exists>pre post. xs = pre @ x # post \<and> P x \<and> (\<forall>y \<in> set pre. \<not> P y))"
proof
  assume "List.find P xs = Some x"
  then show "\<exists>pre post. xs = pre @ x # post \<and> P x \<and> (\<forall>y \<in> set pre. \<not> P y)"
  proof (induction xs)
    case (Cons a xs)
    show ?case
    proof (cases "P a")
      case True
      with Cons.prems have "a # xs = [] @ x # xs \<and> P x" by simp
      then show ?thesis by (metis empty_iff list.set(1))
    next
      case False
      with Cons obtain pre post where "xs = pre @ x # post" "P x" "\<forall>y \<in> set pre. \<not> P y" by auto
      with False have "a # xs = (a # pre) @ x # post \<and> P x \<and> (\<forall>y \<in> set (a # pre). \<not> P y)" by simp
      then show ?thesis by blast
    qed
  qed simp
qed (auto intro: find_append_first)

subsection \<open>Step relations\<close>

text \<open>
  A predicate that every step keeps holds in every state reached by a sequence of steps. The operations
  of a state machine are the steps; the provider of an invariant proves the one law.
\<close>

locale step_invariant =
  fixes step :: "'s \<Rightarrow> 's \<Rightarrow> bool" and inv :: "'s \<Rightarrow> bool"
  assumes inv_step: "step s s' \<Longrightarrow> inv s \<Longrightarrow> inv s'"
begin

lemma inv_steps:
  assumes "step\<^sup>*\<^sup>* s s'" "inv s"
  shows "inv s'"
  using assms by (induction rule: rtranclp_induct) (auto intro: inv_step)

end

text \<open>
  A transition system whose every step is a sequence of steps of another, under a translation of the
  states: its runs are runs of the other.
\<close>

locale step_simulation =
  fixes coarse :: "'s \<Rightarrow> 's \<Rightarrow> bool" and fine :: "'t \<Rightarrow> 't \<Rightarrow> bool" and tr :: "'s \<Rightarrow> 't"
  assumes sim_step: "coarse s s' \<Longrightarrow> fine\<^sup>*\<^sup>* (tr s) (tr s')"
begin

lemma sim_steps:
  assumes "coarse\<^sup>*\<^sup>* s s'"
  shows "fine\<^sup>*\<^sup>* (tr s) (tr s')"
  using assms by (induction rule: rtranclp_induct) (auto intro: rtranclp_trans dest: sim_step)

end

end
