(* ===== verification/Go_Strings.thy ===== *)
theory Go_Strings
  imports Go_Prelude
begin

text \<open>
  The functions of Go's standard library the sources apply to strings: \<open>strings\<close> (prefixes,
  suffixes, \<open>SplitN\<close>, \<open>ToLower\<close>, \<open>TrimSpace\<close>, \<open>Join\<close>), \<open>strconv\<close> (\<open>Atoi\<close>, \<open>ParseUint\<close>,
  \<open>FormatUint\<close>), \<open>encoding/hex\<close> and \<open>net.SplitHostPort\<close>, each on byte strings as Go has them.
  \<open>strings.ToLower\<close> maps an ASCII string byte by byte and any other through the Unicode case
  tables; the tables are the argument \<open>uni\<close> of the functions that call it.
\<close>

subsection \<open>Prefixes and suffixes\<close>

definition HasPrefix :: "string \<Rightarrow> string \<Rightarrow> bool" where
  "HasPrefix s p \<longleftrightarrow> length p \<le> length s \<and> take (length p) s = p"

definition HasSuffix :: "string \<Rightarrow> string \<Rightarrow> bool" where
  "HasSuffix s p \<longleftrightarrow> length p \<le> length s \<and> drop (length s - length p) s = p"

definition TrimPrefix :: "string \<Rightarrow> string \<Rightarrow> string" where
  "TrimPrefix s p = (if HasPrefix s p then drop (length p) s else s)"

definition TrimSuffix :: "string \<Rightarrow> string \<Rightarrow> string" where
  "TrimSuffix s p = (if HasSuffix s p then take (length s - length p) s else s)"

lemma HasPrefix_iff: "HasPrefix s p \<longleftrightarrow> (\<exists>t. s = p @ t)"
  by (metis HasPrefix_def append_eq_conv_conj append_take_drop_id length_append le_add1)

lemma HasSuffix_iff: "HasSuffix s p \<longleftrightarrow> (\<exists>t. s = t @ p)"
proof
  assume "HasSuffix s p"
  then have "s = take (length s - length p) s @ p"
    by (metis HasSuffix_def append_take_drop_id)
  then show "\<exists>t. s = t @ p" ..
qed (auto simp: HasSuffix_def)

lemma HasPrefix_append [simp]: "HasPrefix (p @ t) p"
  by (simp add: HasPrefix_def)

lemma HasSuffix_append [simp]: "HasSuffix (t @ p) p"
  by (simp add: HasSuffix_def)

lemma TrimPrefix_append [simp]: "TrimPrefix (p @ t) p = t"
  by (simp add: TrimPrefix_def)

lemma TrimSuffix_append [simp]: "TrimSuffix (t @ p) p = t"
  by (simp add: TrimSuffix_def)

subsection \<open>Searching and splitting at a byte\<close>

definition ContainsByte :: "string \<Rightarrow> char \<Rightarrow> bool" where
  "ContainsByte s c \<longleftrightarrow> c \<in> set s"

text \<open>The index of the first, of the last occurrence; \<open>None\<close> is Go's \<open>-1\<close>.\<close>

fun IndexByte :: "string \<Rightarrow> char \<Rightarrow> nat option" where
  "IndexByte [] c = None"
| "IndexByte (x # xs) c = (if x = c then Some 0 else map_option Suc (IndexByte xs c))"

fun LastIndexByte :: "string \<Rightarrow> char \<Rightarrow> nat option" where
  "LastIndexByte [] c = None"
| "LastIndexByte (x # xs) c =
     (case LastIndexByte xs c of
        Some i \<Rightarrow> Some (Suc i)
      | None \<Rightarrow> (if x = c then Some 0 else None))"

text \<open>\<open>strings.SplitN(s, sep, 2)\<close> for a one-byte separator.\<close>

definition SplitN2 :: "string \<Rightarrow> char \<Rightarrow> string list" where
  "SplitN2 s c = (case IndexByte s c of None \<Rightarrow> [s] | Some i \<Rightarrow> [take i s, drop (Suc i) s])"

fun Join :: "string list \<Rightarrow> string \<Rightarrow> string" where
  "Join [] sep = []"
| "Join [x] sep = x"
| "Join (x # y # ys) sep = x @ sep @ Join (y # ys) sep"

lemma IndexByte_None: "IndexByte s c = None \<longleftrightarrow> c \<notin> set s"
  by (induction s) auto

lemma IndexByte_append: "c \<notin> set s \<Longrightarrow> IndexByte (s @ c # t) c = Some (length s)"
  by (induction s) auto

lemma LastIndexByte_None: "LastIndexByte s c = None \<longleftrightarrow> c \<notin> set s"
  by (induction s) (auto split: option.splits)

lemma LastIndexByte_append: "c \<notin> set t \<Longrightarrow> LastIndexByte (s @ c # t) c = Some (length s)"
proof (induction s)
  case Nil
  then have "LastIndexByte t c = None" by (simp add: LastIndexByte_None)
  then show ?case by simp
qed simp

lemma SplitN2_append: "c \<notin> set s \<Longrightarrow> SplitN2 (s @ c # t) c = [s, t]"
  by (simp add: SplitN2_def IndexByte_append)

lemma SplitN2_none: "c \<notin> set s \<Longrightarrow> SplitN2 s c = [s]"
proof -
  assume "c \<notin> set s"
  then have "IndexByte s c = None" by (simp add: IndexByte_None)
  then show ?thesis by (simp add: SplitN2_def)
qed

lemma IndexByte_Some:
  "IndexByte s c = Some i \<Longrightarrow> i < length s \<and> s = take i s @ c # drop (Suc i) s \<and> c \<notin> set (take i s)"
  by (induction s arbitrary: i) (auto split: if_splits)

lemma SplitN2_two:
  assumes "SplitN2 s c = [a, b]"
  shows "s = a @ c # b \<and> c \<notin> set a"
proof -
  obtain i where i: "IndexByte s c = Some i"
    using assms by (auto simp: SplitN2_def split: option.splits)
  then have "a = take i s" "b = drop (Suc i) s"
    using assms by (auto simp: SplitN2_def)
  with IndexByte_Some [OF i] show ?thesis by simp
qed

subsection \<open>Case and white space\<close>

definition is_ascii :: "string \<Rightarrow> bool" where
  "is_ascii s \<longleftrightarrow> list_all (\<lambda>c. of_char c < (128 :: nat)) s"

definition lower_byte :: "char \<Rightarrow> char" where
  "lower_byte c =
     (let n = of_char c :: nat in if 65 \<le> n \<and> n \<le> 90 then char_of (n + 32) else c)"

definition ToLower :: "(string \<Rightarrow> string) \<Rightarrow> string \<Rightarrow> string" where
  "ToLower uni s = (if is_ascii s then map lower_byte s else uni s)"

text \<open>
  \<open>strings.TrimSpace\<close> removes the Unicode white-space runes at both ends; \<open>space_runes\<close> lists their
  UTF-8 encodings (the ASCII ones, U+0085, U+00A0, U+1680, U+2000 to U+200A, U+2028, U+2029,
  U+202F, U+205F and U+3000). No encoding is a proper prefix or suffix of another.
\<close>

definition byte_string :: "nat list \<Rightarrow> string" where
  "byte_string ns = map char_of ns"

definition space_runes :: "string list" where
  "space_runes =
     map byte_string
       ([[9], [10], [11], [12], [13], [32], [194, 133], [194, 160], [225, 154, 128]]
        @ map (\<lambda>k. [226, 128, 128 + k]) [0..<11]
        @ [[226, 128, 168], [226, 128, 169], [226, 128, 175], [226, 129, 159], [227, 128, 128]])"

fun space_prefix :: "string list \<Rightarrow> string \<Rightarrow> nat" where
  "space_prefix [] s = 0"
| "space_prefix (r # rs) s = (if HasPrefix s r then length r else space_prefix rs s)"

function trim_front :: "string list \<Rightarrow> string \<Rightarrow> string" where
  "trim_front rs s =
     (let n = space_prefix rs s
      in if n = 0 \<or> s = [] then s else trim_front rs (drop n s))"
  by pat_completeness auto
termination
  by (relation "measure (length \<circ> snd)") auto

declare trim_front.simps [simp del]

definition TrimSpace :: "string \<Rightarrow> string" where
  "TrimSpace s =
     rev (trim_front (map rev space_runes) (rev (trim_front space_runes s)))"

lemma space_prefix_0:
  "list_all (\<lambda>r. r \<noteq> [] \<and> \<not> HasPrefix s r) rs \<Longrightarrow> space_prefix rs s = 0"
  by (induction rs) auto

text \<open>A string that starts and ends with an ASCII byte above the space is left alone.\<close>

definition visible :: "char \<Rightarrow> bool" where
  "visible c \<longleftrightarrow> 32 < (of_char c :: nat) \<and> (of_char c :: nat) < 128"

lemma space_runes_bytes:
  "r \<in> set space_runes \<Longrightarrow> r \<noteq> [] \<and> (\<forall>c \<in> set r. \<not> visible c)"
  by (auto simp: space_runes_def byte_string_def visible_def of_char_of mod_less)

lemma trim_front_visible:
  assumes "\<And>r. r \<in> set rs \<Longrightarrow> r \<noteq> [] \<and> (\<forall>c \<in> set r. \<not> visible c)" and "visible c"
  shows "trim_front rs (c # s) = c # s"
proof -
  have "\<not> HasPrefix (c # s) r" if "r \<in> set rs" for r
  proof
    assume "HasPrefix (c # s) r"
    then obtain t where "c # s = r @ t" by (auto simp: HasPrefix_iff)
    with assms that show False by (cases r) auto
  qed
  with assms(1) have "space_prefix rs (c # s) = 0"
    by (intro space_prefix_0) (simp add: list_all_iff)
  then show ?thesis by (simp add: trim_front.simps)
qed

lemma TrimSpace_visible:
  assumes "s \<noteq> []" "visible (hd s)" "visible (last s)"
  shows "TrimSpace s = s"
proof -
  have front: "trim_front space_runes s = s"
    using assms(1,2) space_runes_bytes by (cases s) (auto intro!: trim_front_visible)
  obtain t where t: "rev s = last s # t"
    using assms(1) by (metis hd_rev list.collapse rev_is_Nil_conv)
  have "trim_front (map rev space_runes) (last s # t) = last s # t"
    using assms(3) space_runes_bytes by (intro trim_front_visible) auto
  with front t show ?thesis by (metis TrimSpace_def rev_rev_ident)
qed

subsection \<open>Decimal numbers\<close>

definition is_digit :: "char \<Rightarrow> bool" where
  "is_digit c \<longleftrightarrow> 48 \<le> (of_char c :: nat) \<and> (of_char c :: nat) \<le> 57"

definition digit_val :: "char \<Rightarrow> nat" where
  "digit_val c = of_char c - 48"

definition digit_char :: "nat \<Rightarrow> char" where
  "digit_char n = char_of (48 + n)"

fun parse_digits :: "nat \<Rightarrow> string \<Rightarrow> nat option" where
  "parse_digits acc [] = Some acc"
| "parse_digits acc (c # cs) =
     (if is_digit c then parse_digits (10 * acc + digit_val c) cs else None)"

text \<open>\<open>strconv.ParseUint(s, 10, 32)\<close>; \<open>None\<close> is any of its errors.\<close>

definition ParseUint32 :: "string \<Rightarrow> nat option" where
  "ParseUint32 s =
     (if s = [] then None
      else case parse_digits 0 s of
        None \<Rightarrow> None
      | Some n \<Rightarrow> (if n < 2 ^ 32 then Some n else None))"

text \<open>\<open>strconv.Atoi\<close> on a 64-bit platform: an optional sign, then digits, within \<open>int64\<close>.\<close>

definition Atoi :: "string \<Rightarrow> int option" where
  "Atoi s =
     (let neg = (s \<noteq> [] \<and> hd s = CHR ''-'');
          t = (if s \<noteq> [] \<and> (hd s = CHR ''-'' \<or> hd s = CHR ''+'') then tl s else s)
      in if t = [] then None
         else case parse_digits 0 t of
           None \<Rightarrow> None
         | Some n \<Rightarrow>
             (let v = (if neg then - int n else int n)
              in if min_int64 \<le> v \<and> v \<le> max_int64 then Some v else None))"

text \<open>\<open>strconv.FormatUint(n, 10)\<close> and the \<open>%d\<close> verb.\<close>

fun FormatUint :: "nat \<Rightarrow> string" where
  "FormatUint n =
     (if n < 10 then [digit_char n] else FormatUint (n div 10) @ [digit_char (n mod 10)])"

declare FormatUint.simps [simp del]

definition FormatInt :: "int \<Rightarrow> string" where
  "FormatInt i = (if i < 0 then ''-'' @ FormatUint (nat (- i)) else FormatUint (nat i))"

lemma digit_char_val:
  assumes "n < 10"
  shows "is_digit (digit_char n)" "digit_val (digit_char n) = n"
  using assms by (simp_all add: is_digit_def digit_val_def digit_char_def of_char_of)

lemma parse_digits_append:
  "parse_digits acc (xs @ ys) =
     (case parse_digits acc xs of None \<Rightarrow> None | Some n \<Rightarrow> parse_digits n ys)"
  by (induction xs arbitrary: acc) auto

lemma parse_digits_FormatUint: "parse_digits 0 (FormatUint n) = Some n"
proof (induction n rule: FormatUint.induct)
  case (1 n)
  show ?case
  proof (cases "n < 10")
    case True
    then show ?thesis by (simp add: FormatUint.simps [of n] digit_char_val)
  next
    case False
    with "1.IH" show ?thesis
      by (simp add: FormatUint.simps [of n] parse_digits_append digit_char_val)
  qed
qed

lemma FormatUint_not_Nil [simp]: "FormatUint n \<noteq> []"
  by (subst FormatUint.simps) simp

lemma FormatUint_digits: "c \<in> set (FormatUint n) \<Longrightarrow> is_digit c"
proof (induction n rule: FormatUint.induct)
  case (1 n)
  then show ?case
    by (cases "n < 10") (auto simp: FormatUint.simps [of n] digit_char_val)
qed

lemma length_FormatUint: "length (FormatUint n) \<le> Suc n"
proof (induction n rule: FormatUint.induct)
  case (1 n)
  show ?case
  proof (cases "n < 10")
    case False
    moreover have "n div 10 < n" using False by simp
    ultimately show ?thesis using 1 by (subst FormatUint.simps) simp
  qed (simp add: FormatUint.simps [of n])
qed

lemma ParseUint32_FormatUint: "n < 2 ^ 32 \<Longrightarrow> ParseUint32 (FormatUint n) = Some n"
  by (simp add: ParseUint32_def parse_digits_FormatUint)

lemma ParseUint32_word: "ParseUint32 (FormatUint (unat (w :: 32 word))) = Some (unat w)"
  using unsigned_less [of w, where ?'a = nat] by (intro ParseUint32_FormatUint) simp

lemma ParseUint32_bound: "ParseUint32 s = Some n \<Longrightarrow> n < 2 ^ 32"
  by (auto simp: ParseUint32_def split: if_splits option.splits)

lemma FormatUint_inject: "FormatUint m = FormatUint n \<longleftrightarrow> m = n"
  by (metis option.inject parse_digits_FormatUint)

lemma parse_digits_Some_iff:
  "(\<exists>n. parse_digits acc s = Some n) \<longleftrightarrow> list_all is_digit s"
  by (induction s arbitrary: acc) auto

subsection \<open>Hexadecimal\<close>

definition hex_char :: "nat \<Rightarrow> char" where
  "hex_char n = (if n < 10 then char_of (48 + n) else char_of (87 + n))"

definition hex_val :: "char \<Rightarrow> nat option" where
  "hex_val c =
     (let n = of_char c :: nat
      in if 48 \<le> n \<and> n \<le> 57 then Some (n - 48)
         else if 97 \<le> n \<and> n \<le> 102 then Some (n - 87)
         else if 65 \<le> n \<and> n \<le> 70 then Some (n - 55)
         else None)"

text \<open>\<open>hex.EncodeToString\<close> writes lower case; \<open>hex.DecodeString\<close> reads both cases and rejects
  other bytes and an odd length.\<close>

fun hex_EncodeToString :: "bytes \<Rightarrow> string" where
  "hex_EncodeToString [] = []"
| "hex_EncodeToString (b # bs) =
     hex_char (unat b div 16) # hex_char (unat b mod 16) # hex_EncodeToString bs"

fun hex_DecodeString :: "string \<Rightarrow> bytes option" where
  "hex_DecodeString [] = Some []"
| "hex_DecodeString [c] = None"
| "hex_DecodeString (c # d # s) =
     (case (hex_val c, hex_val d, hex_DecodeString s) of
        (Some h, Some l, Some bs) \<Rightarrow> Some (word_of_nat (16 * h + l) # bs)
      | _ \<Rightarrow> None)"

lemma hex_val_char: "n < 16 \<Longrightarrow> hex_val (hex_char n) = Some n"
  by (auto simp: hex_val_def hex_char_def of_char_of Let_def)

lemma byte_div_mod_16: "unat (b :: byte) div 16 < 16" "unat (b :: byte) mod 16 < 16"
  using unsigned_less [of b, where ?'a = nat] by (auto simp: less_mult_imp_div_less)

lemma hex_roundtrip: "hex_DecodeString (hex_EncodeToString bs) = Some bs"
  by (induction bs) (simp_all add: hex_val_char byte_div_mod_16)

lemma length_hex [simp]: "length (hex_EncodeToString bs) = 2 * length bs"
  by (induction bs) auto

lemma hex_char_not_dot: "n < 16 \<Longrightarrow> hex_char n \<noteq> CHR ''.''"
proof
  assume "n < 16" "hex_char n = CHR ''.''"
  then have "hex_val (CHR ''.'') = Some n" by (metis hex_val_char)
  then show False by (simp add: hex_val_def)
qed

lemma hex_no_dot: "CHR ''.'' \<notin> set (hex_EncodeToString bs)"
proof (induction bs)
  case (Cons b bs)
  have "hex_char (unat b div 16) \<noteq> CHR ''.''" "hex_char (unat b mod 16) \<noteq> CHR ''.''"
    by (rule hex_char_not_dot, rule byte_div_mod_16)+
  with Cons show ?case by auto
qed simp

lemma hex_inject: "hex_EncodeToString a = hex_EncodeToString b \<longleftrightarrow> a = b"
  by (metis hex_roundtrip option.inject)

subsection \<open>Host and port\<close>

text \<open>\<open>net.SplitHostPort\<close>; \<open>None\<close> is any of its errors.\<close>

definition SplitHostPort :: "string \<Rightarrow> (string \<times> string) option" where
  "SplitHostPort hp =
     (case LastIndexByte hp (CHR '':'') of
        None \<Rightarrow> None
      | Some i \<Rightarrow>
          (if hd hp = CHR ''['' then
             (case IndexByte hp (CHR '']'') of
                None \<Rightarrow> None
              | Some e \<Rightarrow>
                  (if Suc e \<noteq> i then None
                   else if CHR ''['' \<in> set (drop 1 hp) \<or> CHR '']'' \<in> set (drop (Suc e) hp) then None
                   else Some (take (e - 1) (drop 1 hp), drop (Suc i) hp)))
           else
             (let host = take i hp
              in if CHR '':'' \<in> set host then None
                 else if CHR ''['' \<in> set hp \<or> CHR '']'' \<in> set hp then None
                 else Some (host, drop (Suc i) hp))))"

end
