(* ===== verification/Registry.thy ===== *)
theory Registry
  imports Go_Strings
begin

text \<open>
  \<open>internal/registry/registry.go\<close>: the tunnels of the gateway and the in-memory registry with its
  two maps, tunnels by ID and tunnel IDs by subdomain. Every method holds the registry's mutex for
  its whole body, so each is one atomic operation on the state, and a sequence of calls is a
  sequence of operations. The map holds pointers that only \<open>UpdateHeartbeat\<close> writes through, under
  the same lock, so the tunnels are modelled as values.

  The first part is the code. Then the invariant that makes the two maps inverse to each other, the
  abstract registry (a map from subdomains to tunnels) and the interface \<open>tunnel_registry\<close> that the
  gateway's handlers rely on, interpreted on the code's model.
\<close>

subsection \<open>State and operations\<close>

datatype registry_error =
  ErrSubdomainReserved | ErrSubdomainTaken | ErrSubdomainTooLong | ErrTunnelNotFound

record Tunnel =
  tun_ID :: string
  tun_OwnerID :: string
  tun_Subdomain :: string
  tun_Protocol :: string
  tun_TargetPort :: int
  tun_CreatedAt :: go_time
  tun_LastHeartbeatAt :: go_time
  tun_ConnID :: string
  tun_TTL :: int
  tun_BandwidthLimit :: int

record MemoryRegistry =
  tunnels :: "string \<rightharpoonup> Tunnel"
  subdomainIndex :: "string \<rightharpoonup> string"
  reservedSubdomains :: "string set"
  maxSubdomainLength :: int
  defaultTTL :: int

definition NewMemoryRegistry :: "string list \<Rightarrow> int \<Rightarrow> int \<Rightarrow> MemoryRegistry" where
  "NewMemoryRegistry reserved maxLen ttl =
     \<lparr>tunnels = Map.empty, subdomainIndex = Map.empty, reservedSubdomains = set reserved,
      maxSubdomainLength = maxLen, defaultTTL = ttl\<rparr>"

definition with_default_ttl :: "MemoryRegistry \<Rightarrow> Tunnel \<Rightarrow> Tunnel" where
  "with_default_ttl r t = (if tun_TTL t = 0 then t\<lparr>tun_TTL := defaultTTL r\<rparr> else t)"

definition mr_Register :: "MemoryRegistry \<Rightarrow> Tunnel \<Rightarrow> registry_error option \<times> MemoryRegistry" where
  "mr_Register r t =
     (if tun_Subdomain t \<in> reservedSubdomains r then (Some ErrSubdomainReserved, r)
      else if 0 < maxSubdomainLength r \<and> maxSubdomainLength r < int (length (tun_Subdomain t))
      then (Some ErrSubdomainTooLong, r)
      else if subdomainIndex r (tun_Subdomain t) \<noteq> None then (Some ErrSubdomainTaken, r)
      else
        (None, r\<lparr>tunnels := (tunnels r)(tun_ID t \<mapsto> with_default_ttl r t),
                 subdomainIndex := (subdomainIndex r)(tun_Subdomain t \<mapsto> tun_ID t)\<rparr>))"

definition mr_Unregister :: "MemoryRegistry \<Rightarrow> string \<Rightarrow> registry_error option \<times> MemoryRegistry" where
  "mr_Unregister r i =
     (case tunnels r i of
        None \<Rightarrow> (Some ErrTunnelNotFound, r)
      | Some t \<Rightarrow>
          (None, r\<lparr>subdomainIndex := (subdomainIndex r)(tun_Subdomain t := None),
                   tunnels := (tunnels r)(i := None)\<rparr>))"

definition mr_GetByID :: "MemoryRegistry \<Rightarrow> string \<Rightarrow> registry_error + Tunnel" where
  "mr_GetByID r i = (case tunnels r i of None \<Rightarrow> Inl ErrTunnelNotFound | Some t \<Rightarrow> Inr t)"

text \<open>\<open>GetBySubdomain\<close> returns \<open>r.tunnels[id]\<close> unchecked: \<open>Inr None\<close> is a nil tunnel without error.\<close>

definition mr_GetBySubdomain :: "MemoryRegistry \<Rightarrow> string \<Rightarrow> registry_error + Tunnel option" where
  "mr_GetBySubdomain r sub =
     (case subdomainIndex r sub of
        None \<Rightarrow> Inl ErrTunnelNotFound
      | Some i \<Rightarrow> Inr (tunnels r i))"

text \<open>The loops over \<open>r.tunnels\<close> take the iteration order as an argument.\<close>

definition tunnels_in :: "string list \<Rightarrow> MemoryRegistry \<Rightarrow> Tunnel list" where
  "tunnels_in order r = List.map_filter (tunnels r) order"

definition mr_GetByOwner :: "string list \<Rightarrow> MemoryRegistry \<Rightarrow> string \<Rightarrow> Tunnel list" where
  "mr_GetByOwner order r owner = filter (\<lambda>t. tun_OwnerID t = owner) (tunnels_in order r)"

definition mr_GetByConnID :: "string list \<Rightarrow> MemoryRegistry \<Rightarrow> string \<Rightarrow> Tunnel list" where
  "mr_GetByConnID order r connID = filter (\<lambda>t. tun_ConnID t = connID) (tunnels_in order r)"

definition mr_List :: "string list \<Rightarrow> MemoryRegistry \<Rightarrow> Tunnel list" where
  "mr_List order r = tunnels_in order r"

definition mr_UpdateHeartbeat ::
  "go_time \<Rightarrow> MemoryRegistry \<Rightarrow> string \<Rightarrow> registry_error option \<times> MemoryRegistry" where
  "mr_UpdateHeartbeat now r i =
     (case tunnels r i of
        None \<Rightarrow> (Some ErrTunnelNotFound, r)
      | Some t \<Rightarrow> (None, r\<lparr>tunnels := (tunnels r)(i \<mapsto> t\<lparr>tun_LastHeartbeatAt := now\<rparr>)\<rparr>))"

definition mr_IsSubdomainReserved :: "MemoryRegistry \<Rightarrow> string \<Rightarrow> bool" where
  "mr_IsSubdomainReserved r sub \<longleftrightarrow> sub \<in> reservedSubdomains r"

definition tunnel_expired :: "go_time \<Rightarrow> Tunnel \<Rightarrow> bool" where
  "tunnel_expired now t \<longleftrightarrow>
     0 < tun_TTL t \<and> dur_mult (tun_TTL t) Second < time_Sub now (tun_LastHeartbeatAt t)"

fun clean_loop :: "go_time \<Rightarrow> string list \<Rightarrow> MemoryRegistry \<Rightarrow> nat \<Rightarrow> nat \<times> MemoryRegistry" where
  "clean_loop now [] r count = (count, r)"
| "clean_loop now (i # order) r count =
     (case tunnels r i of
        None \<Rightarrow> clean_loop now order r count
      | Some t \<Rightarrow>
          (if tunnel_expired now t
           then clean_loop now order
                  (r\<lparr>subdomainIndex := (subdomainIndex r)(tun_Subdomain t := None),
                     tunnels := (tunnels r)(i := None)\<rparr>) (Suc count)
           else clean_loop now order r count))"

definition mr_CleanExpired :: "string list \<Rightarrow> go_time \<Rightarrow> MemoryRegistry \<Rightarrow> nat \<times> MemoryRegistry" where
  "mr_CleanExpired order now r = clean_loop now order r 0"

lemmas registry_ops =
  mr_Register_def mr_Unregister_def mr_GetByID_def mr_GetBySubdomain_def mr_UpdateHeartbeat_def

subsection \<open>Invariant\<close>

definition admissible :: "MemoryRegistry \<Rightarrow> string \<Rightarrow> bool" where
  "admissible r sub \<longleftrightarrow>
     sub \<notin> reservedSubdomains r \<and>
     (maxSubdomainLength r \<le> 0 \<or> int (length sub) \<le> maxSubdomainLength r)"

definition registry_inv :: "MemoryRegistry \<Rightarrow> bool" where
  "registry_inv r \<longleftrightarrow>
     (\<forall>sub i. subdomainIndex r sub = Some i \<longrightarrow>
        (\<exists>t. tunnels r i = Some t \<and> tun_Subdomain t = sub)) \<and>
     (\<forall>i t. tunnels r i = Some t \<longrightarrow>
        tun_ID t = i \<and> subdomainIndex r (tun_Subdomain t) = Some i \<and>
        admissible r (tun_Subdomain t)) \<and>
     finite (dom (tunnels r))"

lemma registry_invI:
  assumes "\<And>sub i. subdomainIndex r sub = Some i \<Longrightarrow> \<exists>t. tunnels r i = Some t \<and> tun_Subdomain t = sub"
    and "\<And>i t. tunnels r i = Some t \<Longrightarrow>
      tun_ID t = i \<and> subdomainIndex r (tun_Subdomain t) = Some i \<and> admissible r (tun_Subdomain t)"
    and "finite (dom (tunnels r))"
  shows "registry_inv r"
  using assms by (simp add: registry_inv_def)

lemma inv_index: "registry_inv r \<Longrightarrow> subdomainIndex r sub = Some i \<Longrightarrow>
    \<exists>t. tunnels r i = Some t \<and> tun_Subdomain t = sub"
  by (simp add: registry_inv_def)

lemma inv_tunnel: "registry_inv r \<Longrightarrow> tunnels r i = Some t \<Longrightarrow>
    tun_ID t = i \<and> subdomainIndex r (tun_Subdomain t) = Some i \<and> admissible r (tun_Subdomain t)"
  by (simp add: registry_inv_def)

lemma inv_finite: "registry_inv r \<Longrightarrow> finite (dom (tunnels r))"
  by (simp add: registry_inv_def)

lemma inv_subdomain_inj:
  "registry_inv r \<Longrightarrow> tunnels r i = Some t \<Longrightarrow> tunnels r j = Some u \<Longrightarrow>
     tun_Subdomain t = tun_Subdomain u \<Longrightarrow> i = j"
  by (metis inv_tunnel option.inject)

lemma with_default_ttl_fields [simp]:
  "tun_ID (with_default_ttl r t) = tun_ID t"
  "tun_Subdomain (with_default_ttl r t) = tun_Subdomain t"
  "tun_OwnerID (with_default_ttl r t) = tun_OwnerID t"
  "tun_ConnID (with_default_ttl r t) = tun_ConnID t"
  by (simp_all add: with_default_ttl_def)

lemma inv_New [inv_intros]: "registry_inv (NewMemoryRegistry reserved maxLen ttl)"
  by (simp add: registry_inv_def NewMemoryRegistry_def)

lemma mr_Register_error: "mr_Register r t = (Some e, r') \<Longrightarrow> r' = r"
  by (auto simp: mr_Register_def split: if_splits)

lemma mr_Register_ok:
  assumes "mr_Register r t = (None, r')"
  shows "admissible r (tun_Subdomain t)" "subdomainIndex r (tun_Subdomain t) = None"
    "r' = r\<lparr>tunnels := (tunnels r)(tun_ID t \<mapsto> with_default_ttl r t),
            subdomainIndex := (subdomainIndex r)(tun_Subdomain t \<mapsto> tun_ID t)\<rparr>"
  using assms by (auto simp: mr_Register_def admissible_def split: if_splits)

lemma admissible_update [simp]:
  "admissible (r\<lparr>tunnels := T\<rparr>) sub = admissible r sub"
  "admissible (r\<lparr>subdomainIndex := I\<rparr>) sub = admissible r sub"
  by (simp_all add: admissible_def)

lemma inv_Register [inv_intros]:
  assumes "registry_inv r" "tun_ID t \<notin> dom (tunnels r)"
  shows "registry_inv (snd (mr_Register r t))"
proof (cases "mr_Register r t")
  case (Pair res r')
  show ?thesis
  proof (cases res)
    case (Some e)
    with Pair assms(1) show ?thesis using mr_Register_error by fastforce
  next
    case None
    note ok = mr_Register_ok [OF Pair [unfolded None]]
    from assms(2) have new: "tunnels r (tun_ID t) = None" by auto
    have "registry_inv r'"
    proof (rule registry_invI)
      fix sub i assume "subdomainIndex r' sub = Some i"
      with ok(3) have "sub = tun_Subdomain t \<and> i = tun_ID t \<or> subdomainIndex r sub = Some i"
        by (auto split: if_splits)
      with ok(3) new inv_index [OF assms(1), of sub i]
      show "\<exists>u. tunnels r' i = Some u \<and> tun_Subdomain u = sub" by auto
    next
      fix i u assume "tunnels r' i = Some u"
      with ok(3) have "i = tun_ID t \<and> u = with_default_ttl r t \<or> i \<noteq> tun_ID t \<and> tunnels r i = Some u"
        by (auto split: if_splits)
      with ok inv_tunnel [OF assms(1), of i u]
      show "tun_ID u = i \<and> subdomainIndex r' (tun_Subdomain u) = Some i \<and> admissible r' (tun_Subdomain u)"
        by auto
    next
      show "finite (dom (tunnels r'))" using ok(3) inv_finite [OF assms(1)] by simp
    qed
    with Pair show ?thesis by simp
  qed
qed

text \<open>Removing a tunnel together with its index entry, the step \<open>Unregister\<close> and \<open>CleanExpired\<close> share.\<close>

definition drop_tunnel :: "MemoryRegistry \<Rightarrow> string \<Rightarrow> Tunnel \<Rightarrow> MemoryRegistry" where
  "drop_tunnel r i t =
     r\<lparr>subdomainIndex := (subdomainIndex r)(tun_Subdomain t := None), tunnels := (tunnels r)(i := None)\<rparr>"

lemma inv_drop_tunnel:
  assumes "registry_inv r" "tunnels r i = Some t"
  shows "registry_inv (drop_tunnel r i t)"
proof (rule registry_invI)
  fix sub j assume "subdomainIndex (drop_tunnel r i t) sub = Some j"
  then have sub: "sub \<noteq> tun_Subdomain t" "subdomainIndex r sub = Some j"
    by (auto simp: drop_tunnel_def split: if_splits)
  from inv_index [OF assms(1) sub(2)] obtain u where u: "tunnels r j = Some u" "tun_Subdomain u = sub"
    by blast
  with sub(1) assms(2) have "j \<noteq> i" by auto
  with u show "\<exists>u. tunnels (drop_tunnel r i t) j = Some u \<and> tun_Subdomain u = sub"
    by (simp add: drop_tunnel_def)
next
  fix j u assume "tunnels (drop_tunnel r i t) j = Some u"
  then have j: "j \<noteq> i" "tunnels r j = Some u"
    by (auto simp: drop_tunnel_def split: if_splits)
  from j(1) assms inv_subdomain_inj j(2) have "tun_Subdomain u \<noteq> tun_Subdomain t" by blast
  with inv_tunnel [OF assms(1) j(2)]
  show "tun_ID u = j \<and> subdomainIndex (drop_tunnel r i t) (tun_Subdomain u) = Some j \<and>
      admissible (drop_tunnel r i t) (tun_Subdomain u)"
    by (simp add: drop_tunnel_def)
qed (use inv_finite [OF assms(1)] in \<open>simp add: drop_tunnel_def\<close>)

lemma mr_Unregister_eq:
  "mr_Unregister r i =
     (case tunnels r i of None \<Rightarrow> (Some ErrTunnelNotFound, r) | Some t \<Rightarrow> (None, drop_tunnel r i t))"
  by (cases "tunnels r i") (simp_all add: mr_Unregister_def drop_tunnel_def)

lemma inv_Unregister [inv_intros]: "registry_inv r \<Longrightarrow> registry_inv (snd (mr_Unregister r i))"
  by (auto simp: mr_Unregister_eq inv_drop_tunnel split: option.splits)

lemma inv_UpdateHeartbeat [inv_intros]:
  assumes "registry_inv r"
  shows "registry_inv (snd (mr_UpdateHeartbeat now r i))"
proof (cases "tunnels r i")
  case None
  with assms show ?thesis by (simp add: mr_UpdateHeartbeat_def)
next
  case (Some t)
  let ?r = "r\<lparr>tunnels := (tunnels r)(i \<mapsto> t\<lparr>tun_LastHeartbeatAt := now\<rparr>)\<rparr>"
  have "registry_inv ?r"
  proof (rule registry_invI)
    fix sub j assume "subdomainIndex ?r sub = Some j"
    then have "subdomainIndex r sub = Some j" by simp
    from inv_index [OF assms this] Some
    show "\<exists>u. tunnels ?r j = Some u \<and> tun_Subdomain u = sub" by auto
  next
    fix j u assume "tunnels ?r j = Some u"
    then have "tunnels r j = Some u \<or> j = i \<and> u = t\<lparr>tun_LastHeartbeatAt := now\<rparr>"
      by (simp split: if_splits)
    with inv_tunnel [OF assms, of j u] inv_tunnel [OF assms Some]
    show "tun_ID u = j \<and> subdomainIndex ?r (tun_Subdomain u) = Some j \<and> admissible ?r (tun_Subdomain u)"
      by auto
  qed (use inv_finite [OF assms] in simp)
  with Some show ?thesis by (simp add: mr_UpdateHeartbeat_def)
qed

subsection \<open>The abstract registry\<close>

text \<open>What the registry promises: a map from subdomains to tunnels.\<close>

definition registry_view :: "MemoryRegistry \<Rightarrow> string \<rightharpoonup> Tunnel" where
  "registry_view r sub = (case subdomainIndex r sub of None \<Rightarrow> None | Some i \<Rightarrow> tunnels r i)"

lemma view_Some_iff:
  assumes "registry_inv r"
  shows "registry_view r sub = Some t \<longleftrightarrow> tunnels r (tun_ID t) = Some t \<and> tun_Subdomain t = sub"
proof
  assume "registry_view r sub = Some t"
  then obtain i where "subdomainIndex r sub = Some i" "tunnels r i = Some t"
    by (auto simp: registry_view_def split: option.splits)
  with inv_index [OF assms this(1)] inv_tunnel [OF assms this(2)]
  show "tunnels r (tun_ID t) = Some t \<and> tun_Subdomain t = sub" by auto
next
  assume "tunnels r (tun_ID t) = Some t \<and> tun_Subdomain t = sub"
  then have t: "tunnels r (tun_ID t) = Some t" and sub: "tun_Subdomain t = sub" by simp_all
  from inv_tunnel [OF assms t] sub have "subdomainIndex r sub = Some (tun_ID t)" by simp
  with t show "registry_view r sub = Some t" by (simp add: registry_view_def)
qed

lemma view_None_iff:
  assumes "registry_inv r"
  shows "registry_view r sub = None \<longleftrightarrow> subdomainIndex r sub = None"
  using inv_index [OF assms, of sub] by (auto simp: registry_view_def split: option.splits)

lemma view_New: "registry_view (NewMemoryRegistry reserved maxLen ttl) = Map.empty"
  by (rule ext) (simp add: registry_view_def NewMemoryRegistry_def)

lemma view_Register:
  assumes "registry_inv r" "tun_ID t \<notin> dom (tunnels r)" "mr_Register r t = (None, r')"
  shows "registry_view r' = (registry_view r)(tun_Subdomain t \<mapsto> with_default_ttl r t)"
proof
  fix sub
  note ok = mr_Register_ok [OF assms(3)]
  have "i \<noteq> tun_ID t" if "subdomainIndex r sub = Some i" for i
    using inv_index [OF assms(1) that] assms(2) by auto
  with ok(3) show "registry_view r' sub =
      ((registry_view r)(tun_Subdomain t \<mapsto> with_default_ttl r t)) sub"
    by (auto simp: registry_view_def split: option.splits)
qed

text \<open>Deleting by tunnel ID, on the abstract map.\<close>

definition without_id :: "(string \<rightharpoonup> Tunnel) \<Rightarrow> string \<Rightarrow> (string \<rightharpoonup> Tunnel)" where
  "without_id m i sub =
     (case m sub of None \<Rightarrow> None | Some t \<Rightarrow> if tun_ID t = i then None else Some t)"

lemma without_id_Some: "without_id m i sub = Some t \<longleftrightarrow> m sub = Some t \<and> tun_ID t \<noteq> i"
  by (auto simp: without_id_def split: option.splits if_splits)

lemma view_drop_tunnel:
  assumes "registry_inv r" "tunnels r i = Some t"
  shows "registry_view (drop_tunnel r i t) = without_id (registry_view r) i"
proof (rule map_ext_Some)
  fix sub u
  have inv': "registry_inv (drop_tunnel r i t)" using assms by (rule inv_drop_tunnel)
  show "registry_view (drop_tunnel r i t) sub = Some u \<longleftrightarrow> without_id (registry_view r) i sub = Some u"
    unfolding view_Some_iff [OF inv'] without_id_Some view_Some_iff [OF assms(1)]
    by (auto simp: drop_tunnel_def)
qed

lemma view_Unregister:
  assumes "registry_inv r"
  shows "registry_view (snd (mr_Unregister r i)) = without_id (registry_view r) i"
proof (cases "tunnels r i")
  case None
  have "without_id (registry_view r) i = registry_view r"
    using None view_Some_iff [OF assms] by (intro map_ext_Some) (auto simp: without_id_Some)
  with None show ?thesis by (simp add: mr_Unregister_eq)
next
  case (Some t)
  with assms show ?thesis by (simp add: mr_Unregister_eq view_drop_tunnel)
qed

lemma mr_GetByID_view:
  assumes "registry_inv r"
  shows "mr_GetByID r i = Inr t \<longleftrightarrow> tun_ID t = i \<and> registry_view r (tun_Subdomain t) = Some t"
  using inv_tunnel [OF assms, of i t] view_Some_iff [OF assms, of "tun_Subdomain t" t]
  by (auto simp: mr_GetByID_def split: option.splits)

lemma mr_GetBySubdomain_view:
  assumes "registry_inv r"
  shows "mr_GetBySubdomain r sub =
     (case registry_view r sub of None \<Rightarrow> Inl ErrTunnelNotFound | Some t \<Rightarrow> Inr (Some t))"
proof (cases "subdomainIndex r sub")
  case None
  then show ?thesis by (simp add: mr_GetBySubdomain_def registry_view_def)
next
  case (Some i)
  with inv_index [OF assms Some] show ?thesis
    by (auto simp: mr_GetBySubdomain_def registry_view_def)
qed

subsection \<open>Expiry\<close>

definition expired_id :: "go_time \<Rightarrow> MemoryRegistry \<Rightarrow> string \<Rightarrow> bool" where
  "expired_id now r i \<longleftrightarrow> (\<exists>t. tunnels r i = Some t \<and> tunnel_expired now t)"

lemma clean_loop_Cons:
  "clean_loop now (i # order) r c =
     (if expired_id now r i
      then clean_loop now order (drop_tunnel r i (the (tunnels r i))) (Suc c)
      else clean_loop now order r c)"
  by (cases "tunnels r i") (simp_all add: expired_id_def drop_tunnel_def)

lemma expired_id_drop:
  "expired_id now (drop_tunnel r i t) j \<longleftrightarrow> j \<noteq> i \<and> expired_id now r j"
  by (auto simp: expired_id_def drop_tunnel_def)

definition same_settings :: "MemoryRegistry \<Rightarrow> MemoryRegistry \<Rightarrow> bool" where
  "same_settings r r' \<longleftrightarrow>
     reservedSubdomains r' = reservedSubdomains r \<and> maxSubdomainLength r' = maxSubdomainLength r \<and>
     defaultTTL r' = defaultTTL r"

lemma clean_loop_spec:
  assumes "registry_inv r" "distinct order" "clean_loop now order r c = (c', r')"
  shows "registry_inv r' \<and> same_settings r r' \<and>
     tunnels r' = (\<lambda>i. if i \<in> set order \<and> expired_id now r i then None else tunnels r i) \<and>
     c' = c + card {i \<in> set order. expired_id now r i}"
  using assms
proof (induction order arbitrary: r c)
  case Nil
  then show ?case by (auto simp: same_settings_def)
next
  case (Cons i order)
  show ?case
  proof (cases "expired_id now r i")
    case True
    then obtain t where t: "tunnels r i = Some t" by (auto simp: expired_id_def)
    let ?r = "drop_tunnel r i t"
    have run: "clean_loop now order ?r (Suc c) = (c', r')"
      using Cons.prems(3) True t by (simp add: clean_loop_Cons del: clean_loop.simps)
    have set_eq: "{j \<in> set (i # order). expired_id now r j} =
        insert i {j \<in> set order. expired_id now ?r j}"
      using True Cons.prems(2) by (auto simp: expired_id_drop)
    have tun: "tunnels ?r = (tunnels r)(i := None)" by (simp add: drop_tunnel_def)
    have "same_settings r ?r" by (simp add: same_settings_def drop_tunnel_def)
    with Cons.IH [OF inv_drop_tunnel [OF Cons.prems(1) t] _ run] Cons.prems(2) True show ?thesis
      unfolding set_eq by (auto simp: same_settings_def expired_id_drop tun fun_eq_iff)
  next
    case False
    with Cons.prems have run: "clean_loop now order r c = (c', r')"
      by (simp add: clean_loop_Cons del: clean_loop.simps)
    have "{j \<in> set (i # order). expired_id now r j} = {j \<in> set order. expired_id now r j}"
      using False by auto
    with Cons.IH [OF Cons.prems(1) _ run] Cons.prems(2) False show ?thesis
      by (auto simp: fun_eq_iff)
  qed
qed

lemma range_order_expired:
  "range_order order (tunnels r) \<Longrightarrow> expired_id now r i \<Longrightarrow> i \<in> set order"
  by (auto simp: range_order_def expired_id_def)

lemma mr_CleanExpired_spec:
  assumes "registry_inv r" "range_order order (tunnels r)" "mr_CleanExpired order now r = (c, r')"
  shows "registry_inv r'" "same_settings r r'"
    "tunnels r' = (\<lambda>i. if expired_id now r i then None else tunnels r i)"
    "c = card {i. expired_id now r i}"
proof -
  note spec = clean_loop_spec [OF assms(1) _ assms(3) [unfolded mr_CleanExpired_def]]
  have d: "distinct order" using assms(2) by (simp add: range_order_def)
  have mem: "i \<in> set order \<and> expired_id now r i \<longleftrightarrow> expired_id now r i" for i
    using range_order_expired [OF assms(2)] by blast
  show "registry_inv r'" "same_settings r r'"
    "tunnels r' = (\<lambda>i. if expired_id now r i then None else tunnels r i)"
    "c = card {i. expired_id now r i}"
    using spec [OF d] mem by simp_all
qed

lemma inv_determines_index:
  assumes "registry_inv r" "registry_inv r'" "tunnels r = tunnels r'"
  shows "subdomainIndex r = subdomainIndex r'"
proof (rule map_ext_Some)
  fix sub i
  have "subdomainIndex q sub = Some i \<longleftrightarrow> (\<exists>t. tunnels q i = Some t \<and> tun_Subdomain t = sub)"
    if "registry_inv q" for q
    using inv_index [OF that, of sub i] inv_tunnel [OF that, of i] by auto
  with assms show "subdomainIndex r sub = Some i \<longleftrightarrow> subdomainIndex r' sub = Some i" by simp
qed

text \<open>Within the range of a duration the expiry test is the comparison it looks like.\<close>

lemma dur_mult_TTL: "0 < t \<Longrightarrow> t \<le> 9223372036 \<Longrightarrow> dur_mult t Second = t * Second"
  by (rule dur_mult_exact) (simp_all add: Second_def max_int64_def)

lemma tunnel_expired_exact:
  assumes "0 < tun_TTL t" "tun_TTL t \<le> 9223372036"
  shows "tunnel_expired now t \<longleftrightarrow> tun_TTL t * Second < now - tun_LastHeartbeatAt t"
proof -
  have "min_int64 \<le> tun_TTL t * Second" "tun_TTL t * Second < max_int64"
    using assms by (simp_all add: Second_def max_int64_def min_int64_def)
  with assms show ?thesis
    by (simp add: tunnel_expired_def dur_mult_TTL time_Sub_gt_iff)
qed

subsection \<open>The interface the handlers use\<close>

locale tunnel_registry =
  fixes invar :: "'s \<Rightarrow> bool"
    and view :: "'s \<Rightarrow> string \<rightharpoonup> Tunnel"
    and register :: "'s \<Rightarrow> Tunnel \<Rightarrow> registry_error option \<times> 's"
    and unregister :: "'s \<Rightarrow> string \<Rightarrow> registry_error option \<times> 's"
    and get_id :: "'s \<Rightarrow> string \<Rightarrow> registry_error + Tunnel"
  assumes view_keyed: "invar s \<Longrightarrow> view s a = Some t \<Longrightarrow> tun_Subdomain t = a"
    and view_id_inj: "invar s \<Longrightarrow> view s a = Some t \<Longrightarrow> view s b = Some u \<Longrightarrow>
      tun_ID t = tun_ID u \<Longrightarrow> a = b"
    and register_error: "register s t = (Some e, s') \<Longrightarrow> s' = s"
    and register_ok: "invar s \<Longrightarrow> (\<And>a u. view s a = Some u \<Longrightarrow> tun_ID u \<noteq> tun_ID t) \<Longrightarrow>
      register s t = (None, s') \<Longrightarrow>
      invar s' \<and> view s (tun_Subdomain t) = None \<and>
      (\<exists>t'. tun_ID t' = tun_ID t \<and> tun_ConnID t' = tun_ConnID t \<and> tun_OwnerID t' = tun_OwnerID t \<and>
         view s' = (view s)(tun_Subdomain t \<mapsto> t'))"
    and register_taken: "invar s \<Longrightarrow> register s t = (None, s') \<Longrightarrow> view s (tun_Subdomain t) = None"
    and unregister_law: "invar s \<Longrightarrow>
      invar (snd (unregister s i)) \<and> view (snd (unregister s i)) = without_id (view s) i"
    and unregister_result: "invar s \<Longrightarrow>
      fst (unregister s i) = None \<longleftrightarrow> (\<exists>a t. view s a = Some t \<and> tun_ID t = i)"
    and get_id_law: "invar s \<Longrightarrow>
      get_id s i = Inr t \<longleftrightarrow> tun_ID t = i \<and> view s (tun_Subdomain t) = Some t"
begin

fun unregister_all :: "'s \<Rightarrow> string list \<Rightarrow> 's" where
  "unregister_all s [] = s"
| "unregister_all s (i # is) = unregister_all (snd (unregister s i)) is"

fun register_list :: "'s \<Rightarrow> Tunnel list \<Rightarrow> registry_error option \<times> 's \<times> string list" where
  "register_list s [] = (None, s, [])"
| "register_list s (t # ts) =
     (case register s t of
        (Some e, s') \<Rightarrow> (Some e, s', [])
      | (None, s') \<Rightarrow>
          (case register_list s' ts of (res, s'', ids) \<Rightarrow> (res, s'', tun_ID t # ids)))"

text \<open>No tunnel of the registry, and no other tunnel of the list, has the ID of a tunnel of the list
  under another subdomain.\<close>

definition separate :: "'s \<Rightarrow> Tunnel list \<Rightarrow> bool" where
  "separate s ts \<longleftrightarrow>
     (\<forall>t \<in> set ts. (\<forall>a u. view s a = Some u \<longrightarrow> tun_ID u = tun_ID t \<longrightarrow> a = tun_Subdomain t) \<and>
        (\<forall>u \<in> set ts. tun_ID u = tun_ID t \<longrightarrow> tun_Subdomain u = tun_Subdomain t))"

lemma unregister_all_law:
  "invar s \<Longrightarrow> invar (unregister_all s is) \<and>
     view (unregister_all s is) =
       (\<lambda>a. case view s a of None \<Rightarrow> None | Some t \<Rightarrow> if tun_ID t \<in> set is then None else Some t)"
proof (induction "is" arbitrary: s)
  case Nil
  then show ?case by (auto simp: fun_eq_iff split: option.splits)
next
  case (Cons i "is")
  with unregister_law [OF Cons.prems, of i] show ?case
    by (auto simp: fun_eq_iff without_id_def split: option.splits)
qed

lemma unregister_all_none: "invar s \<Longrightarrow> view (unregister_all s is) a = Some t \<Longrightarrow>
    tun_ID t \<notin> set is \<and> view s a = Some t"
  using unregister_all_law [of s "is"] by (auto split: option.splits if_splits)

lemma separate_view:
  "separate s ts \<Longrightarrow> t \<in> set ts \<Longrightarrow> view s a = Some u \<Longrightarrow> tun_ID u = tun_ID t \<Longrightarrow> a = tun_Subdomain t"
  unfolding separate_def by meson

lemma separate_list:
  "separate s ts \<Longrightarrow> t \<in> set ts \<Longrightarrow> u \<in> set ts \<Longrightarrow> tun_ID u = tun_ID t \<Longrightarrow>
     tun_Subdomain u = tun_Subdomain t"
  unfolding separate_def by meson

lemma separate_register:
  assumes "invar s" "separate s (t # ts)" "register s t = (None, s')"
  obtains t' where "invar s'" "view s (tun_Subdomain t) = None" "tun_ID t' = tun_ID t"
    "tun_ConnID t' = tun_ConnID t" "tun_OwnerID t' = tun_OwnerID t"
    "view s' = (view s)(tun_Subdomain t \<mapsto> t')" "separate s' ts"
proof -
  have free: "tun_ID u \<noteq> tun_ID t" if "view s a = Some u" for a u
  proof
    assume "tun_ID u = tun_ID t"
    with separate_view [OF assms(2) _ that] have "a = tun_Subdomain t" by simp
    with that register_taken [OF assms(1,3)] show False by simp
  qed
  have "invar s' \<and> view s (tun_Subdomain t) = None \<and>
      (\<exists>t'. tun_ID t' = tun_ID t \<and> tun_ConnID t' = tun_ConnID t \<and> tun_OwnerID t' = tun_OwnerID t \<and>
         view s' = (view s)(tun_Subdomain t \<mapsto> t'))"
    by (rule register_ok [OF assms(1) _ assms(3)]) (rule free)
  then obtain t' where t': "invar s'" "view s (tun_Subdomain t) = None" "tun_ID t' = tun_ID t"
    "tun_ConnID t' = tun_ConnID t" "tun_OwnerID t' = tun_OwnerID t"
    "view s' = (view s)(tun_Subdomain t \<mapsto> t')" by (elim conjE exE)
  have "separate s' ts"
    unfolding separate_def
  proof (intro ballI conjI allI impI)
    fix x a u assume x: "x \<in> set ts" "view s' a = Some u" "tun_ID u = tun_ID x"
    show "a = tun_Subdomain x"
    proof (cases "a = tun_Subdomain t")
      case True
      then have "tun_ID x = tun_ID t" using x(2,3) t'(3,6) by simp
      with separate_list [OF assms(2), of t x] x(1) True show ?thesis by simp
    next
      case False
      then have "view s a = Some u" using x(2) t'(6) by simp
      with separate_view [OF assms(2), of x a u] x(1,3) show ?thesis by simp
    qed
  next
    fix x u assume "x \<in> set ts" "u \<in> set ts" "tun_ID u = tun_ID x"
    then show "tun_Subdomain u = tun_Subdomain x" using separate_list [OF assms(2), of x u] by simp
  qed
  with t' show thesis by (rule that)
qed

lemma register_list_law:
  assumes "invar s" "separate s ts" "register_list s ts = (res, s', ids)"
  shows "invar s' \<and> (\<exists>pre. ids = map tun_ID pre \<and> pre = take (length ids) ts \<and> (res = None \<longrightarrow> pre = ts) \<and>
      distinct (map tun_Subdomain pre) \<and>
      (\<forall>t \<in> set pre. view s (tun_Subdomain t) = None \<and>
         (\<exists>t'. view s' (tun_Subdomain t) = Some t' \<and> tun_ID t' = tun_ID t \<and>
            tun_ConnID t' = tun_ConnID t \<and> tun_OwnerID t' = tun_OwnerID t)) \<and>
      (\<forall>a. a \<notin> tun_Subdomain ` set pre \<longrightarrow> view s' a = view s a))"
  using assms
proof (induction ts arbitrary: s ids res)
  case Nil
  then show ?case by simp
next
  case (Cons t ts)
  show ?case
  proof (cases "register s t")
    case (Pair r s1)
    show ?thesis
    proof (cases r)
      case (Some e)
      with Pair Cons.prems have "ids = []" "s' = s1" "res = Some e" by auto
      moreover have "s1 = s" using register_error Pair Some by blast
      ultimately show ?thesis using Cons.prems(1) by simp
    next
      case None
      with Pair have reg: "register s t = (None, s1)" by simp
      obtain res' ids' where rest: "register_list s1 ts = (res', s', ids')" "res = res'"
        "ids = tun_ID t # ids'"
        using Cons.prems(3) reg by (auto split: prod.splits)
      obtain t' where t': "invar s1" "view s (tun_Subdomain t) = None" "tun_ID t' = tun_ID t"
        "tun_ConnID t' = tun_ConnID t" "tun_OwnerID t' = tun_OwnerID t"
        "view s1 = (view s)(tun_Subdomain t \<mapsto> t')" "separate s1 ts"
        using separate_register [OF Cons.prems(1,2) reg] .
      from Cons.IH [OF t'(1,7) rest(1)] obtain pre where pre: "invar s'" "ids' = map tun_ID pre"
        "pre = take (length ids') ts" "res' = None \<longrightarrow> pre = ts" "distinct (map tun_Subdomain pre)"
        "\<forall>u \<in> set pre. view s1 (tun_Subdomain u) = None \<and>
           (\<exists>u'. view s' (tun_Subdomain u) = Some u' \<and> tun_ID u' = tun_ID u \<and>
              tun_ConnID u' = tun_ConnID u \<and> tun_OwnerID u' = tun_OwnerID u)"
        "\<forall>a. a \<notin> tun_Subdomain ` set pre \<longrightarrow> view s' a = view s1 a" by (elim conjE exE)
      have new: "tun_Subdomain t \<notin> tun_Subdomain ` set pre"
        using pre(6) t'(6) by force
      have own: "view s' (tun_Subdomain t) = Some t'" using pre(7) new t'(6) by simp
      have others: "view s (tun_Subdomain u) = None" if "u \<in> set pre" for u
        using pre(6) that new t'(6) by (metis fun_upd_apply image_eqI)
      have "invar s' \<and> ids = map tun_ID (t # pre) \<and> t # pre = take (length ids) (t # ts) \<and>
          (res = None \<longrightarrow> t # pre = t # ts) \<and> distinct (map tun_Subdomain (t # pre))"
        using pre(1-5) rest(2,3) new by auto
      moreover have "\<forall>u \<in> set (t # pre). view s (tun_Subdomain u) = None \<and>
         (\<exists>u'. view s' (tun_Subdomain u) = Some u' \<and> tun_ID u' = tun_ID u \<and>
            tun_ConnID u' = tun_ConnID u \<and> tun_OwnerID u' = tun_OwnerID u)"
        using pre(6) others t'(2-5) own by auto
      moreover have "\<forall>a. a \<notin> tun_Subdomain ` set (t # pre) \<longrightarrow> view s' a = view s a"
        using pre(7) t'(6) by auto
      ultimately show ?thesis by blast
    qed
  qed
qed

text \<open>Registering a list of tunnels and then removing what was registered restores the registry.\<close>

lemma register_rollback:
  assumes "invar s" "separate s ts" "register_list s ts = (res, s', ids)"
  shows "view (unregister_all s' ids) = view s"
proof
  fix a
  from register_list_law [OF assms] obtain pre where law: "invar s'" "ids = map tun_ID pre"
    "pre = take (length ids) ts" "res = None \<longrightarrow> pre = ts" "distinct (map tun_Subdomain pre)"
    "\<forall>t \<in> set pre. view s (tun_Subdomain t) = None \<and>
       (\<exists>t'. view s' (tun_Subdomain t) = Some t' \<and> tun_ID t' = tun_ID t \<and>
          tun_ConnID t' = tun_ConnID t \<and> tun_OwnerID t' = tun_OwnerID t)"
    "\<forall>a. a \<notin> tun_Subdomain ` set pre \<longrightarrow> view s' a = view s a" by (elim conjE exE)
  have view': "view (unregister_all s' ids) a =
      (case view s' a of None \<Rightarrow> None | Some t \<Rightarrow> if tun_ID t \<in> set ids then None else Some t)"
    using unregister_all_law [OF law(1), of ids] by simp
  show "view (unregister_all s' ids) a = view s a"
  proof (cases "a \<in> tun_Subdomain ` set pre")
    case True
    then obtain t where t: "t \<in> set pre" "a = tun_Subdomain t" by (elim imageE)
    from bspec [OF law(6) t(1)] obtain t' where t': "view s a = None" "view s' a = Some t'"
      "tun_ID t' = tun_ID t" unfolding t(2) by (elim conjE exE)
    have "tun_ID t \<in> set ids" using t(1) law(2) by simp
    then show ?thesis by (simp add: view' t')
  next
    case False
    have kept: "tun_ID u \<notin> set ids" if u: "view s' a = Some u" for u
    proof
      assume "tun_ID u \<in> set ids"
      then obtain t where t: "t \<in> set pre" "tun_ID t = tun_ID u" using law(2) by auto
      from bspec [OF law(6) t(1)] obtain t' where t': "view s' (tun_Subdomain t) = Some t'"
        "tun_ID t' = tun_ID t" by (elim conjE exE)
      have "a = tun_Subdomain t" by (rule view_id_inj [OF law(1) u t'(1)]) (simp add: t' t)
      with False t(1) show False by simp
    qed
    have "view s' a = view s a" using law(7) False by simp
    with kept show ?thesis by (cases "view s a") (simp_all add: view')
  qed
qed

end

interpretation mreg: tunnel_registry registry_inv registry_view mr_Register mr_Unregister mr_GetByID
proof unfold_locales
  fix s a b t u i e s'
  show "tun_Subdomain t = a" if "registry_inv s" "registry_view s a = Some t"
    using that by (simp add: view_Some_iff)
  show "a = b" if "registry_inv s" "registry_view s a = Some t" "registry_view s b = Some u"
    "tun_ID t = tun_ID u"
    using that by (auto simp: view_Some_iff)
  show "s' = s" if "mr_Register s t = (Some e, s')"
    using that by (rule mr_Register_error)
  show "registry_view s (tun_Subdomain t) = None" if "registry_inv s" "mr_Register s t = (None, s')"
    using mr_Register_ok(2) [OF that(2)] by (simp add: view_None_iff [OF that(1)])
  show "registry_inv (snd (mr_Unregister s i)) \<and>
      registry_view (snd (mr_Unregister s i)) = without_id (registry_view s) i" if "registry_inv s"
    using that by (simp add: inv_Unregister view_Unregister)
  show "fst (mr_Unregister s i) = None \<longleftrightarrow> (\<exists>a t. registry_view s a = Some t \<and> tun_ID t = i)"
    if "registry_inv s"
    using inv_tunnel [OF that, of i]
    by (auto simp: mr_Unregister_def view_Some_iff [OF that] split: option.splits)
  show "mr_GetByID s i = Inr t \<longleftrightarrow> tun_ID t = i \<and> registry_view s (tun_Subdomain t) = Some t"
    if "registry_inv s"
    using that by (rule mr_GetByID_view)
next
  fix s t s'
  assume inv: "registry_inv s" and free: "\<And>a u. registry_view s a = Some u \<Longrightarrow> tun_ID u \<noteq> tun_ID t"
    and reg: "mr_Register s t = (None, s')"
  have new: "tun_ID t \<notin> dom (tunnels s)"
  proof
    assume "tun_ID t \<in> dom (tunnels s)"
    then obtain u where u: "tunnels s (tun_ID t) = Some u" by auto
    with inv_tunnel [OF inv u] have "registry_view s (tun_Subdomain u) = Some u"
      by (simp add: view_Some_iff [OF inv])
    with free inv_tunnel [OF inv u] show False by blast
  qed
  have "registry_inv s'" using inv_Register [OF inv new] reg by simp
  moreover have "registry_view s (tun_Subdomain t) = None"
    using mr_Register_ok(2) [OF reg] by (simp add: view_None_iff [OF inv])
  ultimately show "registry_inv s' \<and> registry_view s (tun_Subdomain t) = None \<and>
      (\<exists>t'. tun_ID t' = tun_ID t \<and> tun_ConnID t' = tun_ConnID t \<and> tun_OwnerID t' = tun_OwnerID t \<and>
         registry_view s' = (registry_view s)(tun_Subdomain t \<mapsto> t'))"
    using view_Register [OF inv new reg] by (intro conjI exI [of _ "with_default_ttl s t"]) simp_all
qed

subsection \<open>Sequences of calls\<close>

datatype registry_op =
  RegisterOp Tunnel | UnregisterOp string | HeartbeatOp go_time string | CleanOp "string list" go_time

fun registry_exec :: "MemoryRegistry \<Rightarrow> registry_op \<Rightarrow> MemoryRegistry" where
  "registry_exec r (RegisterOp t) = snd (mr_Register r t)"
| "registry_exec r (UnregisterOp i) = snd (mr_Unregister r i)"
| "registry_exec r (HeartbeatOp now i) = snd (mr_UpdateHeartbeat now r i)"
| "registry_exec r (CleanOp order now) = snd (mr_CleanExpired order now r)"

text \<open>A caller registers a tunnel under an ID that is not in use; the runtime iterates in some order.\<close>

fun registry_op_ok :: "MemoryRegistry \<Rightarrow> registry_op \<Rightarrow> bool" where
  "registry_op_ok r (RegisterOp t) \<longleftrightarrow> tunnels r (tun_ID t) = None"
| "registry_op_ok r (CleanOp order now) \<longleftrightarrow> range_order order (tunnels r)"
| "registry_op_ok r _ \<longleftrightarrow> True"

fun registry_run :: "MemoryRegistry \<Rightarrow> registry_op list \<Rightarrow> MemoryRegistry" where
  "registry_run r [] = r"
| "registry_run r (x # xs) = registry_run (registry_exec r x) xs"

fun registry_ops_ok :: "MemoryRegistry \<Rightarrow> registry_op list \<Rightarrow> bool" where
  "registry_ops_ok r [] \<longleftrightarrow> True"
| "registry_ops_ok r (x # xs) \<longleftrightarrow> registry_op_ok r x \<and> registry_ops_ok (registry_exec r x) xs"

lemma same_settings_exec: "registry_op_ok r x \<Longrightarrow> registry_inv r \<Longrightarrow> same_settings r (registry_exec r x)"
proof (cases x)
  case (CleanOp order now)
  assume "registry_op_ok r x" "registry_inv r"
  with CleanOp show ?thesis
    using mr_CleanExpired_spec(2) [of r order now] by (cases "mr_CleanExpired order now r") auto
qed (auto simp: same_settings_def mr_Register_def mr_Unregister_def mr_UpdateHeartbeat_def
      split: option.splits)

lemma inv_exec: "registry_inv r \<Longrightarrow> registry_op_ok r x \<Longrightarrow> registry_inv (registry_exec r x)"
proof (cases x)
  case (CleanOp order now)
  assume "registry_inv r" "registry_op_ok r x"
  with CleanOp show ?thesis
    using mr_CleanExpired_spec(1) [of r order now] by (cases "mr_CleanExpired order now r") auto
qed (auto intro: inv_intros)

lemma inv_run:
  "registry_inv r \<Longrightarrow> registry_ops_ok r ops \<Longrightarrow>
     registry_inv (registry_run r ops) \<and> same_settings r (registry_run r ops)"
proof (induction ops arbitrary: r)
  case Nil
  then show ?case by (simp add: same_settings_def)
next
  case (Cons x xs)
  then have "registry_inv (registry_exec r x)" "same_settings r (registry_exec r x)"
    by (simp_all add: inv_exec same_settings_exec)
  with Cons.IH [of "registry_exec r x"] Cons.prems(2) show ?case
    by (auto simp: same_settings_def)
qed

lemma inv_GetBySubdomain:
  assumes "registry_inv r" "mr_GetBySubdomain r sub = Inr x"
  shows "\<exists>t. x = Some t \<and> tun_Subdomain t = sub \<and> mr_GetByID r (tun_ID t) = Inr t \<and> admissible r sub"
proof -
  obtain t where t: "registry_view r sub = Some t" "x = Some t"
    using assms by (auto simp: mr_GetBySubdomain_view split: option.splits)
  then have "tunnels r (tun_ID t) = Some t" "tun_Subdomain t = sub"
    using view_Some_iff [OF assms(1)] by simp_all
  with inv_tunnel [OF assms(1) this(1)] t(2) show ?thesis by (simp add: mr_GetByID_def)
qed

subsection \<open>An example state\<close>

definition ex_tunnel :: Tunnel where
  "ex_tunnel =
     \<lparr>tun_ID = ''c1-app'', tun_OwnerID = ''user1'', tun_Subdomain = ''app'', tun_Protocol = ''http'',
      tun_TargetPort = 3000, tun_CreatedAt = 0, tun_LastHeartbeatAt = 0, tun_ConnID = ''c1'',
      tun_TTL = 0, tun_BandwidthLimit = 0\<rparr>"

definition ex_empty :: MemoryRegistry where
  "ex_empty = NewMemoryRegistry [''admin'', ''api''] 32 60"

definition ex_registry :: MemoryRegistry where
  "ex_registry =
     \<lparr>tunnels = [''c1-app'' \<mapsto> ex_tunnel\<lparr>tun_TTL := 60\<rparr>], subdomainIndex = [''app'' \<mapsto> ''c1-app''],
      reservedSubdomains = {''admin'', ''api''}, maxSubdomainLength = 32, defaultTTL = 60\<rparr>"

lemma ex_register_ok: "mr_Register ex_empty ex_tunnel = (None, ex_registry)"
  by (simp add: ex_registry_def ex_empty_def NewMemoryRegistry_def ex_tunnel_def mr_Register_def
      with_default_ttl_def)

lemma ex_empty_inv: "registry_inv ex_empty"
  by (simp add: ex_empty_def inv_New)

lemma ex_registry_inv: "registry_inv ex_registry"
proof -
  have "tun_ID ex_tunnel \<notin> dom (tunnels ex_empty)"
    by (simp add: ex_empty_def NewMemoryRegistry_def)
  from inv_Register [OF ex_empty_inv this] show ?thesis by (simp add: ex_register_ok)
qed

lemma ex_registry_tunnels: "tunnels ex_registry = [''c1-app'' \<mapsto> ex_tunnel\<lparr>tun_TTL := 60\<rparr>]"
  by (simp add: ex_registry_def)

lemma ex_registry_order: "range_order [''c1-app''] (tunnels ex_registry)"
  by (simp add: range_order_def ex_registry_tunnels)

subsection \<open>Properties\<close>

text \<open>C2. In every state the registry reaches by calls that register fresh tunnel IDs, a subdomain
  lookup never returns a nil tunnel: what it returns is registered under that subdomain and under
  its own ID, and the subdomain is not reserved.\<close>

theorem registry_lookup_sound:
  assumes "registry_ops_ok (NewMemoryRegistry reserved maxLen ttl) ops"
    and "mr_GetBySubdomain (registry_run (NewMemoryRegistry reserved maxLen ttl) ops) sub = Inr x"
  shows "\<exists>t. x = Some t \<and> tun_Subdomain t = sub \<and> sub \<notin> set reserved \<and>
    mr_GetByID (registry_run (NewMemoryRegistry reserved maxLen ttl) ops) (tun_ID t) = Inr t"
proof -
  let ?n = "NewMemoryRegistry reserved maxLen ttl"
  have run: "registry_inv (registry_run ?n ops)" "same_settings ?n (registry_run ?n ops)"
    using inv_run [OF inv_New assms(1)] by simp_all
  from inv_GetBySubdomain [OF run(1) assms(2)] run(2) show ?thesis
    by (auto simp: admissible_def same_settings_def NewMemoryRegistry_def)
qed

theorem registry_lookup_sound_witness:
  "\<exists>t. registry_ops_ok ex_empty [RegisterOp ex_tunnel] \<and>
     mr_GetBySubdomain (registry_run ex_empty [RegisterOp ex_tunnel]) ''app'' = Inr (Some t) \<and>
     mr_GetByID (registry_run ex_empty [RegisterOp ex_tunnel]) (tun_ID t) = Inr t"
proof -
  have ok: "registry_ops_ok ex_empty [RegisterOp ex_tunnel]"
    by (simp add: ex_empty_def NewMemoryRegistry_def)
  have look: "mr_GetBySubdomain (registry_run ex_empty [RegisterOp ex_tunnel]) ''app'' =
      Inr (Some (ex_tunnel\<lparr>tun_TTL := 60\<rparr>))"
    by (simp add: ex_register_ok mr_GetBySubdomain_def ex_registry_def)
  from registry_lookup_sound [OF ok [unfolded ex_empty_def] look [unfolded ex_empty_def]] ok look
  show ?thesis by (auto simp: ex_empty_def)
qed

text \<open>C14. On a consistent registry, registering a tunnel whose ID is not in use refines insertion into a
  map from subdomains to tunnels: the call fails exactly when the subdomain is reserved, too long or in
  the map, in this order, and then leaves the map alone; otherwise it adds the tunnel under its
  subdomain, with every field as given except that a TTL of zero becomes the registry's default TTL, and
  changes nothing else. (An ID that is in use is not rejected and breaks this: see
  \<open>Register_duplicate_id_dangles\<close>.)\<close>

theorem Register_refines_insert:
  assumes "registry_inv r" "tunnels r (tun_ID t) = None"
  defines "sub \<equiv> tun_Subdomain t"
  shows "case mr_Register r t of (err, r') \<Rightarrow>
    err = (if sub \<in> reservedSubdomains r then Some ErrSubdomainReserved
           else if 0 < maxSubdomainLength r \<and> maxSubdomainLength r < int (length sub)
           then Some ErrSubdomainTooLong
           else if registry_view r sub \<noteq> None then Some ErrSubdomainTaken else None) \<and>
    registry_inv r' \<and>
    registry_view r' =
      (if err = None
       then (registry_view r)(sub \<mapsto> t\<lparr>tun_TTL := if tun_TTL t = 0 then defaultTTL r else tun_TTL t\<rparr>)
       else registry_view r)"
proof (cases "mr_Register r t")
  case (Pair err r')
  have inv': "registry_inv r'" using inv_Register [OF assms(1), of t] assms(2) Pair by auto
  have "registry_view r' =
      (if err = None then (registry_view r)(sub \<mapsto> with_default_ttl r t) else registry_view r)"
    using view_Register [OF assms(1), of t r'] mr_Register_error [of r t _ r'] assms(2) Pair
    by (cases err) (auto simp: sub_def)
  moreover have "with_default_ttl r t = t\<lparr>tun_TTL := if tun_TTL t = 0 then defaultTTL r else tun_TTL t\<rparr>"
    by (simp add: with_default_ttl_def)
  ultimately show ?thesis using inv' Pair
    by (auto simp: mr_Register_def view_None_iff [OF assms(1)] sub_def split: if_splits)
qed

definition ex_fresh_tunnel :: Tunnel where
  "ex_fresh_tunnel = ex_tunnel\<lparr>tun_ID := ''c2-blog'', tun_Subdomain := ''blog'', tun_TTL := 0\<rparr>"

theorem Register_refines_insert_witness:
  "registry_inv (snd (mr_Register ex_registry (ex_tunnel\<lparr>tun_ID := ''c2-app''\<rparr>))) \<and>
   fst (mr_Register ex_registry (ex_tunnel\<lparr>tun_ID := ''c2-app''\<rparr>)) = Some ErrSubdomainTaken \<and>
   registry_view (snd (mr_Register ex_registry ex_fresh_tunnel)) ''blog'' = Some (ex_fresh_tunnel\<lparr>tun_TTL := 60\<rparr>)"
proof -
  have n: "tunnels ex_registry (tun_ID (ex_tunnel\<lparr>tun_ID := ''c2-app''\<rparr>)) = None"
    "tunnels ex_registry (tun_ID ex_fresh_tunnel) = None"
    by (simp_all add: ex_registry_tunnels ex_fresh_tunnel_def)
  have "registry_inv (snd (mr_Register ex_registry (ex_tunnel\<lparr>tun_ID := ''c2-app''\<rparr>)))
      \<and> fst (mr_Register ex_registry (ex_tunnel\<lparr>tun_ID := ''c2-app''\<rparr>)) = Some ErrSubdomainTaken"
    using Register_refines_insert [OF ex_registry_inv n(1)]
    by (simp add: case_prod_beta registry_view_def ex_registry_def ex_tunnel_def)
  moreover have "registry_view (snd (mr_Register ex_registry ex_fresh_tunnel)) ''blog'' = Some (ex_fresh_tunnel\<lparr>tun_TTL := 60\<rparr>)"
    using Register_refines_insert [OF ex_registry_inv n(2)]
    by (simp add: case_prod_beta registry_view_def ex_registry_def ex_tunnel_def ex_fresh_tunnel_def)
  ultimately show ?thesis by blast
qed



text \<open>Cleaning up removes exactly the expired tunnels, keeps the invariant, counts what it
  removed, and its result does not depend on the order in which the runtime iterates the map.\<close>

theorem CleanExpired_removes_expired:
  assumes "registry_inv r" "range_order order (tunnels r)" "range_order order' (tunnels r)"
  shows "mr_CleanExpired order now r = mr_CleanExpired order' now r \<and>
    (case mr_CleanExpired order now r of (n, r') \<Rightarrow>
       registry_inv r' \<and> n = card {i. expired_id now r i} \<and>
       (\<forall>i. mr_GetByID r' i = (if expired_id now r i then Inl ErrTunnelNotFound else mr_GetByID r i)))"
proof -
  obtain n r1 where 1: "mr_CleanExpired order now r = (n, r1)" by (metis surj_pair)
  obtain m r2 where 2: "mr_CleanExpired order' now r = (m, r2)" by (metis surj_pair)
  note s1 = mr_CleanExpired_spec [OF assms(1,2) 1] and s2 = mr_CleanExpired_spec [OF assms(1,3) 2]
  have "tunnels r1 = tunnels r2" using s1(3) s2(3) by simp
  then have "r1 = r2"
    using inv_determines_index [OF s1(1) s2(1)] s1(2) s2(2)
    by (intro MemoryRegistry.equality) (simp_all add: same_settings_def)
  with 1 2 s1 s2(4) show ?thesis by (simp add: mr_GetByID_def)
qed

theorem CleanExpired_removes_expired_witness:
  "fst (mr_CleanExpired [''c1-app''] (61 * 1000000000) ex_registry) = 1"
proof -
  have "{i. expired_id (61 * 1000000000) ex_registry i} = {''c1-app''}"
    by (auto simp: expired_id_def ex_registry_tunnels ex_tunnel_def tunnel_expired_exact Second_def
        split: if_splits)
  with CleanExpired_removes_expired [OF ex_registry_inv ex_registry_order ex_registry_order,
      of "61 * 1000000000"]
  show ?thesis by (simp add: case_prod_beta)
qed

text \<open>For every TTL up to 9223372036 seconds a tunnel is expired exactly when more than its TTL
  has passed since its last heartbeat, whatever the two times are; a TTL that is zero or negative
  never expires.\<close>

theorem expiry_exact:
  assumes "tun_TTL t \<le> 9223372036"
  shows "tunnel_expired now t \<longleftrightarrow>
    0 < tun_TTL t \<and> tun_TTL t * 1000000000 < now - tun_LastHeartbeatAt t"
  using assms tunnel_expired_exact [of t now]
  by (cases "0 < tun_TTL t") (simp_all add: tunnel_expired_def Second_def)

theorem expiry_exact_witness:
  "tunnel_expired 3600000000001 (ex_tunnel\<lparr>tun_TTL := 3600\<rparr>) \<and>
   \<not> tunnel_expired 3600000000000 (ex_tunnel\<lparr>tun_TTL := 3600\<rparr>)"
proof -
  have "tun_TTL (ex_tunnel\<lparr>tun_TTL := 3600\<rparr>) \<le> 9223372036" by simp
  from expiry_exact [OF this, of 3600000000001] expiry_exact [OF this, of 3600000000000]
  show ?thesis by (simp add: ex_tunnel_def)
qed

text \<open>A TTL of 9223372037 seconds overflows the duration: the tunnel counts as expired at the very
  moment of its heartbeat, and one cleanup removes it.\<close>

theorem expiry_overflow:
  assumes "tun_TTL t = 9223372037" "tunnels r i = Some t"
  shows "mr_GetByID (snd (mr_CleanExpired [i] (tun_LastHeartbeatAt t) r)) i = Inl ErrTunnelNotFound"
proof -
  have "tunnel_expired (tun_LastHeartbeatAt t) t"
    by (simp add: tunnel_expired_def assms(1) dur_mult_def wrap64_def Second_def time_Sub_def
        min_int64_def max_int64_def)
  with assms(2) show ?thesis by (simp add: mr_CleanExpired_def mr_GetByID_def)
qed

theorem expiry_overflow_witness:
  "mr_GetByID (snd (mr_CleanExpired [''c1-app''] 0
     (ex_registry\<lparr>tunnels := [''c1-app'' \<mapsto> ex_tunnel\<lparr>tun_TTL := 9223372037\<rparr>]\<rparr>))) ''c1-app'' =
   Inl ErrTunnelNotFound"
  using expiry_overflow [of "ex_tunnel\<lparr>tun_TTL := 9223372037\<rparr>"
      "ex_registry\<lparr>tunnels := [''c1-app'' \<mapsto> ex_tunnel\<lparr>tun_TTL := 9223372037\<rparr>]\<rparr>" "''c1-app''"]
  by (simp add: ex_tunnel_def)

text \<open>C39. Register does not check that a tunnel ID is free. When two tunnels with one ID and different
  subdomains are registered, unregistering that ID leaves the first subdomain in the index, and
  looking it up returns a nil tunnel without an error.\<close>

theorem Register_duplicate_id_dangles:
  assumes "mr_Register r t = (None, r1)" "mr_Register r1 u = (None, r2)" "tun_ID u = tun_ID t"
  shows "mr_GetBySubdomain (snd (mr_Unregister r2 (tun_ID t))) (tun_Subdomain t) = Inr None"
proof -
  note r1 = mr_Register_ok [OF assms(1)] and r2 = mr_Register_ok [OF assms(2)]
  have "tun_Subdomain u \<noteq> tun_Subdomain t" using r2(2) r1(3) by auto
  with r1(3) r2(3) assms(3) show ?thesis
    by (simp add: mr_Unregister_def mr_GetBySubdomain_def)
qed

theorem Register_duplicate_id_dangles_witness:
  "mr_GetBySubdomain
     (snd (mr_Unregister (snd (mr_Register ex_registry (ex_tunnel\<lparr>tun_Subdomain := ''b''\<rparr>))) ''c1-app''))
     ''app'' = Inr None"
proof -
  let ?u = "ex_tunnel\<lparr>tun_Subdomain := ''b''\<rparr>"
  have second: "mr_Register ex_registry ?u = (None, snd (mr_Register ex_registry ?u))"
    by (simp add: mr_Register_def ex_registry_def ex_tunnel_def)
  have "tun_ID ?u = tun_ID ex_tunnel" by simp
  from Register_duplicate_id_dangles [OF ex_register_ok second this] show ?thesis
    by (simp add: ex_tunnel_def)
qed

end
