(* ===== verification/Broker.thy ===== *)
theory Broker
  imports Go_Strings
begin

text \<open>
  \<open>internal/broker/broker.go\<close>: the client connections and the streams on them. Connections and
  streams are shared by pointer (the gateway's read loop, the proxy handlers and the broker hold
  them at the same time, also after the maps have dropped them), so they live in a heap:
  \<open>conn_heap\<close> and \<open>stream_heap\<close> are maps from references, allocated in order. A channel with a buffer
  is the list of the values in it, a channel that is only ever closed is the boolean that says so.
  Each method runs under the broker's or the connection's mutex and is one atomic operation; the
  loop over a connection's streams takes the iteration order as an argument.

  The WebSocket connection is third-party code: a write is recorded in a log per socket together
  with its outcome, and which writes succeed is the argument \<open>write_ok\<close> (the socket and the number of
  earlier writes on it).
\<close>

subsection \<open>WebSocket writes\<close>

type_synonym ws_id = nat
type_synonym ws_log = "ws_id \<Rightarrow> (bytes \<times> bool) list"
type_synonym write_ok = "ws_id \<Rightarrow> nat \<Rightarrow> bool"

definition ws_WriteMessage :: "write_ok \<Rightarrow> ws_id \<Rightarrow> bytes \<Rightarrow> ws_log \<Rightarrow> bool \<times> ws_log" where
  "ws_WriteMessage wok ws data L =
     (let ok = wok ws (length (L ws)) in (ok, L(ws := L ws @ [(data, ok)])))"

text \<open>What the peer of a socket receives.\<close>

definition ws_received :: "ws_log \<Rightarrow> ws_id \<Rightarrow> bytes list" where
  "ws_received L ws = map fst (filter snd (L ws))"

subsection \<open>State and operations\<close>

type_synonym conn_ref = nat
type_synonym stream_ref = nat

record Stream =
  st_ID :: "32 word"
  st_TunnelID :: string
  st_Request :: "bytes list"
  st_Response :: "bytes list"
  st_Done :: bool

record ClientConn =
  cc_ConnID :: string
  cc_UserID :: string
  cc_WS :: ws_id
  cc_Tunnels :: "string list"
  cc_Streams :: "32 word \<rightharpoonup> stream_ref"
  cc_Done :: bool

record Broker =
  connections :: "string \<rightharpoonup> conn_ref"
  subdomainToConn :: "string \<rightharpoonup> string"
  nextStreamID :: "32 word"
  conn_heap :: "conn_ref \<rightharpoonup> ClientConn"
  stream_heap :: "stream_ref \<rightharpoonup> Stream"
  next_conn :: conn_ref
  next_stream :: stream_ref

definition NewBroker :: Broker where
  "NewBroker =
     \<lparr>connections = Map.empty, subdomainToConn = Map.empty, nextStreamID = 0,
      conn_heap = Map.empty, stream_heap = Map.empty, next_conn = 0, next_stream = 0\<rparr>"

definition br_AddConnection :: "Broker \<Rightarrow> string \<Rightarrow> string \<Rightarrow> ws_id \<Rightarrow> conn_ref \<times> Broker" where
  "br_AddConnection b connID userID ws =
     (let c = next_conn b;
          conn = \<lparr>cc_ConnID = connID, cc_UserID = userID, cc_WS = ws, cc_Tunnels = [],
                  cc_Streams = Map.empty, cc_Done = False\<rparr>
      in (c, b\<lparr>connections := (connections b)(connID \<mapsto> c),
               conn_heap := (conn_heap b)(c \<mapsto> conn), next_conn := Suc c\<rparr>))"

text \<open>The guarded \<open>close(s.Done)\<close>: a closed channel is left alone, so it is never closed twice.\<close>

definition close_done :: "Stream \<Rightarrow> Stream" where
  "close_done s = (if st_Done s then s else s\<lparr>st_Done := True\<rparr>)"

definition close_refs :: "stream_ref list \<Rightarrow> (stream_ref \<rightharpoonup> Stream) \<Rightarrow> (stream_ref \<rightharpoonup> Stream)" where
  "close_refs rs H = (\<lambda>r. if r \<in> set rs then map_option close_done (H r) else H r)"

definition br_RemoveConnection :: "32 word list \<Rightarrow> Broker \<Rightarrow> string \<Rightarrow> Broker" where
  "br_RemoveConnection order b connID =
     (case connections b connID of
        None \<Rightarrow> b
      | Some c \<Rightarrow>
          (let streams = (case conn_heap b c of None \<Rightarrow> Map.empty | Some conn \<Rightarrow> cc_Streams conn)
           in b\<lparr>subdomainToConn :=
                  (\<lambda>sub. if subdomainToConn b sub = Some connID then None else subdomainToConn b sub),
                stream_heap := close_refs (List.map_filter streams order) (stream_heap b),
                connections := (connections b)(connID := None)\<rparr>))"

definition br_MapSubdomain :: "Broker \<Rightarrow> string \<Rightarrow> string \<Rightarrow> Broker" where
  "br_MapSubdomain b subdomain connID =
     b\<lparr>subdomainToConn := (subdomainToConn b)(subdomain \<mapsto> connID)\<rparr>"

definition br_UnmapSubdomain :: "Broker \<Rightarrow> string \<Rightarrow> Broker" where
  "br_UnmapSubdomain b subdomain =
     b\<lparr>subdomainToConn := (subdomainToConn b)(subdomain := None)\<rparr>"

definition br_GetConnection :: "Broker \<Rightarrow> string \<Rightarrow> conn_ref option" where
  "br_GetConnection b connID = connections b connID"

definition br_GetConnectionBySubdomain :: "Broker \<Rightarrow> string \<Rightarrow> conn_ref option" where
  "br_GetConnectionBySubdomain b subdomain =
     (case subdomainToConn b subdomain of
        None \<Rightarrow> None
      | Some connID \<Rightarrow> connections b connID)"

text \<open>\<open>nextStreamID.Add(1)\<close> returns the incremented counter, modulo \<open>2 ^ 32\<close>.\<close>

definition br_OpenStream :: "Broker \<Rightarrow> conn_ref \<Rightarrow> string \<Rightarrow> stream_ref \<times> Broker" where
  "br_OpenStream b c tunnelID =
     (let i = nextStreamID b + 1;
          r = next_stream b;
          s = \<lparr>st_ID = i, st_TunnelID = tunnelID, st_Request = [], st_Response = [], st_Done = False\<rparr>
      in (r, b\<lparr>nextStreamID := i,
               stream_heap := (stream_heap b)(r \<mapsto> s), next_stream := Suc r,
               conn_heap := (conn_heap b)(c :=
                 map_option (\<lambda>conn. conn\<lparr>cc_Streams := (cc_Streams conn)(i \<mapsto> r)\<rparr>) (conn_heap b c))\<rparr>))"

definition br_CloseStream :: "Broker \<Rightarrow> conn_ref \<Rightarrow> 32 word \<Rightarrow> Broker" where
  "br_CloseStream b c streamID =
     (case conn_heap b c of
        None \<Rightarrow> b
      | Some conn \<Rightarrow>
          (case cc_Streams conn streamID of
             None \<Rightarrow> b
           | Some r \<Rightarrow>
               b\<lparr>stream_heap := close_refs [r] (stream_heap b),
                 conn_heap := (conn_heap b)(c \<mapsto>
                   conn\<lparr>cc_Streams := (cc_Streams conn)(streamID := None)\<rparr>)\<rparr>))"

definition br_SendMessage :: "write_ok \<Rightarrow> Broker \<Rightarrow> conn_ref \<Rightarrow> bytes \<Rightarrow> ws_log \<Rightarrow> bool \<times> ws_log" where
  "br_SendMessage wok b c data L =
     (case conn_heap b c of
        None \<Rightarrow> (False, L)
      | Some conn \<Rightarrow> ws_WriteMessage wok (cc_WS conn) data L)"

subsection \<open>Invariant\<close>

text \<open>The streams a connection still lists, and the ID of a stream.\<close>

definition open_on :: "Broker \<Rightarrow> conn_ref \<Rightarrow> 32 word \<Rightarrow> stream_ref option" where
  "open_on b c i = (case conn_heap b c of None \<Rightarrow> None | Some conn \<Rightarrow> cc_Streams conn i)"

definition stream_id :: "Broker \<Rightarrow> stream_ref \<Rightarrow> 32 word option" where
  "stream_id b r = map_option st_ID (stream_heap b r)"

definition conn_id :: "Broker \<Rightarrow> conn_ref \<Rightarrow> string option" where
  "conn_id b c = map_option cc_ConnID (conn_heap b c)"

text \<open>
  References point to allocated cells; an entry of \<open>connections\<close> is a connection with that ID; the
  stream a connection lists under an ID carries that ID, and no stream is listed twice.
\<close>

definition broker_inv :: "Broker \<Rightarrow> bool" where
  "broker_inv b \<longleftrightarrow>
     (\<forall>c. conn_id b c = None \<longleftrightarrow> next_conn b \<le> c) \<and>
     (\<forall>r. stream_id b r = None \<longleftrightarrow> next_stream b \<le> r) \<and>
     (\<forall>cid c. connections b cid = Some c \<longrightarrow> conn_id b c = Some cid) \<and>
     (\<forall>c i r. open_on b c i = Some r \<longrightarrow> stream_id b r = Some i) \<and>
     (\<forall>c i c' i' r. open_on b c i = Some r \<and> open_on b c' i' = Some r \<longrightarrow> c = c' \<and> i = i')"

lemma broker_invI:
  assumes "\<And>c. conn_id b c = None \<longleftrightarrow> next_conn b \<le> c"
    and "\<And>r. stream_id b r = None \<longleftrightarrow> next_stream b \<le> r"
    and "\<And>cid c. connections b cid = Some c \<Longrightarrow> conn_id b c = Some cid"
    and "\<And>c i r. open_on b c i = Some r \<Longrightarrow> stream_id b r = Some i"
    and "\<And>c i c' i' r. open_on b c i = Some r \<Longrightarrow> open_on b c' i' = Some r \<Longrightarrow> c = c' \<and> i = i'"
  shows "broker_inv b"
  unfolding broker_inv_def using assms by blast

lemma broker_invD:
  assumes "broker_inv b"
  shows "conn_id b c = None \<longleftrightarrow> next_conn b \<le> c"
    and "stream_id b r = None \<longleftrightarrow> next_stream b \<le> r"
    and "connections b cid = Some c \<Longrightarrow> conn_id b c = Some cid"
    and "open_on b c i = Some r \<Longrightarrow> stream_id b r = Some i"
    and "open_on b c i = Some r \<Longrightarrow> open_on b c' i' = Some r \<Longrightarrow> c = c' \<and> i = i'"
  using assms unfolding broker_inv_def by blast+

lemma st_ID_close_done [simp]: "st_ID (close_done s) = st_ID s"
  by (simp add: close_done_def)

lemma st_Done_close_done [simp]: "st_Done (close_done s)"
  by (simp add: close_done_def)

lemma st_Response_close_done [simp]: "st_Response (close_done s) = st_Response s"
  by (simp add: close_done_def)

lemma stream_id_close_refs: "map_option st_ID (close_refs rs H r) = map_option st_ID (H r)"
  by (simp add: close_refs_def option.map_comp o_def)

text \<open>What each operation does to the observations the invariant is about.\<close>

lemma Add_effect:
  assumes "br_AddConnection b cid u ws = (c, b')"
  shows "c = next_conn b" "next_conn b' = Suc (next_conn b)" "next_stream b' = next_stream b"
    "connections b' = (connections b)(cid \<mapsto> c)" "conn_id b' = (conn_id b)(c \<mapsto> cid)"
    "stream_id b' = stream_id b" "subdomainToConn b' = subdomainToConn b"
    "open_on b' d i = (if d = c then None else open_on b d i)" "nextStreamID b' = nextStreamID b"
  using assms
  by (auto simp: br_AddConnection_def Let_def conn_id_def stream_id_def open_on_def fun_eq_iff)

lemma Remove_effect:
  "next_conn (br_RemoveConnection order b cid) = next_conn b"
  "next_stream (br_RemoveConnection order b cid) = next_stream b"
  "connections (br_RemoveConnection order b cid) = (connections b)(cid := None)"
  "conn_id (br_RemoveConnection order b cid) = conn_id b"
  "stream_id (br_RemoveConnection order b cid) = stream_id b"
  "open_on (br_RemoveConnection order b cid) = open_on b"
  "nextStreamID (br_RemoveConnection order b cid) = nextStreamID b"
  by (cases "connections b cid";
      simp add: br_RemoveConnection_def Let_def conn_id_def stream_id_def open_on_def
        stream_id_close_refs fun_eq_iff)+

lemma Open_effect:
  assumes "br_OpenStream b c tid = (r, b')"
  shows "r = next_stream b" "next_conn b' = next_conn b" "next_stream b' = Suc r"
    "connections b' = connections b" "conn_id b' = conn_id b" "subdomainToConn b' = subdomainToConn b"
    "nextStreamID b' = nextStreamID b + 1" "stream_id b' = (stream_id b)(r \<mapsto> nextStreamID b + 1)"
    "open_on b' d i =
      (if d = c \<and> i = nextStreamID b + 1 \<and> conn_id b c \<noteq> None then Some r else open_on b d i)"
proof -
  show "r = next_stream b" "next_conn b' = next_conn b" "next_stream b' = Suc r"
    "connections b' = connections b" "conn_id b' = conn_id b" "subdomainToConn b' = subdomainToConn b"
    "nextStreamID b' = nextStreamID b + 1" "stream_id b' = (stream_id b)(r \<mapsto> nextStreamID b + 1)"
    using assms
    by (auto simp: br_OpenStream_def Let_def conn_id_def stream_id_def fun_eq_iff option.map_comp o_def)
  show "open_on b' d i =
      (if d = c \<and> i = nextStreamID b + 1 \<and> conn_id b c \<noteq> None then Some r else open_on b d i)"
    using assms by (cases "conn_heap b c"; cases "d = c")
      (auto simp: br_OpenStream_def Let_def conn_id_def open_on_def)
qed

lemma Close_effect:
  "next_conn (br_CloseStream b c k) = next_conn b"
  "next_stream (br_CloseStream b c k) = next_stream b"
  "connections (br_CloseStream b c k) = connections b"
  "conn_id (br_CloseStream b c k) = conn_id b"
  "stream_id (br_CloseStream b c k) = stream_id b"
  "subdomainToConn (br_CloseStream b c k) = subdomainToConn b"
  "nextStreamID (br_CloseStream b c k) = nextStreamID b"
  "open_on (br_CloseStream b c k) d i = (if d = c \<and> i = k then None else open_on b d i)"
  by (auto simp: br_CloseStream_def conn_id_def stream_id_def open_on_def stream_id_close_refs
      fun_eq_iff split: option.splits)

lemma Map_effect:
  "next_conn (br_MapSubdomain b sub cid) = next_conn b"
  "next_stream (br_MapSubdomain b sub cid) = next_stream b"
  "connections (br_MapSubdomain b sub cid) = connections b"
  "conn_id (br_MapSubdomain b sub cid) = conn_id b"
  "stream_id (br_MapSubdomain b sub cid) = stream_id b"
  "open_on (br_MapSubdomain b sub cid) = open_on b"
  "nextStreamID (br_MapSubdomain b sub cid) = nextStreamID b"
  "subdomainToConn (br_MapSubdomain b sub cid) = (subdomainToConn b)(sub \<mapsto> cid)"
  by (simp_all add: br_MapSubdomain_def conn_id_def stream_id_def open_on_def fun_eq_iff)

lemma Unmap_effect:
  "next_conn (br_UnmapSubdomain b sub) = next_conn b"
  "next_stream (br_UnmapSubdomain b sub) = next_stream b"
  "connections (br_UnmapSubdomain b sub) = connections b"
  "conn_id (br_UnmapSubdomain b sub) = conn_id b"
  "stream_id (br_UnmapSubdomain b sub) = stream_id b"
  "open_on (br_UnmapSubdomain b sub) = open_on b"
  "nextStreamID (br_UnmapSubdomain b sub) = nextStreamID b"
  "subdomainToConn (br_UnmapSubdomain b sub) = (subdomainToConn b)(sub := None)"
  by (simp_all add: br_UnmapSubdomain_def conn_id_def stream_id_def open_on_def fun_eq_iff)

lemma broker_inv_New [inv_intros]: "broker_inv NewBroker"
  by (simp add: broker_inv_def NewBroker_def conn_id_def stream_id_def open_on_def)

lemma broker_inv_Map [inv_intros]: "broker_inv b \<Longrightarrow> broker_inv (br_MapSubdomain b sub cid)"
  by (simp add: broker_inv_def Map_effect)

lemma broker_inv_Unmap [inv_intros]: "broker_inv b \<Longrightarrow> broker_inv (br_UnmapSubdomain b sub)"
  by (simp add: broker_inv_def Unmap_effect)

lemma broker_inv_Remove [inv_intros]: "broker_inv b \<Longrightarrow> broker_inv (br_RemoveConnection order b cid)"
  unfolding broker_inv_def Remove_effect by (auto simp: fun_upd_apply split: if_splits)

lemma broker_inv_Close [inv_intros]:
  assumes "broker_inv b"
  shows "broker_inv (br_CloseStream b c k)"
proof (rule broker_invI)
  fix d i d' i' r
  show "d = d' \<and> i = i'"
    if "open_on (br_CloseStream b c k) d i = Some r" "open_on (br_CloseStream b c k) d' i' = Some r"
    using that broker_invD(5) [OF assms] by (auto simp: Close_effect split: if_splits)
qed (use broker_invD(1-4) [OF assms] in \<open>auto simp: Close_effect split: if_splits\<close>)

lemma broker_inv_Add [inv_intros]:
  assumes "broker_inv b"
  shows "broker_inv (snd (br_AddConnection b cid u ws))"
proof (cases "br_AddConnection b cid u ws")
  case (Pair c b')
  note eff = Add_effect [OF Pair]
  have "broker_inv b'"
  proof (rule broker_invI)
    fix d i d' i' r
    show "d = d' \<and> i = i'" if "open_on b' d i = Some r" "open_on b' d' i' = Some r"
      using that broker_invD(5) [OF assms] by (auto simp: eff(8) split: if_splits)
  next
    fix x d assume "connections b' x = Some d"
    moreover have "conn_id b c = None" using broker_invD(1) [OF assms, of c] eff(1) by simp
    ultimately show "conn_id b' d = Some x"
      using broker_invD(3) [OF assms, of x d] by (auto simp: eff(4,5) split: if_splits)
  qed (use broker_invD(1,2,4) [OF assms] eff in \<open>auto split: if_splits\<close>)
  with Pair show ?thesis by simp
qed

lemma broker_inv_Open [inv_intros]:
  assumes "broker_inv b"
  shows "broker_inv (snd (br_OpenStream b c tid))"
proof (cases "br_OpenStream b c tid")
  case (Pair r b')
  note eff = Open_effect [OF Pair]
  have fresh: "open_on b d i \<noteq> Some r" for d i
  proof
    assume "open_on b d i = Some r"
    then have "stream_id b r = Some i" by (rule broker_invD(4) [OF assms])
    with broker_invD(2) [OF assms, of r] eff(1) show False by simp
  qed
  have "broker_inv b'"
  proof (rule broker_invI)
    fix d i d' i' q
    show "d = d' \<and> i = i'" if "open_on b' d i = Some q" "open_on b' d' i' = Some q"
      using that broker_invD(5) [OF assms] fresh by (auto simp: eff(9) split: if_splits)
  next
    fix d i q assume "open_on b' d i = Some q"
    then show "stream_id b' q = Some i"
      using broker_invD(4) [OF assms] fresh by (auto simp: eff(8,9) split: if_splits)
  qed (use broker_invD(1-3) [OF assms] eff in auto)
  with Pair show ?thesis by simp
qed

subsection \<open>The table of open streams\<close>

text \<open>
  What the handlers of the gateway rely on when they use a stream: opening lists the new stream under
  its own ID and leaves all others, closing takes exactly one entry out.
\<close>

locale stream_table =
  fixes listed :: "'b \<Rightarrow> 'c \<Rightarrow> 'i \<Rightarrow> 'r option" and id_of :: "'b \<Rightarrow> 'r \<Rightarrow> 'i option"
    and opn :: "'b \<Rightarrow> 'c \<Rightarrow> string \<Rightarrow> 'r \<times> 'b" and cls :: "'b \<Rightarrow> 'c \<Rightarrow> 'i \<Rightarrow> 'b"
  assumes opn_id: "opn b c t = (r, b') \<Longrightarrow> id_of b' r \<noteq> None"
    and opn_other: "opn b c t = (r, b') \<Longrightarrow> id_of b' r = Some i \<Longrightarrow> \<not> (d = c \<and> j = i) \<Longrightarrow>
      listed b' d j = listed b d j"
    and cls_listed: "listed (cls b c i) d j = (if d = c \<and> j = i then None else listed b d j)"
    and cls_id: "id_of (cls b c i) = id_of b"
begin

text \<open>A handler that opens a stream and closes it again leaves the other streams as they were.\<close>

lemma opn_cls:
  assumes "opn b c t = (r, b')" "id_of b' r = Some i"
  shows "listed (cls b' c i) d j = (if d = c \<and> j = i then None else listed b d j)"
  using opn_other [OF assms] by (simp add: cls_listed)

lemma opn_cls_no_leak:
  assumes "opn b c t = (r, b')" "id_of b' r = Some i" "listed (cls b' c i) d j = Some q"
  shows "listed b d j = Some q"
  using assms(3) by (simp add: opn_cls [OF assms(1,2)] split: if_splits)

lemma cls_twice: "listed (cls (cls b c i) c i) = listed (cls b c i)"
  by (simp add: cls_listed fun_eq_iff)

end

interpretation streams: stream_table open_on stream_id br_OpenStream br_CloseStream
  by unfold_locales (auto simp: Open_effect Close_effect)

subsection \<open>Sequences of calls\<close>

datatype broker_op =
  AddOp string string ws_id | RemoveOp "32 word list" string | MapOp string string | UnmapOp string
| OpenOp conn_ref string | CloseOp conn_ref "32 word"

fun broker_exec :: "Broker \<Rightarrow> broker_op \<Rightarrow> Broker" where
  "broker_exec b (AddOp cid u ws) = snd (br_AddConnection b cid u ws)"
| "broker_exec b (RemoveOp order cid) = br_RemoveConnection order b cid"
| "broker_exec b (MapOp sub cid) = br_MapSubdomain b sub cid"
| "broker_exec b (UnmapOp sub) = br_UnmapSubdomain b sub"
| "broker_exec b (OpenOp c tid) = snd (br_OpenStream b c tid)"
| "broker_exec b (CloseOp c i) = br_CloseStream b c i"

definition broker_run :: "Broker \<Rightarrow> broker_op list \<Rightarrow> Broker" where
  "broker_run b ops = foldl broker_exec b ops"

definition opens :: "broker_op list \<Rightarrow> nat" where
  "opens ops = length (filter (\<lambda>e. case e of OpenOp c t \<Rightarrow> True | _ \<Rightarrow> False) ops)"

lemma broker_inv_exec: "broker_inv b \<Longrightarrow> broker_inv (broker_exec b e)"
  by (cases e) (auto intro: inv_intros)

lemma broker_inv_run: "broker_inv b \<Longrightarrow> broker_inv (broker_run b ops)"
  unfolding broker_run_def by (induction ops arbitrary: b) (simp_all add: broker_inv_exec)

text \<open>
  The counter after \<open>n\<close> opened streams is \<open>n\<close> modulo \<open>2 ^ 32\<close>, and every listed stream carries the
  number of an earlier \<open>OpenStream\<close>.
\<close>

definition ids_upto :: "Broker \<Rightarrow> nat \<Rightarrow> bool" where
  "ids_upto b n \<longleftrightarrow>
     nextStreamID b = word_of_nat n \<and>
     (\<forall>c i r. open_on b c i = Some r \<longrightarrow> (\<exists>k. 0 < k \<and> k \<le> n \<and> i = word_of_nat k))"

lemma ids_upto_exec:
  assumes "ids_upto b n"
  shows "ids_upto (broker_exec b e) (n + opens [e])"
proof (cases e)
  case (OpenOp c tid)
  obtain r b' where o: "br_OpenStream b c tid = (r, b')" by (metis surj_pair)
  note eff = Open_effect [OF o]
  have next': "nextStreamID b' = word_of_nat (Suc n)" using assms eff(7) by (simp add: ids_upto_def)
  have "\<exists>k. 0 < k \<and> k \<le> Suc n \<and> i = word_of_nat k" if "open_on b' d i = Some q" for d i q
  proof (cases "open_on b d i = Some q")
    case True
    then show ?thesis using assms by (auto simp: ids_upto_def) (metis le_Suc_eq)
  next
    case False
    with that have "i = nextStreamID b'" by (auto simp: eff split: if_splits)
    with next' show ?thesis by auto
  qed
  with OpenOp o next' show ?thesis by (auto simp: ids_upto_def opens_def)
next
  case (AddOp cid u ws)
  obtain c b' where o: "br_AddConnection b cid u ws = (c, b')" by (metis surj_pair)
  with AddOp assms show ?thesis
    by (auto simp: ids_upto_def opens_def Add_effect [OF o] split: if_splits)
qed (use assms in \<open>auto simp: ids_upto_def opens_def Remove_effect Map_effect Unmap_effect Close_effect
        split: if_splits\<close>)

lemma ids_upto_run: "ids_upto b n \<Longrightarrow> ids_upto (broker_run b ops) (n + opens ops)"
proof (induction ops arbitrary: b n)
  case Nil
  then show ?case by (simp add: broker_run_def opens_def)
next
  case (Cons e ops)
  have split: "opens (e # ops) = opens [e] + opens ops" by (simp add: opens_def)
  from Cons.IH [OF ids_upto_exec [OF Cons.prems, of e]] show ?case
    by (simp add: broker_run_def split add.assoc)
qed

lemma ids_upto_New: "ids_upto NewBroker 0"
  by (simp add: ids_upto_def NewBroker_def open_on_def)

subsection \<open>An example state\<close>

text \<open>One connection with one open stream, mapped under one subdomain.\<close>

definition ex_broker :: Broker where
  "ex_broker = broker_run NewBroker [AddOp ''c1'' ''user1'' 7, MapOp ''app'' ''c1'', OpenOp 0 ''c1-app'']"

lemmas broker_eval =
  broker_run_def br_AddConnection_def br_MapSubdomain_def br_OpenStream_def NewBroker_def Let_def

lemma ex_broker_inv: "broker_inv ex_broker"
  unfolding ex_broker_def by (intro broker_inv_run broker_inv_New)

lemma ex_broker_conn: "connections ex_broker ''c1'' = Some 0"
  by (simp add: ex_broker_def broker_eval)

lemma ex_broker_open: "open_on ex_broker 0 = [1 \<mapsto> 0]"
  by (simp add: ex_broker_def broker_eval open_on_def fun_eq_iff)

subsection \<open>Properties\<close>

lemma word_of_nat_eq_bounded:
  "(word_of_nat a :: 32 word) = word_of_nat b \<Longrightarrow> a < 2 ^ 32 \<Longrightarrow> b < 2 ^ 32 \<Longrightarrow> a = b"
  by (simp add: word_of_nat_eq_iff take_bit_nat_eq_self)

lemma GetConnectionBySubdomain_Map:
  "br_GetConnectionBySubdomain (br_MapSubdomain b sub cid) sub' =
     (if sub' = sub then connections b cid else br_GetConnectionBySubdomain b sub')"
  by (simp add: br_GetConnectionBySubdomain_def br_MapSubdomain_def split: option.split)

lemma GetConnectionBySubdomain_Unmap:
  "br_GetConnectionBySubdomain (br_UnmapSubdomain b sub) sub' =
     (if sub' = sub then None else br_GetConnectionBySubdomain b sub')"
  by (simp add: br_GetConnectionBySubdomain_def br_UnmapSubdomain_def split: option.split)

lemma GetConnectionBySubdomain_Remove:
  "br_GetConnectionBySubdomain (br_RemoveConnection order b cid) sub =
     (if subdomainToConn b sub = Some cid then None else br_GetConnectionBySubdomain b sub)"
  by (cases "connections b cid")
    (auto simp: br_GetConnectionBySubdomain_def br_RemoveConnection_def Let_def split: option.splits)

text \<open>A closed \<open>Done\<close> channel stays closed, whatever the broker does.\<close>

definition stream_done :: "Broker \<Rightarrow> stream_ref \<Rightarrow> bool" where
  "stream_done b r \<longleftrightarrow> (\<exists>s. stream_heap b r = Some s \<and> st_Done s)"

lemma stream_done_close_refs:
  "(\<exists>s. H r = Some s \<and> st_Done s) \<Longrightarrow> (\<exists>s. close_refs rs H r = Some s \<and> st_Done s)"
  by (auto simp: close_refs_def)

lemma stream_done_exec:
  assumes "broker_inv b" "stream_done b r"
  shows "stream_done (broker_exec b e) r"
proof (cases e)
  case (OpenOp c tid)
  have "r \<noteq> next_stream b"
    using assms broker_invD(2) [OF assms(1), of r] by (auto simp: stream_done_def stream_id_def)
  with assms(2) OpenOp show ?thesis by (simp add: stream_done_def br_OpenStream_def Let_def)
next
  case (RemoveOp order cid)
  with assms(2) show ?thesis
    by (auto simp: stream_done_def br_RemoveConnection_def Let_def stream_done_close_refs
        split: option.splits)
next
  case (CloseOp c i)
  with assms(2) show ?thesis
    by (auto simp: stream_done_def br_CloseStream_def stream_done_close_refs split: option.splits)
qed (use assms(2) in \<open>simp_all add: stream_done_def br_AddConnection_def Let_def br_MapSubdomain_def
       br_UnmapSubdomain_def\<close>)

lemma stream_done_run: "broker_inv b \<Longrightarrow> stream_done b r \<Longrightarrow> stream_done (broker_run b ops) r"
  unfolding broker_run_def
  by (induction ops arbitrary: b) (simp_all add: stream_done_exec broker_inv_exec)

lemma close_refs_done: "r \<in> set rs \<Longrightarrow> H r = Some s \<Longrightarrow> \<exists>s'. close_refs rs H r = Some s' \<and> st_Done s'"
  by (simp add: close_refs_def)

lemma in_map_filter: "m k = Some v \<Longrightarrow> k \<in> set ks \<Longrightarrow> v \<in> set (List.map_filter m ks)"
  by (force simp: List.map_filter_def)

text \<open>C22. As long as fewer than \<open>2 ^ 32 - 1\<close> streams have been opened, a new stream gets an ID that no
  connection lists, so opening a stream never replaces another; the ID is the number of the call.\<close>

theorem OpenStream_fresh_id:
  assumes "opens ops + 1 < 2 ^ 32"
    and "br_OpenStream (broker_run NewBroker ops) c tid = (r, b')"
  shows "stream_id b' r = Some (word_of_nat (opens ops + 1)) \<and>
    (\<forall>d. open_on (broker_run NewBroker ops) d (word_of_nat (opens ops + 1)) = None)"
proof -
  let ?b = "broker_run NewBroker ops" and ?n = "opens ops"
  have ids: "ids_upto ?b ?n" using ids_upto_run [OF ids_upto_New, of ops] by simp
  have "open_on ?b d (word_of_nat (?n + 1)) \<noteq> Some q" for d q
  proof
    assume "open_on ?b d (word_of_nat (?n + 1)) = Some q"
    with ids obtain k where "0 < k" "k \<le> ?n" "(word_of_nat (?n + 1) :: 32 word) = word_of_nat k"
      by (auto simp: ids_upto_def simp del: of_nat_add of_nat_Suc)
    with assms(1) word_of_nat_eq_bounded [of "?n + 1" k] show False by simp
  qed
  moreover have "stream_id b' r = Some (word_of_nat (?n + 1))"
    using Open_effect(8) [OF assms(2)] ids by (simp add: ids_upto_def add.commute)
  ultimately show ?thesis by (metis not_Some_eq)
qed

theorem OpenStream_fresh_id_witness:
  "\<exists>r b'. br_OpenStream ex_broker 0 ''c1-app'' = (r, b') \<and> stream_id b' r = Some 2"
proof -
  obtain r b' where o: "br_OpenStream ex_broker 0 ''c1-app'' = (r, b')" by (metis surj_pair)
  have n: "opens [AddOp ''c1'' ''user1'' 7, MapOp ''app'' ''c1'', OpenOp 0 ''c1-app''] = 1"
    by (simp add: opens_def)
  from OpenStream_fresh_id [OF _ o [unfolded ex_broker_def]] n o show ?thesis by auto
qed

lemma RemoveConnection_closes:
  assumes "broker_inv b" "connections b cid = Some c" "range_order order (open_on b c)" "open_on b c i = Some r"
  shows "stream_done (broker_run (br_RemoveConnection order b cid) ops) r"
proof -
  obtain conn where conn: "conn_heap b c = Some conn" "cc_Streams conn i = Some r"
    using assms(4) by (auto simp: open_on_def split: option.splits)
  have "open_on b c = cc_Streams conn" using conn(1) by (simp add: open_on_def fun_eq_iff)
  with assms(3) conn(2) have "r \<in> set (List.map_filter (cc_Streams conn) order)"
    by (intro in_map_filter [where k = i]) (auto simp: range_order_def)
  moreover obtain s where "stream_heap b r = Some s"
    using broker_invD(4) [OF assms(1,4)] by (auto simp: stream_id_def)
  ultimately have "stream_done (br_RemoveConnection order b cid) r"
    using assms(2) conn(1) by (simp add: stream_done_def br_RemoveConnection_def Let_def close_refs_done)
  then show ?thesis
    using assms(1) by (intro stream_done_run) (simp_all add: broker_inv_Remove)
qed

text \<open>C21. Removing a connection ends everything that runs on it, whether or not it has streams: every
  other ID resolves as before and its own no longer does; every subdomain mapped to it no longer
  resolves and the other subdomains resolve as before; and the \<open>Done\<close> channel of every stream the
  connection found under the ID lists is closed and stays closed whatever the broker does next (the
  loop over the streams visits each of them, in any order).\<close>

theorem RemoveConnection_ends_streams:
  assumes "broker_inv b"
  shows "br_GetConnection (br_RemoveConnection order b cid) x =
      (if x = cid then None else br_GetConnection b x) \<and>
    br_GetConnectionBySubdomain (br_RemoveConnection order b cid) sub =
      (if subdomainToConn b sub = Some cid then None else br_GetConnectionBySubdomain b sub) \<and>
    (\<forall>c i r. connections b cid = Some c \<longrightarrow> range_order order (open_on b c) \<longrightarrow> open_on b c i = Some r \<longrightarrow>
       stream_done (broker_run (br_RemoveConnection order b cid) ops) r)"
  using RemoveConnection_closes [OF assms]
  by (auto simp: br_GetConnection_def Remove_effect GetConnectionBySubdomain_Remove)

theorem RemoveConnection_ends_streams_witness:
  "stream_done (broker_run (br_RemoveConnection [1] ex_broker ''c1'') [OpenOp 0 ''c1-app'']) 0 \<and>
   br_GetConnection (br_RemoveConnection [1] ex_broker ''c1'') ''c1'' = None \<and>
   br_GetConnectionBySubdomain (br_RemoveConnection [1] ex_broker ''c1'') ''app'' = None"
proof -
  have o: "open_on ex_broker 0 1 = Some 0" by (simp add: ex_broker_open)
  have r: "range_order [1] (open_on ex_broker 0)" by (simp add: range_order_def ex_broker_open)
  have "subdomainToConn ex_broker ''app'' = Some ''c1''" by (simp add: ex_broker_def broker_eval)
  with RemoveConnection_ends_streams [OF ex_broker_inv, of "[1]" "''c1''" "''c1''" "''app''" "[OpenOp 0 ''c1-app'']"]
    ex_broker_conn o r
  show ?thesis by simp
qed

text \<open>A stream opened on a connection that has already been removed is not closed by anyone but
  its own handler: the removal has run, the connection still lists the stream, and its \<open>Done\<close>
  channel is open.\<close>

theorem OpenStream_after_RemoveConnection:
  assumes "broker_inv b" "connections b cid = Some c"
    and "br_OpenStream (br_RemoveConnection order b cid) c tid = (r, b')"
  shows "br_GetConnection b' cid = None \<and> \<not> stream_done b' r \<and>
    open_on b' c (nextStreamID b + 1) = Some r"
proof -
  let ?b = "br_RemoveConnection order b cid"
  note eff = Open_effect [OF assms(3)]
  have "conn_id ?b c \<noteq> None" using broker_invD(3) [OF assms(1,2)] by (simp add: Remove_effect)
  then have "open_on b' c (nextStreamID b + 1) = Some r" by (simp add: eff(9) Remove_effect)
  moreover have "\<not> stream_done b' r"
    using assms(3) by (auto simp: br_OpenStream_def Let_def stream_done_def)
  ultimately show ?thesis by (simp add: br_GetConnection_def eff(4) Remove_effect)
qed

theorem OpenStream_after_RemoveConnection_witness:
  "\<exists>r b'. br_OpenStream (br_RemoveConnection [1] ex_broker ''c1'') 0 ''c1-app'' = (r, b') \<and>
     br_GetConnection b' ''c1'' = None \<and> \<not> stream_done b' r"
proof -
  obtain r b' where o: "br_OpenStream (br_RemoveConnection [1] ex_broker ''c1'') 0 ''c1-app'' = (r, b')"
    by (metis surj_pair)
  with OpenStream_after_RemoveConnection [OF ex_broker_inv ex_broker_conn o] show ?thesis by blast
qed

end
