(* ===== verification/Metrics.thy ===== *)
theory Metrics
  imports Go_Strings
begin

text \<open>
  \<open>internal/metrics/metrics.go\<close>. The Prometheus client is third-party code, so the state of a
  \<open>Metrics\<close> value is the sequence of calls made to it, oldest first. A \<open>float64\<close> argument is an
  integer here: the callers pass lengths of byte slices. \<open>active_tunnels\<close> is what
  the calls add to the gauge of active tunnels.
\<close>

datatype gauge = ActiveTunnels | StreamsActive

datatype counter = BytesSent | BytesRecv | Requests string string | TokenAuthFailures | Reconnects

datatype prom_call =
  MustRegister "string list"
| GaugeInc gauge | GaugeDec gauge | GaugeSet gauge int
| CounterInc counter | CounterAdd counter int

record Metrics =
  mt_calls :: "prom_call list"

definition prom :: "prom_call \<Rightarrow> Metrics \<Rightarrow> Metrics" where
  "prom c m = m\<lparr>mt_calls := mt_calls m @ [c]\<rparr>"

definition mt_Register :: "Metrics \<Rightarrow> Metrics" where
  "mt_Register m =
     prom (MustRegister
       [''gotunnel_active_tunnels_total'', ''gotunnel_streams_active'', ''gotunnel_bytes_sent_total'',
        ''gotunnel_bytes_recv_total'', ''gotunnel_requests_total'',
        ''gotunnel_token_auth_failures_total'', ''gotunnel_reconnects_total'']) m"

definition NewMetrics :: Metrics where
  "NewMetrics = mt_Register \<lparr>mt_calls = []\<rparr>"

definition IncActiveTunnels :: "Metrics \<Rightarrow> Metrics" where
  "IncActiveTunnels m = prom (GaugeInc ActiveTunnels) m"

definition DecActiveTunnels :: "Metrics \<Rightarrow> Metrics" where
  "DecActiveTunnels m = prom (GaugeDec ActiveTunnels) m"

definition SetActiveTunnels :: "int \<Rightarrow> Metrics \<Rightarrow> Metrics" where
  "SetActiveTunnels v m = prom (GaugeSet ActiveTunnels v) m"

definition IncStreamsActive :: "Metrics \<Rightarrow> Metrics" where
  "IncStreamsActive m = prom (GaugeInc StreamsActive) m"

definition DecStreamsActive :: "Metrics \<Rightarrow> Metrics" where
  "DecStreamsActive m = prom (GaugeDec StreamsActive) m"

definition SetStreamsActive :: "int \<Rightarrow> Metrics \<Rightarrow> Metrics" where
  "SetStreamsActive v m = prom (GaugeSet StreamsActive v) m"

definition AddBytesSent :: "nat \<Rightarrow> Metrics \<Rightarrow> Metrics" where
  "AddBytesSent n m = prom (CounterAdd BytesSent (int n)) m"

definition AddBytesRecv :: "nat \<Rightarrow> Metrics \<Rightarrow> Metrics" where
  "AddBytesRecv n m = prom (CounterAdd BytesRecv (int n)) m"

definition IncRequests :: "string \<Rightarrow> string \<Rightarrow> Metrics \<Rightarrow> Metrics" where
  "IncRequests code meth m = prom (CounterInc (Requests code meth)) m"

definition IncTokenAuthFailures :: "Metrics \<Rightarrow> Metrics" where
  "IncTokenAuthFailures m = prom (CounterInc TokenAuthFailures) m"

definition IncReconnects :: "Metrics \<Rightarrow> Metrics" where
  "IncReconnects m = prom (CounterInc Reconnects) m"

lemmas metric_ops =
  IncActiveTunnels_def DecActiveTunnels_def AddBytesSent_def AddBytesRecv_def IncRequests_def
  IncTokenAuthFailures_def prom_def

text \<open>What the calls add to the gauge \<open>ActiveTunnels\<close>, and the requests counted for a method.\<close>

fun active_delta :: "prom_call \<Rightarrow> int" where
  "active_delta (GaugeInc ActiveTunnels) = 1"
| "active_delta (GaugeDec ActiveTunnels) = - 1"
| "active_delta _ = 0"

definition active_tunnels :: "Metrics \<Rightarrow> int" where
  "active_tunnels m = sum_list (map active_delta (mt_calls m))"

definition request_codes :: "Metrics \<Rightarrow> string list" where
  "request_codes m =
     concat (map (\<lambda>c. case c of CounterInc (Requests code meth) \<Rightarrow> [code] | _ \<Rightarrow> []) (mt_calls m))"

lemma active_tunnels_ops [simp]:
  "active_tunnels (IncActiveTunnels m) = active_tunnels m + 1"
  "active_tunnels (DecActiveTunnels m) = active_tunnels m - 1"
  "active_tunnels (AddBytesSent n m) = active_tunnels m"
  "active_tunnels (AddBytesRecv n m) = active_tunnels m"
  "active_tunnels (IncRequests c h m) = active_tunnels m"
  "active_tunnels (IncTokenAuthFailures m) = active_tunnels m"
  "active_tunnels NewMetrics = 0"
  by (simp_all add: active_tunnels_def metric_ops NewMetrics_def mt_Register_def)

lemma request_codes_ops [simp]:
  "request_codes (IncRequests c h m) = request_codes m @ [c]"
  "request_codes (AddBytesSent n m) = request_codes m"
  "request_codes (AddBytesRecv n m) = request_codes m"
  "request_codes (IncActiveTunnels m) = request_codes m"
  "request_codes (DecActiveTunnels m) = request_codes m"
  by (simp_all add: request_codes_def metric_ops)

end
