(* ===== verification/Utf8.thy ===== *)
theory Utf8
  imports Go_Strings
begin

text \<open>
  UTF-8 as Go's \<open>unicode/utf8\<close> reads it: \<open>rune_len s\<close> is the number of bytes of the rune at the front
  of \<open>s\<close>, 0 when those bytes are not a well-formed encoding; \<open>utf8_encode\<close> writes a code point.
\<close>

abbreviation byte_in :: "char \<Rightarrow> nat \<Rightarrow> nat \<Rightarrow> bool" where
  "byte_in c lo hi \<equiv> lo \<le> (of_char c :: nat) \<and> (of_char c :: nat) \<le> hi"

text \<open>The first byte fixes the length and the range of the second byte.\<close>

definition second_range :: "char \<Rightarrow> nat \<times> nat" where
  "second_range c =
     (let b = of_char c :: nat
      in if b = 224 then (160, 191) else if b = 237 then (128, 159)
         else if b = 240 then (144, 191) else if b = 244 then (128, 143) else (128, 191))"

definition rune_size :: "char \<Rightarrow> nat" where
  "rune_size c =
     (if byte_in c 0 127 then 1 else if byte_in c 194 223 then 2
      else if byte_in c 224 239 then 3 else if byte_in c 240 244 then 4 else 0)"

fun rune_tail_ok :: "char \<Rightarrow> string \<Rightarrow> bool" where
  "rune_tail_ok c [] \<longleftrightarrow> True"
| "rune_tail_ok c (d # ds) \<longleftrightarrow>
     byte_in d (fst (second_range c)) (snd (second_range c)) \<and> list_all (\<lambda>x. byte_in x 128 191) ds"

definition rune_len :: "string \<Rightarrow> nat" where
  "rune_len s =
     (case s of
        [] \<Rightarrow> 0
      | c # cs \<Rightarrow>
          (let n = rune_size c
           in if n = 0 \<or> length cs < n - 1 \<or> \<not> rune_tail_ok c (take (n - 1) cs) then 0 else n))"

function valid_utf8 :: "string \<Rightarrow> bool" where
  "valid_utf8 s =
     (if s = [] then True
      else if rune_len s = 0 then False else valid_utf8 (drop (rune_len s) s))"
  by pat_completeness auto
termination
  by (relation "measure length") auto

declare valid_utf8.simps [simp del]

lemma valid_utf8_Nil [simp]: "valid_utf8 []"
  by (subst valid_utf8.simps) simp

lemma rune_len_le: "rune_len s \<le> length s"
  by (auto simp: rune_len_def Let_def split: list.splits)

lemma rune_len_take:
  assumes "rune_len s = n" "0 < n"
  shows "rune_len (take n s @ t) = n"
proof (cases s)
  case (Cons c cs)
  with assms have n: "rune_size c = n" "n - 1 \<le> length cs" "rune_tail_ok c (take (n - 1) cs)"
    by (auto simp: rune_len_def Let_def split: if_splits)
  obtain k where k: "n = Suc k" using assms(2) by (cases n) auto
  with n Cons show ?thesis by (simp add: rune_len_def Let_def)
qed (use assms in \<open>simp add: rune_len_def\<close>)

lemma rune_len_ascii: "byte_in c 0 127 \<Longrightarrow> rune_len (c # s) = 1"
  by (simp add: rune_len_def rune_size_def)

lemma rune_len_bytes:
  assumes "128 \<le> (of_char c :: nat)" "rune_len (c # s) = n" "x \<in> set (take n (c # s))"
  shows "128 \<le> (of_char x :: nat)"
proof (cases "x = c")
  case False
  have n: "n = 0 \<or> n = rune_size c \<and> rune_tail_ok c (take (n - 1) s)"
    using assms(2) by (auto simp: rune_len_def Let_def split: if_splits)
  have lo: "128 \<le> fst (second_range c)" by (simp add: second_range_def Let_def)
  have "x \<in> set (take (n - 1) s)" using assms(3) False by (cases n) auto
  with n lo show ?thesis by (cases "take (n - 1) s") (auto simp: list_all_iff)
qed (use assms in simp)

lemma valid_utf8_Cons_ascii: "byte_in c 0 127 \<Longrightarrow> valid_utf8 (c # s) = valid_utf8 s"
  by (subst valid_utf8.simps) (simp add: rune_len_ascii)

lemma valid_utf8_ascii: "is_ascii s \<Longrightarrow> valid_utf8 s"
  by (induction s) (simp_all add: is_ascii_def valid_utf8_Cons_ascii)

definition utf8_encode :: "nat \<Rightarrow> string" where
  "utf8_encode r =
     byte_string
       (if r < 128 then [r]
        else if r < 2048 then [192 + r div 64, 128 + r mod 64]
        else if r < 65536 then [224 + r div 4096, 128 + r div 64 mod 64, 128 + r mod 64]
        else [240 + r div 262144, 128 + r div 4096 mod 64, 128 + r div 64 mod 64, 128 + r mod 64])"

definition replacement :: string where
  "replacement = byte_string [239, 191, 189]"

end
