(* ===== verification/Json.thy ===== *)
theory Json
  imports Utf8
begin

text \<open>
  The part of Go's \<open>encoding/json\<close> the sources rely on: the text the encoder writes for a value and
  the parser that reads it back. A string is escaped as \<open>json.Marshal\<close> does (HTML characters,
  control characters, U+2028, U+2029 and bytes that are not UTF-8), and read as \<open>json.Unmarshal\<close>
  does (escapes, surrogate pairs, replacement characters). A number keeps its literal. The parser
  refuses values nested more than 10000 deep. Its recursion is bounded by the length of the input,
  which is enough (\<open>parse_fuel\<close>).
\<close>

datatype json =
  JNull | JBool bool | JNum string | JStr string | JArr "json list" | JObj "(string \<times> json) list"

abbreviation quote_char :: char where "quote_char \<equiv> CHR 0x22"
abbreviation backslash :: char where "backslash \<equiv> CHR 0x5C"

subsection \<open>Strings\<close>

definition u_escape :: "nat \<Rightarrow> string" where
  "u_escape n =
     [backslash, CHR ''u'', hex_char (n div 4096 mod 16), hex_char (n div 256 mod 16),
      hex_char (n div 16 mod 16), hex_char (n mod 16)]"

definition escape_ascii :: "char \<Rightarrow> string" where
  "escape_ascii c =
     (let b = of_char c :: nat
      in if c = quote_char \<or> c = backslash then [backslash, c]
         else if b = 8 then [backslash, CHR ''b'']
         else if b = 12 then [backslash, CHR ''f'']
         else if b = 10 then [backslash, CHR ''n'']
         else if b = 13 then [backslash, CHR ''r'']
         else if b = 9 then [backslash, CHR ''t'']
         else if b < 32 \<or> c = CHR ''<'' \<or> c = CHR ''>'' \<or> c = CHR ''&'' then u_escape b
         else [c])"

definition escape_rune :: "string \<Rightarrow> string" where
  "escape_rune r =
     (if r = byte_string [226, 128, 168] then u_escape 8232
      else if r = byte_string [226, 128, 169] then u_escape 8233
      else r)"

function escape :: "string \<Rightarrow> string" where
  "escape s =
     (if s = [] then []
      else if of_char (hd s) < (128 :: nat) then escape_ascii (hd s) @ escape (tl s)
      else if rune_len s = 0 then u_escape 65533 @ escape (tl s)
      else escape_rune (take (rune_len s) s) @ escape (drop (rune_len s) s))"
  by pat_completeness auto
termination
  by (relation "measure length") auto

declare escape.simps [simp del]

definition escape_free :: "char \<Rightarrow> bool" where
  "escape_free c \<longleftrightarrow> of_char c < (128 :: nat) \<and> escape_ascii c = [c]"

lemma escape_plain: "list_all escape_free s \<Longrightarrow> escape s = s"
proof (induction s)
  case Nil
  then show ?case by (subst escape.simps) simp
next
  case (Cons c s)
  then show ?case by (subst escape.simps) (simp add: escape_free_def)
qed

text \<open>Escaping makes a string at most six times longer.\<close>

lemma length_escape: "length (escape s) \<le> 6 * length s"
proof (induction s rule: escape.induct)
  case (1 s)
  let ?n = "rune_len s"
  have a: "length (escape_ascii c) \<le> 6" for c
    by (simp add: escape_ascii_def u_escape_def Let_def)
  have r: "length (escape_rune x) \<le> 6 * length x" if "x \<noteq> []" for x
    using that by (cases x) (auto simp: escape_rune_def u_escape_def)
  consider "s = []" | "s \<noteq> []" "of_char (hd s) < (128 :: nat)"
    | "s \<noteq> []" "\<not> of_char (hd s) < (128 :: nat)" "?n = 0"
    | "s \<noteq> []" "\<not> of_char (hd s) < (128 :: nat)" "?n \<noteq> 0" by blast
  then show ?case
  proof cases
    case 2
    then have "escape s = escape_ascii (hd s) @ escape (tl s)" by (simp add: escape.simps [of s])
    with 2 "1.IH"(1) a [of "hd s"] show ?thesis by (cases s) simp_all
  next
    case 3
    then have "escape s = u_escape 65533 @ escape (tl s)" by (simp add: escape.simps [of s])
    with 3 "1.IH"(2) show ?thesis by (cases s) (simp_all add: u_escape_def)
  next
    case 4
    have "length (escape_rune (take ?n s)) \<le> 6 * length (take ?n s)" using 4 by (intro r) simp
    with "1.IH"(3) 4 show ?thesis by (simp add: escape.simps [of s])
  qed (simp add: escape.simps)
qed

text \<open>Reading: the next piece of a string literal.\<close>

datatype str_step = StrBad | StrEnd string | StrChunk string string

fun hex4 :: "string \<Rightarrow> (nat \<times> string) option" where
  "hex4 (a # b # c # d # r) =
     (case (hex_val a, hex_val b, hex_val c, hex_val d) of
        (Some w, Some x, Some y, Some z) \<Rightarrow> Some (4096 * w + 256 * x + 16 * y + z, r)
      | _ \<Rightarrow> None)"
| "hex4 _ = None"

definition simple_escape :: "char \<Rightarrow> char option" where
  "simple_escape e =
     (if e = quote_char \<or> e = backslash \<or> e = CHR ''/'' then Some e
      else if e = CHR ''b'' then Some (char_of (8 :: nat))
      else if e = CHR ''f'' then Some (char_of (12 :: nat))
      else if e = CHR ''n'' then Some (char_of (10 :: nat))
      else if e = CHR ''r'' then Some (char_of (13 :: nat))
      else if e = CHR ''t'' then Some (char_of (9 :: nat))
      else None)"

text \<open>A low surrogate escape right after a high one makes a pair; any other surrogate is replaced.\<close>

definition low_surrogate :: "string \<Rightarrow> (nat \<times> string) option" where
  "low_surrogate s =
     (case s of
        a # b # r \<Rightarrow>
          (if a = backslash \<and> b = CHR ''u'' then
             (case hex4 r of
                Some (u, r') \<Rightarrow> (if 56320 \<le> u \<and> u < 57344 then Some (u, r') else None)
              | None \<Rightarrow> None)
           else None)
      | _ \<Rightarrow> None)"

definition u_chunk :: "nat \<Rightarrow> string \<Rightarrow> str_step" where
  "u_chunk u r =
     (if 55296 \<le> u \<and> u < 57344 then
        (case (if u < 56320 then low_surrogate r else None) of
           Some (v, r') \<Rightarrow> StrChunk (utf8_encode (65536 + 1024 * (u - 55296) + (v - 56320))) r'
         | None \<Rightarrow> StrChunk replacement r)
      else StrChunk (utf8_encode u) r)"

definition str_next :: "string \<Rightarrow> str_step" where
  "str_next s =
     (case s of
        [] \<Rightarrow> StrBad
      | c # cs \<Rightarrow>
          (if c = quote_char then StrEnd cs
           else if c = backslash then
             (case cs of
                [] \<Rightarrow> StrBad
              | e # r \<Rightarrow>
                  (if e = CHR ''u'' then
                     (case hex4 r of None \<Rightarrow> StrBad | Some (u, r') \<Rightarrow> u_chunk u r')
                   else case simple_escape e of None \<Rightarrow> StrBad | Some x \<Rightarrow> StrChunk [x] r))
           else if of_char c < (32 :: nat) then StrBad
           else if of_char c < (128 :: nat) then StrChunk [c] cs
           else if rune_len s = 0 then StrChunk replacement cs
           else StrChunk (take (rune_len s) s) (drop (rune_len s) s)))"

lemma hex4_rest: "hex4 s = Some (u, r) \<Longrightarrow> length r < length s"
  by (induction s rule: hex4.induct) (auto split: option.splits)

lemma low_surrogate_rest: "low_surrogate s = Some (u, r) \<Longrightarrow> length r < length s"
  by (auto simp: low_surrogate_def split: list.splits option.splits if_splits dest: hex4_rest)

lemma u_chunk_rest: "u_chunk u s = StrChunk x r \<Longrightarrow> length r \<le> length s"
  by (auto simp: u_chunk_def split: if_splits option.splits dest: low_surrogate_rest)

lemma str_next_rest:
  assumes "str_next s = StrChunk x r"
  shows "length r < length s"
proof -
  have "length (drop (rune_len s) s) < length s" if "s \<noteq> []" "rune_len s \<noteq> 0" using that by simp
  with assms show ?thesis
    by (auto simp: str_next_def split: list.splits if_splits option.splits
        dest!: hex4_rest u_chunk_rest)
qed

lemma str_next_end: "str_next s = StrEnd r \<Longrightarrow> length r < length s"
  by (auto simp: str_next_def u_chunk_def split: list.splits if_splits option.splits)

function parse_str :: "string \<Rightarrow> (string \<times> string) option" where
  "parse_str s =
     (case str_next s of
        StrBad \<Rightarrow> None
      | StrEnd r \<Rightarrow> Some ([], r)
      | StrChunk x r \<Rightarrow> map_option (\<lambda>(a, b). (x @ a, b)) (parse_str r))"
  by pat_completeness auto
termination
  by (relation "measure length") (auto dest: str_next_rest)

declare parse_str.simps [simp del]

subsection \<open>Round trip for strings\<close>

lemma hex4_digits:
  assumes "n < 65536"
  shows "hex4 (hex_char (n div 4096 mod 16) # hex_char (n div 256 mod 16) # hex_char (n div 16 mod 16)
      # hex_char (n mod 16) # r) = Some (n, r)"
proof -
  have "16 * (n div 16) + n mod 16 = n" by simp
  moreover have "16 * (n div 16 div 16) + n div 16 mod 16 = n div 16" by simp
  moreover have "16 * (n div 256 div 16) + n div 256 mod 16 = n div 256" by simp
  moreover have "n div 16 div 16 = n div 256" "n div 256 div 16 = n div 4096"
    by (simp_all add: div_mult2_eq [symmetric])
  moreover have "n div 4096 mod 16 = n div 4096" using assms by (simp add: less_mult_imp_div_less)
  ultimately have "4096 * (n div 4096 mod 16) + 256 * (n div 256 mod 16) + 16 * (n div 16 mod 16)
      + n mod 16 = n"
    by linarith
  moreover have "n div 4096 mod 16 < 16" "n div 256 mod 16 < 16" "n div 16 mod 16 < 16" "n mod 16 < 16"
    by simp_all
  ultimately show ?thesis by (simp only: hex4.simps hex_val_char prod.case option.case)
qed

lemma str_next_u_escape:
  assumes "n < 65536" "\<not> (55296 \<le> n \<and> n < 57344)"
  shows "str_next (u_escape n @ r) = StrChunk (utf8_encode n) r"
proof -
  have "str_next (u_escape n @ r) = u_chunk n r"
    unfolding str_next_def u_escape_def append_Cons append_Nil list.case hex4_digits [OF assms(1)]
    by simp
  with assms(2) show ?thesis by (auto simp: u_chunk_def)
qed

lemma str_next_ascii:
  assumes "(of_char c :: nat) < 128"
  shows "str_next (escape_ascii c @ r) = StrChunk [c] r"
proof (cases "c = quote_char \<or> c = backslash")
  case True
  then show ?thesis by (auto simp: escape_ascii_def str_next_def simple_escape_def)
next
  case plain: False
  show ?thesis
  proof (cases "(of_char c :: nat) \<in> {8, 12, 10, 13, 9}")
    case True
    then have "c \<in> {char_of (8 :: nat), char_of (12 :: nat), char_of (10 :: nat), char_of (13 :: nat),
        char_of (9 :: nat)}"
      by (metis char_of_char insert_iff singletonD)
    then show ?thesis
      by (auto simp: escape_ascii_def str_next_def simple_escape_def)
  next
    case False
    show ?thesis
    proof (cases "of_char c < (32 :: nat) \<or> c = CHR ''<'' \<or> c = CHR ''>'' \<or> c = CHR ''&''")
      case True
      then have "escape_ascii c = u_escape (of_char c)"
        using plain False by (simp add: escape_ascii_def)
      moreover have "utf8_encode (of_char c) = [c]"
        using assms by (simp add: utf8_encode_def byte_string_def)
      ultimately show ?thesis using str_next_u_escape [of "of_char c" r] assms by simp
    next
      case False
      then have "escape_ascii c = [c]"
        using plain \<open>of_char c \<notin> {8, 12, 10, 13, 9}\<close> by (simp add: escape_ascii_def)
      with False plain assms show ?thesis by (simp add: str_next_def)
    qed
  qed
qed

lemma str_next_rune:
  assumes "\<not> of_char (hd s) < (128 :: nat)" "rune_len s = n" "0 < n"
  shows "str_next (escape_rune (take n s) @ r) = StrChunk (take n s) r"
proof -
  obtain c cs where s: "s = c # cs" using assms(2,3) by (cases s) (auto simp: rune_len_def)
  obtain k where k: "n = Suc k" using assms(3) by (cases n) auto
  have len: "length (take k cs) = k" using rune_len_le [of s] assms(2) s k by simp
  have t: "take n s = c # take k cs" using s k by simp
  have big: "128 \<le> (of_char c :: nat)" using assms(1) s by simp
  then have c: "c \<noteq> quote_char" "c \<noteq> backslash" by auto
  have "rune_len (c # take k cs @ r) = n" using rune_len_take [OF assms(2,3), of r] t by simp
  with big c k len have raw: "str_next (take n s @ r) = StrChunk (take n s) r"
    unfolding t by (simp add: str_next_def)
  have "str_next (u_escape 8232 @ r) = StrChunk (byte_string [226, 128, 168]) r"
    "str_next (u_escape 8233 @ r) = StrChunk (byte_string [226, 128, 169]) r"
    by (subst str_next_u_escape; simp add: utf8_encode_def)+
  with raw show ?thesis by (simp add: escape_rune_def)
qed

text \<open>A byte that is not part of a well-formed encoding arrives as U+FFFD, every other byte unchanged.\<close>

function sanitize :: "string \<Rightarrow> string" where
  "sanitize s =
     (if s = [] then []
      else if rune_len s = 0 then replacement @ sanitize (tl s)
      else take (rune_len s) s @ sanitize (drop (rune_len s) s))"
  by pat_completeness auto
termination
  by (relation "measure length") auto

declare sanitize.simps [simp del]

lemma sanitize_Nil [simp]: "sanitize [] = []"
  by (subst sanitize.simps) simp

lemma sanitize_valid: "valid_utf8 s \<Longrightarrow> sanitize s = s"
proof (induction s rule: valid_utf8.induct)
  case (1 s)
  show ?case
  proof (cases "s = []")
    case False
    with "1.prems" have "rune_len s \<noteq> 0" "valid_utf8 (drop (rune_len s) s)"
      by (subst (asm) valid_utf8.simps, auto split: if_splits)+
    with "1.IH" False show ?thesis by (subst sanitize.simps) simp
  qed simp
qed

lemma str_next_bad_rune: "str_next (u_escape 65533 @ r) = StrChunk replacement r"
  by (subst str_next_u_escape) (simp_all add: utf8_encode_def replacement_def)

lemma parse_str_chunk:
  "str_next s = StrChunk x r \<Longrightarrow> parse_str r = Some (y, t) \<Longrightarrow> parse_str s = Some (x @ y, t)"
  by (subst parse_str.simps) simp

lemma parse_str_escape:
  "parse_str (escape s @ quote_char # r) = Some (sanitize s, r)"
proof (induction s rule: sanitize.induct)
  case (1 s)
  let ?n = "rune_len s"
  consider "s = []" | c cs where "s = c # cs" "(of_char c :: nat) < 128"
    | "s \<noteq> []" "\<not> of_char (hd s) < (128 :: nat)" "?n = 0"
    | "s \<noteq> []" "\<not> of_char (hd s) < (128 :: nat)" "0 < ?n"
    by (cases s) auto
  then show ?case
  proof cases
    case 1
    then show ?thesis
      by (subst parse_str.simps, subst escape.simps) (simp add: str_next_def)
  next
    case 2
    have len: "?n = 1" using 2 by (simp add: rune_len_ascii)
    have eq: "escape s = escape_ascii c @ escape cs" "sanitize s = c # sanitize cs"
      using 2 len by (subst escape.simps, simp, subst sanitize.simps, simp)
    have "parse_str (escape cs @ quote_char # r) = Some (sanitize cs, r)"
      using "1.IH"(2) 2 len by simp
    from parse_str_chunk [OF str_next_ascii [OF 2(2)] this] show ?thesis by (simp add: eq)
  next
    case 3
    then have eq: "escape s = u_escape 65533 @ escape (tl s)" "sanitize s = replacement @ sanitize (tl s)"
      by (subst escape.simps, simp, subst sanitize.simps, simp)
    from parse_str_chunk [OF str_next_bad_rune "1.IH"(1) [OF 3(1,3)]] show ?thesis by (simp add: eq)
  next
    case 4
    then have eq: "escape s = escape_rune (take ?n s) @ escape (drop ?n s)"
      "sanitize s = take ?n s @ sanitize (drop ?n s)"
      by (subst escape.simps, simp, subst sanitize.simps, simp)
    have "parse_str (escape (drop ?n s) @ quote_char # r) = Some (sanitize (drop ?n s), r)"
      using 4 by (intro "1.IH"(2)) auto
    from parse_str_chunk [OF str_next_rune [OF 4(2) refl 4(3)] this] show ?thesis by (simp add: eq)
  qed
qed

subsection \<open>Numbers\<close>

text \<open>A number literal: an optional minus, an integer without leading zeros, then an optional fraction
  and an optional exponent. The literal and the rest of the input.\<close>

definition scan_digits :: "string \<Rightarrow> (string \<times> string) option" where
  "scan_digits s =
     (let ds = takeWhile is_digit s in if ds = [] then None else Some (ds, dropWhile is_digit s))"

definition scan_int :: "string \<Rightarrow> (string \<times> string) option" where
  "scan_int s =
     (case s of
        [] \<Rightarrow> None
      | c # r \<Rightarrow> (if c = CHR ''0'' then Some ([c], r) else scan_digits s))"

definition scan_frac :: "string \<Rightarrow> (string \<times> string) option" where
  "scan_frac s =
     (case s of
        [] \<Rightarrow> Some ([], [])
      | c # r \<Rightarrow>
          (if c = CHR ''.'' then map_option (\<lambda>(ds, r'). (c # ds, r')) (scan_digits r)
           else Some ([], s)))"

definition scan_exp :: "string \<Rightarrow> (string \<times> string) option" where
  "scan_exp s =
     (case s of
        [] \<Rightarrow> Some ([], [])
      | c # r \<Rightarrow>
          (if c = CHR ''e'' \<or> c = CHR ''E'' then
             (case r of
                [] \<Rightarrow> None
              | d # r' \<Rightarrow>
                  (if d = CHR ''+'' \<or> d = CHR ''-'' then
                     map_option (\<lambda>(ds, t). (c # d # ds, t)) (scan_digits r')
                   else map_option (\<lambda>(ds, t). (c # ds, t)) (scan_digits r)))
           else Some ([], s)))"

definition scan_num :: "string \<Rightarrow> (string \<times> string) option" where
  "scan_num s =
     (let sign = (if s \<noteq> [] \<and> hd s = CHR ''-'' then ''-'' else [])
      in case scan_int (drop (length sign) s) of
           None \<Rightarrow> None
         | Some (i, r) \<Rightarrow>
             (case scan_frac r of
                None \<Rightarrow> None
              | Some (f, r') \<Rightarrow>
                  (case scan_exp r' of
                     None \<Rightarrow> None
                   | Some (e, t) \<Rightarrow> Some (sign @ i @ f @ e, t))))"

lemma scan_digits_rest: "scan_digits s = Some (d, r) \<Longrightarrow> length r < length s"
proof -
  assume "scan_digits s = Some (d, r)"
  then have "d = takeWhile is_digit s" "r = dropWhile is_digit s" "d \<noteq> []"
    by (auto simp: scan_digits_def Let_def split: if_splits)
  then have "s = d @ r" by simp
  with \<open>d \<noteq> []\<close> show ?thesis by simp
qed

lemma scan_int_rest: "scan_int s = Some (d, r) \<Longrightarrow> length r < length s"
  by (auto simp: scan_int_def split: list.splits if_splits dest: scan_digits_rest)

lemma scan_frac_rest: "scan_frac s = Some (d, r) \<Longrightarrow> length r \<le> length s"
  by (auto simp: scan_frac_def split: list.splits if_splits dest!: scan_digits_rest)

lemma scan_exp_rest: "scan_exp s = Some (d, r) \<Longrightarrow> length r \<le> length s"
  by (auto simp: scan_exp_def split: list.splits if_splits dest!: scan_digits_rest)

lemma scan_num_rest: "scan_num s = Some (d, r) \<Longrightarrow> length r < length s"
  by (auto simp: scan_num_def Let_def split: if_splits option.splits
      dest!: scan_int_rest scan_frac_rest scan_exp_rest) linarith

text \<open>The encoder writes an integer; it is read back when no digit, dot or exponent follows.\<close>

definition num_end :: "string \<Rightarrow> bool" where
  "num_end r \<longleftrightarrow>
     r = [] \<or> \<not> (is_digit (hd r) \<or> hd r = CHR ''.'' \<or> hd r = CHR ''e'' \<or> hd r = CHR ''E'')"

lemma FormatUint_hd_0: "hd (FormatUint n) = CHR ''0'' \<Longrightarrow> n = 0"
proof (induction n rule: FormatUint.induct)
  case (1 n)
  have "digit_val (hd (FormatUint n)) = 0" using "1.prems" by (simp add: digit_val_def)
  then show ?case
    using 1 digit_char_val(2) [of n] by (cases "n < 10") (simp_all add: FormatUint.simps [of n])
qed

lemma scan_int_FormatUint:
  assumes "num_end r"
  shows "scan_int (FormatUint n @ r) = Some (FormatUint n, r)"
proof (cases "n = 0")
  case True
  have "char_of (48 :: nat) = CHR ''0''" by code_simp
  with True have "FormatUint n = ''0''" by (simp add: FormatUint.simps digit_char_def)
  then show ?thesis by (simp add: scan_int_def)
next
  case False
  obtain c cs where c: "FormatUint n = c # cs" by (cases "FormatUint n") auto
  then have "c \<noteq> CHR ''0''" using FormatUint_hd_0 [of n] False by auto
  then have "scan_int (FormatUint n @ r) = scan_digits (FormatUint n @ r)"
    by (simp add: scan_int_def c)
  moreover have "takeWhile is_digit r = []" "dropWhile is_digit r = r"
    using assms by (cases r; simp add: num_end_def)+
  then have "takeWhile is_digit (FormatUint n @ r) = FormatUint n"
    "dropWhile is_digit (FormatUint n @ r) = r"
    by (simp_all add: takeWhile_append2 dropWhile_append2 FormatUint_digits)
  ultimately show ?thesis by (simp add: scan_digits_def)
qed

lemma scan_num_FormatInt:
  assumes "num_end r"
  shows "scan_num (FormatInt i @ r) = Some (FormatInt i, r)"
proof -
  have tail: "scan_frac r = Some ([], r)" "scan_exp r = Some ([], r)"
    using assms by (cases r; simp add: num_end_def scan_frac_def scan_exp_def)+
  have "is_digit (hd (FormatUint n))" for n
    using FormatUint_digits [of "hd (FormatUint n)" n] by simp
  moreover have "\<not> is_digit (CHR ''-'')" by (simp add: is_digit_def)
  ultimately have "hd (FormatUint n) \<noteq> CHR ''-''" for n by metis
  then show ?thesis
    by (cases "i < 0") (simp_all add: FormatInt_def scan_num_def scan_int_FormatUint [OF assms] tail)
qed

subsection \<open>Values\<close>

definition is_ws :: "char \<Rightarrow> bool" where
  "is_ws c \<longleftrightarrow> (of_char c :: nat) \<in> {9, 10, 13, 32}"

definition skip_ws :: "string \<Rightarrow> string" where
  "skip_ws s = dropWhile is_ws s"

fun parse_val :: "nat \<Rightarrow> nat \<Rightarrow> string \<Rightarrow> (json \<times> string) option"
  and parse_elems :: "nat \<Rightarrow> nat \<Rightarrow> string \<Rightarrow> (json list \<times> string) option"
  and parse_members :: "nat \<Rightarrow> nat \<Rightarrow> string \<Rightarrow> ((string \<times> json) list \<times> string) option"
where
  "parse_val 0 d s = None"
| "parse_val (Suc n) d s =
     (case skip_ws s of
        [] \<Rightarrow> None
      | c # r \<Rightarrow>
          (if c = quote_char then map_option (\<lambda>(x, t). (JStr x, t)) (parse_str r)
           else if c = CHR ''{'' then
             (if d = 0 then None
              else case skip_ws r of
                  [] \<Rightarrow> None
                | e # t \<Rightarrow>
                    (if e = CHR ''}'' then Some (JObj [], t)
                     else map_option (\<lambda>(ms, u). (JObj ms, u)) (parse_members n (d - 1) r)))
           else if c = CHR ''['' then
             (if d = 0 then None
              else case skip_ws r of
                  [] \<Rightarrow> None
                | e # t \<Rightarrow>
                    (if e = CHR '']'' then Some (JArr [], t)
                     else map_option (\<lambda>(vs, u). (JArr vs, u)) (parse_elems n (d - 1) r)))
           else if HasPrefix (c # r) ''true'' then Some (JBool True, drop 4 (c # r))
           else if HasPrefix (c # r) ''false'' then Some (JBool False, drop 5 (c # r))
           else if HasPrefix (c # r) ''null'' then Some (JNull, drop 4 (c # r))
           else map_option (\<lambda>(x, t). (JNum x, t)) (scan_num (c # r))))"
| "parse_elems 0 d s = None"
| "parse_elems (Suc n) d s =
     (case parse_val n d s of
        None \<Rightarrow> None
      | Some (v, r) \<Rightarrow>
          (case skip_ws r of
             [] \<Rightarrow> None
           | c # t \<Rightarrow>
               (if c = CHR '','' then map_option (\<lambda>(vs, u). (v # vs, u)) (parse_elems n d t)
                else if c = CHR '']'' then Some ([v], t)
                else None)))"
| "parse_members 0 d s = None"
| "parse_members (Suc n) d s =
     (case skip_ws s of
        [] \<Rightarrow> None
      | q # s1 \<Rightarrow>
          (if q \<noteq> quote_char then None
           else case parse_str s1 of
               None \<Rightarrow> None
             | Some (k, s2) \<Rightarrow>
                 (case skip_ws s2 of
                    [] \<Rightarrow> None
                  | e # s3 \<Rightarrow>
                      (if e \<noteq> CHR '':'' then None
                       else case parse_val n d s3 of
                           None \<Rightarrow> None
                         | Some (v, s4) \<Rightarrow>
                             (case skip_ws s4 of
                                [] \<Rightarrow> None
                              | c # t \<Rightarrow>
                                  (if c = CHR '','' then
                                     map_option (\<lambda>(ms, u). ((k, v) # ms, u)) (parse_members n d t)
                                   else if c = CHR ''}'' then Some ([(k, v)], t)
                                   else None))))))"

declare parse_val.simps(2) [simp del] parse_elems.simps(2) [simp del] parse_members.simps(2) [simp del]

definition max_depth :: nat where
  "max_depth = 10000"

definition parse_json :: "string \<Rightarrow> (json \<times> string) option" where
  "parse_json s = parse_val (2 * length s + 2) max_depth s"

text \<open>\<open>json.Unmarshal\<close> wants one value and nothing but white space after it; a \<open>json.Decoder\<close> stops
  after the first value of its input.\<close>

definition json_Unmarshal :: "string \<Rightarrow> json option" where
  "json_Unmarshal s =
     (case parse_json s of
        None \<Rightarrow> None
      | Some (v, r) \<Rightarrow> (if skip_ws r = [] then Some v else None))"

definition json_Decode :: "string \<Rightarrow> json option" where
  "json_Decode s = map_option fst (parse_json s)"

fun json_print :: "json \<Rightarrow> string"
  and print_elems :: "json list \<Rightarrow> string"
  and print_members :: "(string \<times> json) list \<Rightarrow> string"
where
  "json_print JNull = ''null''"
| "json_print (JBool b) = (if b then ''true'' else ''false'')"
| "json_print (JNum x) = x"
| "json_print (JStr x) = quote_char # escape x @ [quote_char]"
| "json_print (JArr vs) = (if vs = [] then ''[]'' else CHR ''['' # print_elems vs)"
| "json_print (JObj ms) = (if ms = [] then ''{}'' else CHR ''{'' # print_members ms)"
| "print_elems [] = '']''"
| "print_elems (v # vs) = json_print v @ (if vs = [] then '']'' else CHR '','' # print_elems vs)"
| "print_members [] = ''}''"
| "print_members (m # ms) =
     quote_char # escape (fst m) @ [quote_char, CHR '':''] @ json_print (snd m)
       @ (if ms = [] then ''}'' else CHR '','' # print_members ms)"

subsection \<open>The fuel is enough\<close>

lemma skip_ws_Cons: "skip_ws s = c # r \<Longrightarrow> length r < length s"
  using length_dropWhile_le [of is_ws s] by (simp add: skip_ws_def)

lemma parse_str_rest: "parse_str s = Some (x, r) \<Longrightarrow> length r < length s"
proof (induction s arbitrary: x rule: parse_str.induct)
  case (1 s)
  show ?case
  proof (cases "str_next s")
    case StrBad
    with "1.prems" show ?thesis by (simp add: parse_str.simps [of s])
  next
    case (StrEnd t)
    with "1.prems" str_next_end show ?thesis by (simp add: parse_str.simps [of s])
  next
    case (StrChunk y t)
    with "1.prems" obtain z where "parse_str t = Some (z, r)" by (auto simp: parse_str.simps [of s])
    with "1.IH" [OF StrChunk] str_next_rest [OF StrChunk] show ?thesis by fastforce
  qed
qed

lemma parse_rest:
  "parse_val n d s = Some (v, r) \<Longrightarrow> length r < length s"
  "parse_elems n d s = Some (vs, r) \<Longrightarrow> length r < length s"
  "parse_members n d s = Some (ms, r) \<Longrightarrow> length r < length s"
proof (induction n arbitrary: d s v vs ms r)
  case (Suc n)
  {
    case 1
    then obtain c t where t: "skip_ws s = c # t"
      by (auto simp: parse_val.simps(2) split: list.splits)
    note len = skip_ws_Cons [OF t]
    have "length r \<le> length t"
      using 1 t by (auto simp: parse_val.simps(2) HasPrefix_def
          split: if_splits list.splits dest!: parse_str_rest skip_ws_Cons Suc scan_num_rest)
    with len show ?case by simp
  next
    case 2
    then obtain v t where t: "parse_val n d s = Some (v, t)"
      by (auto simp: parse_elems.simps(2) split: option.splits)
    note len = Suc(1) [OF t]
    have "length r \<le> length t"
      using 2 t by (auto simp: parse_elems.simps(2) split: if_splits list.splits
          dest!: skip_ws_Cons Suc(2))
    with len show ?case by simp
  next
    case 3
    then show ?case
      by (auto simp: parse_members.simps(2) split: if_splits list.splits option.splits
          dest!: skip_ws_Cons parse_str_rest Suc)
  }
qed simp_all

lemma parse_fuel:
  "2 * length s + 1 \<le> n \<Longrightarrow> 2 * length s + 1 \<le> m \<Longrightarrow> parse_val n d s = parse_val m d s"
  "2 * length s + 2 \<le> n \<Longrightarrow> 2 * length s + 2 \<le> m \<Longrightarrow> parse_elems n d s = parse_elems m d s"
  "2 * length s + 2 \<le> n \<Longrightarrow> 2 * length s + 2 \<le> m \<Longrightarrow> parse_members n d s = parse_members m d s"
proof (induction n arbitrary: m d s)
  case (Suc n)
  {
    case 1
    then obtain k where m: "m = Suc k" by (cases m) auto
    show ?case
    proof (cases "skip_ws s")
      case (Cons c r)
      then have "length r < length s" by (rule skip_ws_Cons)
      with 1 m have "parse_members n (d - 1) r = parse_members k (d - 1) r"
        "parse_elems n (d - 1) r = parse_elems k (d - 1) r"
        by (auto intro!: Suc)
      then show ?thesis by (simp add: m parse_val.simps(2) Cons split: list.split)
    qed (simp add: m parse_val.simps(2))
  next
    case 2
    then obtain k where m: "m = Suc k" by (cases m) auto
    with 2 have "parse_val n d s = parse_val k d s" by (intro Suc) auto
    moreover have "parse_elems n d u = parse_elems k d u" if "length u < length s" for u
      using that 2 m by (intro Suc) auto
    ultimately show ?case
      by (auto simp: m parse_elems.simps(2) dest!: parse_rest(1) skip_ws_Cons
          split: option.split list.split)
  next
    case 3
    then obtain k where m: "m = Suc k" by (cases m) auto
    have *: "parse_val n d u = parse_val k d u" "parse_members n d u = parse_members k d u"
      if "length u < length s" for u
      using that 3 m by (intro Suc; simp)+
    show ?case
    proof (cases "\<exists>s1 x s2 s3. skip_ws s = quote_char # s1 \<and> parse_str s1 = Some (x, s2)
        \<and> skip_ws s2 = CHR '':'' # s3")
      case True
      then obtain s1 x s2 s3 where s: "skip_ws s = quote_char # s1" "parse_str s1 = Some (x, s2)"
        "skip_ws s2 = CHR '':'' # s3" by blast
      then have len: "length s3 < length s"
        using skip_ws_Cons [OF s(1)] parse_str_rest [OF s(2)] skip_ws_Cons [OF s(3)] by simp
      have "parse_members n d t = parse_members k d t"
        if "parse_val k d s3 = Some (v, s4)" "skip_ws s4 = c # t" for v s4 c t
        using parse_rest(1) [OF that(1)] skip_ws_Cons [OF that(2)] len by (intro *) simp
      then show ?thesis
        using s * [OF len] by (simp add: m parse_members.simps(2) split: option.split list.split)
    qed (auto simp: m parse_members.simps(2) split: option.split list.split)
  }
qed simp_all

subsection \<open>Round trip for values\<close>

text \<open>
  The values the encoder writes and the parser accepts: integer numbers, nested at most \<open>d\<close> deep. They
  arrive with their strings sanitized, so unchanged when the strings are UTF-8.
\<close>

fun json_shape :: "nat \<Rightarrow> json \<Rightarrow> bool" where
  "json_shape d JNull \<longleftrightarrow> True"
| "json_shape d (JBool b) \<longleftrightarrow> True"
| "json_shape d (JNum x) \<longleftrightarrow> (\<exists>i. x = FormatInt i)"
| "json_shape d (JStr x) \<longleftrightarrow> True"
| "json_shape d (JArr vs) \<longleftrightarrow> 0 < d \<and> list_all (json_shape (d - 1)) vs"
| "json_shape d (JObj ms) \<longleftrightarrow> 0 < d \<and> list_all (\<lambda>m. json_shape (d - 1) (snd m)) ms"

fun sanitize_json :: "json \<Rightarrow> json" where
  "sanitize_json JNull = JNull"
| "sanitize_json (JBool b) = JBool b"
| "sanitize_json (JNum x) = JNum x"
| "sanitize_json (JStr x) = JStr (sanitize x)"
| "sanitize_json (JArr vs) = JArr (map sanitize_json vs)"
| "sanitize_json (JObj ms) = JObj (map (\<lambda>m. (sanitize (fst m), sanitize_json (snd m))) ms)"

fun json_utf8 :: "json \<Rightarrow> bool" where
  "json_utf8 (JStr x) \<longleftrightarrow> valid_utf8 x"
| "json_utf8 (JArr vs) \<longleftrightarrow> list_all json_utf8 vs"
| "json_utf8 (JObj ms) \<longleftrightarrow> list_all (\<lambda>m. valid_utf8 (fst m) \<and> json_utf8 (snd m)) ms"
| "json_utf8 _ \<longleftrightarrow> True"

definition json_ok :: "nat \<Rightarrow> json \<Rightarrow> bool" where
  "json_ok d v \<longleftrightarrow> json_shape d v \<and> json_utf8 v"

lemma json_ok_simps [simp]:
  "json_ok d JNull" "json_ok d (JBool b)"
  "json_ok d (JNum x) \<longleftrightarrow> (\<exists>i. x = FormatInt i)"
  "json_ok d (JStr x) \<longleftrightarrow> valid_utf8 x"
  "json_ok d (JArr vs) \<longleftrightarrow> 0 < d \<and> list_all (json_ok (d - 1)) vs"
  "json_ok d (JObj ms) \<longleftrightarrow> 0 < d \<and> list_all (\<lambda>m. valid_utf8 (fst m) \<and> json_ok (d - 1) (snd m)) ms"
  by (auto simp: json_ok_def list_all_iff)

lemma sanitize_json_utf8: "json_utf8 v \<Longrightarrow> sanitize_json v = v"
proof (induction v rule: sanitize_json.induct)
  case (5 vs)
  then have "\<forall>v \<in> set vs. sanitize_json v = v" by (simp add: list_all_iff)
  then show ?case by (simp add: map_idI)
next
  case (6 ms)
  then have "\<forall>m \<in> set ms. sanitize (fst m) = fst m \<and> sanitize_json (snd m) = snd m"
    by (simp add: list_all_iff sanitize_valid)
  then show ?case by (simp add: map_idI)
qed (simp_all add: sanitize_valid)

lemma FormatInt_hd:
  "\<exists>c cs. FormatInt i = c # cs \<and> (c = CHR ''-'' \<or> is_digit c)"
proof -
  have "\<exists>c cs. FormatUint n = c # cs \<and> is_digit c" for n
    using FormatUint_digits [of "hd (FormatUint n)" n] by (cases "FormatUint n") auto
  from this [of "nat i"] show ?thesis by (auto simp: FormatInt_def)
qed

definition value_start :: "char \<Rightarrow> bool" where
  "value_start c \<longleftrightarrow> \<not> is_ws c \<and> c \<noteq> CHR '']'' \<and> c \<noteq> CHR ''}''"

lemma json_print_start:
  assumes "json_shape d v"
  shows "\<exists>c t. json_print v = c # t \<and> value_start c"
proof -
  have "value_start c" if "c = CHR ''-'' \<or> is_digit c" for c
    using that by (auto simp: value_start_def is_ws_def is_digit_def)
  with FormatInt_hd have "\<exists>c t. FormatInt i = c # t \<and> value_start c" for i by metis
  with assms show ?thesis by (cases v) (auto simp: value_start_def is_ws_def)
qed

lemma skip_ws_start: "\<not> is_ws c \<Longrightarrow> skip_ws (c # r) = c # r"
  by (simp add: skip_ws_def)

lemma skip_ws_punct [simp]:
  "skip_ws (quote_char # r) = quote_char # r" "skip_ws (CHR '':'' # r) = CHR '':'' # r"
  "skip_ws (CHR '','' # r) = CHR '','' # r" "skip_ws (CHR '']'' # r) = CHR '']'' # r"
  "skip_ws (CHR ''}'' # r) = CHR ''}'' # r" "skip_ws (CHR ''['' # r) = CHR ''['' # r"
  "skip_ws (CHR ''{'' # r) = CHR ''{'' # r"
  by (simp_all add: skip_ws_def is_ws_def)

lemma num_end_punct [simp]:
  "num_end []" "num_end (CHR '','' # r)" "num_end (CHR '']'' # r)" "num_end (CHR ''}'' # r)"
  by (simp_all add: num_end_def is_digit_def)

lemma parse_val_num:
  assumes "num_end r"
  shows "parse_val (Suc n) d (FormatInt i @ r) = Some (JNum (FormatInt i), r)"
proof -
  obtain c cs where c: "FormatInt i = c # cs" "c = CHR ''-'' \<or> is_digit c"
    using FormatInt_hd [of i] by blast
  then have "\<not> is_ws c" "c \<noteq> quote_char" "c \<noteq> CHR ''{''" "c \<noteq> CHR ''[''" "c \<noteq> CHR ''t''"
    "c \<noteq> CHR ''f''" "c \<noteq> CHR ''n''"
    by (auto simp: is_ws_def is_digit_def)
  moreover have "scan_num (c # cs @ r) = Some (c # cs, r)"
    using scan_num_FormatInt [OF assms, of i] c by simp
  ultimately show ?thesis
    unfolding c(1) append_Cons by (simp add: parse_val.simps(2) skip_ws_start HasPrefix_def)
qed

text \<open>A printed array or object, when its elements are read back.\<close>

lemma parse_arr:
  assumes "json_shape d (JArr vs)"
    and "vs \<noteq> [] \<Longrightarrow> parse_elems k (d - 1) (print_elems vs @ r) = Some (map sanitize_json vs, r)"
  shows "parse_val (Suc k) d (json_print (JArr vs) @ r) = Some (sanitize_json (JArr vs), r)"
proof (cases vs)
  case (Cons v vs')
  obtain c t where "json_print v = c # t" "value_start c"
    using json_print_start [of "d - 1" v] assms(1) Cons by auto
  then obtain u where "print_elems vs @ r = c # u" "value_start c" by (simp add: Cons)
  then show ?thesis
    using assms Cons by (simp add: parse_val.simps(2) skip_ws_start value_start_def)
qed (use assms(1) in \<open>simp add: parse_val.simps(2)\<close>)

lemma parse_obj:
  assumes "json_shape d (JObj ms)"
    and "ms \<noteq> [] \<Longrightarrow> parse_members k (d - 1) (print_members ms @ r)
      = Some (map (\<lambda>m. (sanitize (fst m), sanitize_json (snd m))) ms, r)"
  shows "parse_val (Suc k) d (json_print (JObj ms) @ r) = Some (sanitize_json (JObj ms), r)"
proof (cases ms)
  case (Cons m ms')
  obtain u where "print_members ms @ r = quote_char # u" by (simp add: Cons)
  then show ?thesis using assms Cons by (simp add: parse_val.simps(2))
qed (use assms(1) in \<open>simp add: parse_val.simps(2)\<close>)

lemma parse_print:
  "\<lbrakk>json_shape d v; num_end r; 2 * length (json_print v @ r) + 1 \<le> n\<rbrakk>
     \<Longrightarrow> parse_val n d (json_print v @ r) = Some (sanitize_json v, r)"
  "\<lbrakk>vs \<noteq> []; list_all (json_shape d) vs; 2 * length (print_elems vs @ r) + 2 \<le> n\<rbrakk>
     \<Longrightarrow> parse_elems n d (print_elems vs @ r) = Some (map sanitize_json vs, r)"
  "\<lbrakk>ms \<noteq> []; list_all (\<lambda>m. json_shape d (snd m)) ms;
    2 * length (print_members ms @ r) + 2 \<le> n\<rbrakk>
     \<Longrightarrow> parse_members n d (print_members ms @ r) = Some (map (\<lambda>m. (sanitize (fst m), sanitize_json (snd m))) ms, r)"
proof (induction v and vs and ms arbitrary: n d r and n d r and n d r
    rule: json_print_print_elems_print_members.induct)
  case (3 x)
  then show ?case using parse_val_num by (cases n) auto
next
  case (4 x)
  then show ?case by (cases n) (simp_all add: parse_val.simps(2) parse_str_escape)
next
  case (5 vs)
  obtain k where n: "n = Suc k" using "5.prems" by (cases n) auto
  show ?case unfolding n
  proof (rule parse_arr)
    assume "vs \<noteq> []"
    with "5.prems" n show "parse_elems k (d - 1) (print_elems vs @ r) = Some (map sanitize_json vs, r)"
      by (intro "5.IH") auto
  qed (rule "5.prems")
next
  case (6 ms)
  obtain k where n: "n = Suc k" using "6.prems" by (cases n) auto
  show ?case unfolding n
  proof (rule parse_obj)
    assume "ms \<noteq> []"
    with "6.prems" n show "parse_members k (d - 1) (print_members ms @ r)
        = Some (map (\<lambda>m. (sanitize (fst m), sanitize_json (snd m))) ms, r)"
      by (intro "6.IH") auto
  qed (rule "6.prems")
next
  case (8 v vs)
  obtain k where n: "n = Suc k" using "8.prems" by (cases n) auto
  show ?case
  proof (cases "vs = []")
    case True
    have "parse_val k d (json_print v @ CHR '']'' # r) = Some (sanitize_json v, CHR '']'' # r)"
      using "8.prems" True n by (intro "8.IH") auto
    with True n show ?thesis by (simp add: parse_elems.simps(2))
  next
    case False
    have "parse_val k d (json_print v @ CHR '','' # print_elems vs @ r)
        = Some (sanitize_json v, CHR '','' # print_elems vs @ r)"
      using "8.prems" False n by (intro "8.IH") auto
    moreover have "parse_elems k d (print_elems vs @ r) = Some (map sanitize_json vs, r)"
      using "8.prems" False n by (intro "8.IH") auto
    ultimately show ?thesis using False n by (simp add: parse_elems.simps(2))
  qed
next
  case (10 m ms)
  obtain k where n: "n = Suc k" using "10.prems" by (cases n) auto
  show ?case
  proof (cases "ms = []")
    case True
    have "parse_val k d (json_print (snd m) @ CHR ''}'' # r) = Some (sanitize_json (snd m), CHR ''}'' # r)"
      using "10.prems" True n by (intro "10.IH") auto
    with True n "10.prems" show ?thesis
      by (simp add: parse_members.simps(2) parse_str_escape)
  next
    case False
    have "parse_val k d (json_print (snd m) @ CHR '','' # print_members ms @ r)
        = Some (sanitize_json (snd m), CHR '','' # print_members ms @ r)"
      using "10.prems" False n by (intro "10.IH") auto
    moreover have "parse_members k d (print_members ms @ r) = Some (map (\<lambda>m. (sanitize (fst m), sanitize_json (snd m))) ms, r)"
      using "10.prems" False n by (intro "10.IH") auto
    ultimately show ?thesis
      using False n "10.prems" by (simp add: parse_members.simps(2) parse_str_escape)
  qed
next
  case (2 b)
  then show ?case
    by (cases n) (simp_all add: parse_val.simps(2) HasPrefix_def skip_ws_def is_ws_def)
next
  case 1
  then show ?case
    by (cases n) (simp_all add: parse_val.simps(2) HasPrefix_def skip_ws_def is_ws_def)
qed simp_all

lemma json_Unmarshal_sanitize:
  assumes "json_shape max_depth v"
  shows "json_Unmarshal (json_print v) = Some (sanitize_json v)"
  using parse_print(1) [OF assms num_end_punct(1)]
  by (simp add: json_Unmarshal_def parse_json_def skip_ws_def)

lemma json_Unmarshal_print: "json_ok max_depth v \<Longrightarrow> json_Unmarshal (json_print v) = Some v"
  by (simp add: json_ok_def json_Unmarshal_sanitize sanitize_json_utf8)

lemma json_Decode_print:
  assumes "json_ok max_depth v" "num_end r"
  shows "json_Decode (json_print v @ r) = Some v"
  using parse_print(1) [of max_depth v r] assms
  by (simp add: json_ok_def json_Decode_def parse_json_def sanitize_json_utf8)

end
