(* ===== verification/Wire_Codec.thy ===== *)
theory Wire_Codec
  imports Go_Prelude
begin

text \<open>
  The interface of a self-delimiting wire format. \<open>enc\<close> writes a message, \<open>dec\<close> reads the next
  message off the front of the input and returns the rest; \<open>valid\<close> says which messages the format
  can carry. The two laws make \<open>dec\<close> the inverse of \<open>enc\<close> in both directions. What follows from
  them for any such format is proved here once: no encoding is a prefix of another, a sequence of
  messages is read back message by message, and it is the only sequence with its encoding.
\<close>

locale wire_codec =
  fixes enc :: "'m \<Rightarrow> bytes"
    and dec :: "bytes \<Rightarrow> ('m \<times> bytes) option"
    and valid :: "'m \<Rightarrow> bool"
  assumes dec_enc: "valid m \<Longrightarrow> dec (enc m @ rest) = Some (m, rest)"
    and dec_sound: "dec raw = Some (m, rest) \<Longrightarrow> valid m \<and> raw = enc m @ rest"
    and dec_nil: "dec [] = None"
begin

lemma dec_iff: "dec raw = Some (m, rest) \<longleftrightarrow> valid m \<and> raw = enc m @ rest"
  using dec_enc dec_sound by blast

lemma enc_not_nil: "valid m \<Longrightarrow> enc m \<noteq> []"
  using dec_enc [of m "[]"] dec_nil by auto

lemma prefix_free:
  assumes "valid m" "valid m'" "enc m @ r = enc m' @ r'"
  shows "m = m' \<and> r = r'"
  by (metis assms dec_enc option.inject prod.inject)

lemma dec_shorter: "dec raw = Some (m, rest) \<Longrightarrow> length rest < length raw"
  using dec_sound [of raw m rest] enc_not_nil [of m] by auto

fun dec_many :: "nat \<Rightarrow> bytes \<Rightarrow> 'm list \<times> bytes" where
  "dec_many 0 raw = ([], raw)"
| "dec_many (Suc n) raw =
     (case dec raw of
        None \<Rightarrow> ([], raw)
      | Some (m, rest) \<Rightarrow> (let (ms, r) = dec_many n rest in (m # ms, r)))"

lemma dec_many_enc:
  "list_all valid ms \<Longrightarrow> dec_many (length ms) (concat (map enc ms) @ rest) = (ms, rest)"
  by (induction ms) (simp_all add: dec_enc)

lemma stream_unique:
  assumes "list_all valid ms" "list_all valid ms'" "concat (map enc ms) = concat (map enc ms')"
  shows "ms = ms'"
  using assms
proof (induction ms arbitrary: ms')
  case Nil
  then show ?case by (cases ms') (auto simp: enc_not_nil)
next
  case (Cons m ms)
  then obtain m' ns where ms': "ms' = m' # ns"
    by (cases ms') (auto simp: enc_not_nil)
  with Cons.prems have "m = m' \<and> concat (map enc ms) = concat (map enc ns)"
    by (intro prefix_free) auto
  with Cons ms' show ?case by auto
qed

end

end
