(* ===== verification/Protocol.thy ===== *)
theory Protocol
  imports Json Wire_Codec
begin

text \<open>
  \<open>internal/protocol/protocol.go\<close>: the frame types and error codes, the control messages as
  records, and the binary framing. \<open>EncodeFrame\<close> writes the length of the payload as a \<open>uint32\<close>,
  so it is taken modulo \<open>2 ^ 32\<close>; \<open>DecodeFrame\<close> reads from a reader, modelled by the bytes it still
  holds, and returns the bytes left after the frame. The JSON payloads of the control messages are
  in \<open>Messages\<close>.
\<close>

subsection \<open>Frame types and error codes\<close>

definition FrameRegister :: byte where "FrameRegister = 1"
definition FrameHeartbeat :: byte where "FrameHeartbeat = 2"
definition FrameOpenStream :: byte where "FrameOpenStream = 3"
definition FrameStreamData :: byte where "FrameStreamData = 4"
definition FrameCloseStream :: byte where "FrameCloseStream = 5"
definition FrameControlResponse :: byte where "FrameControlResponse = 6"

lemmas frame_types =
  FrameRegister_def FrameHeartbeat_def FrameOpenStream_def FrameStreamData_def
  FrameCloseStream_def FrameControlResponse_def

definition CodeOK :: "32 word" where "CodeOK = 1000"
definition CodeUnauthorized :: "32 word" where "CodeUnauthorized = 2001"
definition CodeInvalidRequest :: "32 word" where "CodeInvalidRequest = 2002"
definition CodeTunnelNotFound :: "32 word" where "CodeTunnelNotFound = 3001"
definition CodeStreamLimit :: "32 word" where "CodeStreamLimit = 3002"
definition CodeInternalError :: "32 word" where "CodeInternalError = 4001"

lemmas control_codes =
  CodeOK_def CodeUnauthorized_def CodeInvalidRequest_def CodeTunnelNotFound_def
  CodeStreamLimit_def CodeInternalError_def

definition HeaderSize :: nat where
  "HeaderSize = 5"

subsection \<open>Control messages\<close>

record TunnelConfig =
  tc_Name :: string
  tc_Protocol :: string
  tc_Port :: int
  tc_Subdomain :: string

record ClientMetadata =
  cm_OS :: string
  cm_Version :: string

record Register =
  reg_Type :: string
  reg_Token :: string
  reg_Tunnels :: "TunnelConfig list"
  reg_ClientID :: string
  reg_Metadata :: ClientMetadata

record Heartbeat =
  hb_Type :: string
  hb_Timestamp :: int

record StreamMetadata =
  sm_Method :: string
  sm_Path :: string

record OpenStream =
  os_Type :: string
  os_StreamID :: string
  os_TargetTunnel :: string
  os_Metadata :: StreamMetadata

record StreamData =
  sd_StreamID :: string
  sd_Data :: bytes

record CloseStream =
  cs_StreamID :: string

text \<open>The field \<open>Data\<close> of a control response is any JSON value; \<open>None\<close> is \<open>nil\<close>.\<close>

record ControlResponse =
  cr_Code :: "32 word"
  cr_Message :: string
  cr_Data :: "json option"

subsection \<open>Framing\<close>

text \<open>\<open>binary.BigEndian.PutUint32\<close> and \<open>binary.BigEndian.Uint32\<close>.\<close>

definition PutUint32 :: "32 word \<Rightarrow> bytes" where
  "PutUint32 w = [ucast (drop_bit 24 w), ucast (drop_bit 16 w), ucast (drop_bit 8 w), ucast w]"

definition Uint32 :: "bytes \<Rightarrow> 32 word" where
  "Uint32 bs = word_of_nat (foldl (\<lambda>acc b. 256 * acc + unat b) 0 (take 4 bs))"

definition EncodeFrame :: "byte \<Rightarrow> bytes \<Rightarrow> bytes" where
  "EncodeFrame frameType payload =
     frameType # PutUint32 (word_of_nat (length payload)) @ payload"

datatype io_error = EOF | ErrUnexpectedEOF

text \<open>\<open>io.ReadFull\<close> for a buffer of \<open>n\<close> bytes, on a reader that still yields \<open>r\<close>.\<close>

definition ReadFull :: "bytes \<Rightarrow> nat \<Rightarrow> (io_error + bytes) \<times> bytes" where
  "ReadFull r n =
     (if n = 0 then (Inr [], r)
      else if r = [] then (Inl EOF, [])
      else if length r < n then (Inl ErrUnexpectedEOF, [])
      else (Inr (take n r), drop n r))"

datatype frame_error = ReadingHeader io_error | ReadingPayload io_error

definition DecodeFrame :: "bytes \<Rightarrow> (frame_error + byte \<times> bytes) \<times> bytes" where
  "DecodeFrame reader =
     (case ReadFull reader HeaderSize of
        (Inl e, r) \<Rightarrow> (Inl (ReadingHeader e), r)
      | (Inr header, r) \<Rightarrow>
          (let frameType = hd header;
               length' = unat (Uint32 (drop 1 header))
           in if length' > 0 then
                (case ReadFull r length' of
                   (Inl e, r') \<Rightarrow> (Inl (ReadingPayload e), r')
                 | (Inr payload, r') \<Rightarrow> (Inr (frameType, payload), r'))
              else (Inr (frameType, []), r)))"

text \<open>What a caller does with the message of a WebSocket: one frame, the rest is dropped.\<close>

abbreviation decode_msg :: "bytes \<Rightarrow> frame_error + byte \<times> bytes" where
  "decode_msg raw \<equiv> fst (DecodeFrame raw)"

subsection \<open>The length field\<close>

lemma length_PutUint32 [simp]: "length (PutUint32 w) = 4"
  by (simp add: PutUint32_def)

lemma unat_drop_bits:
  fixes w :: "32 word"
  shows "unat (drop_bit 8 w) = unat w div 256" "unat (drop_bit 16 w) = unat w div 65536"
    "unat (drop_bit 24 w) = unat w div 16777216"
  by (simp_all add: drop_bit_eq_div unat_div)

lemma base256_digits:
  fixes n :: nat
  shows "16777216 * (n div 16777216) + 65536 * (n div 65536 mod 256)
           + 256 * (n div 256 mod 256) + n mod 256 = n"
proof -
  have "256 * (n div 16777216) + n div 65536 mod 256 = n div 65536"
    using mult_div_mod_eq [of 256 "n div 65536"] by (simp add: div_mult2_eq [symmetric])
  moreover have "256 * (n div 65536) + n div 256 mod 256 = n div 256"
    using mult_div_mod_eq [of 256 "n div 256"] by (simp add: div_mult2_eq [symmetric])
  moreover have "256 * (n div 256) + n mod 256 = n" by simp
  ultimately show ?thesis by linarith
qed

lemma Uint32_PutUint32 [simp]: "Uint32 (PutUint32 w @ rest) = w"
proof -
  have "unat w < 4294967296" using unsigned_less [of w, where ?'a = nat] by simp
  then have "foldl (\<lambda>acc b. 256 * acc + unat b) 0 (take 4 (PutUint32 w @ rest)) = unat w"
    by (simp add: PutUint32_def unsigned_ucast_eq take_bit_eq_mod unat_drop_bits base256_digits)
  then show ?thesis by (simp only: Uint32_def) simp
qed

lemma Uint32_PutUint32' [simp]: "Uint32 (PutUint32 w) = w"
  using Uint32_PutUint32 [of w "[]"] by simp

text \<open>Four bytes are the encoding of the number they spell.\<close>

lemma list4_cases: "length bs = 4 \<Longrightarrow> \<exists>a b c d. bs = [a, b, c, d]"
  by (auto simp: length_Suc_conv numeral_eq_Suc)

lemma base256_value:
  fixes a b c d :: nat
  assumes "a < 256" "b < 256" "c < 256" "d < 256"
  defines "n \<equiv> 16777216 * a + 65536 * b + 256 * c + d"
  shows "n < 4294967296" "n mod 256 = d" "n div 256 mod 256 = c" "n div 65536 mod 256 = b"
    "n div 16777216 mod 256 = a"
proof -
  show "n < 4294967296" unfolding n_def using assms(1-4) by linarith
  have n1: "n = 256 * (65536 * a + 256 * b + c) + d" by (simp add: n_def)
  have q1: "n div 256 = 65536 * a + 256 * b + c" using assms(4) unfolding n1 by simp
  show "n mod 256 = d" using assms(4) by (simp only: n1 mod_mult_self4 mod_less)
  have n2: "n div 256 = 256 * (256 * a + b) + c" using q1 by simp
  have q2: "n div 256 div 256 = 256 * a + b" using assms(3) unfolding n2 by simp
  show "n div 256 mod 256 = c" using assms(3) by (simp only: n2 mod_mult_self4 mod_less)
  have n3: "n div 65536 = 256 * a + b" using q2 by (simp add: div_mult2_eq [symmetric])
  show "n div 65536 mod 256 = b" using assms(2) by (simp only: n3 mod_mult_self4 mod_less)
  have "n div 16777216 = n div 65536 div 256" by (simp add: div_mult2_eq [symmetric])
  then show "n div 16777216 mod 256 = a" using assms(1,2) by (simp add: n3)
qed

lemma PutUint32_Uint32:
  assumes "length bs = 4"
  shows "PutUint32 (Uint32 bs) = bs"
proof -
  obtain a b c d where bs: "bs = [a, b, c, d]" using list4_cases [OF assms] by blast
  have lt: "unat x < 256" for x :: byte
    using unsigned_less [of x, where ?'a = nat] by simp
  let ?n = "16777216 * unat a + 65536 * unat b + 256 * unat c + unat d"
  have U: "Uint32 bs = word_of_nat ?n"
    by (simp add: Uint32_def bs algebra_simps del: of_nat_add of_nat_mult)
  have un: "unat (word_of_nat ?n :: 32 word) = ?n"
    using base256_value(1) [OF lt lt lt lt, of a b c d] by (simp add: unat_of_nat del: of_nat_add of_nat_mult)
  have ucast: "(ucast w :: byte) = word_of_nat (unat w)" for w :: "32 word"
    by simp
  have "PutUint32 (word_of_nat ?n) =
      map word_of_nat [?n div 16777216, ?n div 65536, ?n div 256, ?n]"
    by (simp only: PutUint32_def ucast unat_drop_bits un list.map)
  moreover have "word_of_nat (?n div 16777216) = a" "word_of_nat (?n div 65536) = b"
    "word_of_nat (?n div 256) = c" "word_of_nat ?n = d"
    using base256_value(2-5) [OF lt lt lt lt, of a b c d]
    by (simp_all add: word_unat_eq_iff unat_of_nat del: of_nat_add of_nat_mult)
  ultimately show ?thesis by (simp only: U) (simp only: bs list.map)
qed

subsection \<open>Reading a frame\<close>

lemma ReadFull_append: "length bs = n \<Longrightarrow> ReadFull (bs @ r) n = (Inr bs, r)"
  by (auto simp: ReadFull_def)

lemma length_EncodeFrame [simp]: "length (EncodeFrame ty p) = HeaderSize + length p"
  by (simp add: EncodeFrame_def HeaderSize_def)

lemma unat_length_field: "unat (word_of_nat n :: 32 word) = n mod 2 ^ 32"
  by (simp add: unat_of_nat)

lemma DecodeFrame_header:
  "DecodeFrame (ty # PutUint32 w @ r) =
     (if unat w = 0 then (Inr (ty, []), r)
      else if r = [] then (Inl (ReadingPayload EOF), [])
      else if length r < unat w then (Inl (ReadingPayload ErrUnexpectedEOF), [])
      else (Inr (ty, take (unat w) r), drop (unat w) r))"
proof -
  have "ReadFull ((ty # PutUint32 w) @ r) HeaderSize = (Inr (ty # PutUint32 w), r)"
    by (rule ReadFull_append) (simp add: HeaderSize_def)
  then show ?thesis
    by (auto simp: DecodeFrame_def ReadFull_def Let_def)
qed

lemma DecodeFrame_short:
  "length raw < HeaderSize \<Longrightarrow>
     DecodeFrame raw = (Inl (ReadingHeader (if raw = [] then EOF else ErrUnexpectedEOF)), [])"
  by (auto simp: DecodeFrame_def ReadFull_def HeaderSize_def)

lemma header_split:
  assumes "HeaderSize \<le> length raw"
  shows "raw = hd raw # PutUint32 (Uint32 (take 4 (drop 1 raw))) @ drop HeaderSize raw"
proof -
  have "PutUint32 (Uint32 (take 4 (drop 1 raw))) = take 4 (drop 1 raw)"
    using assms by (intro PutUint32_Uint32) (simp add: HeaderSize_def)
  moreover have "raw = hd raw # take 4 (drop 1 raw) @ drop 5 raw"
    using assms by (cases raw) (auto simp: HeaderSize_def numeral_eq_Suc)
  ultimately show ?thesis by (simp add: HeaderSize_def)
qed

lemma DecodeFrame_EncodeFrame:
  assumes "length p < 2 ^ 32"
  shows "DecodeFrame (EncodeFrame ty p @ rest) = (Inr (ty, p), rest)"
  using assms by (simp add: EncodeFrame_def DecodeFrame_header unat_length_field)

lemma DecodeFrame_sound:
  assumes "DecodeFrame raw = (Inr (ty, p), rest)"
  shows "length p < 2 ^ 32 \<and> raw = EncodeFrame ty p @ rest"
proof -
  have len: "HeaderSize \<le> length raw"
    using assms DecodeFrame_short [of raw] by (cases "length raw < HeaderSize") auto
  define w where "w = Uint32 (take 4 (drop 1 raw))"
  define r where "r = drop HeaderSize raw"
  have raw: "raw = hd raw # PutUint32 w @ r"
    using header_split [OF len] by (simp add: w_def r_def)
  have "DecodeFrame (hd raw # PutUint32 w @ r) = (Inr (ty, p), rest)"
    using assms raw by simp
  then have *: "ty = hd raw" "p = take (unat w) r" "rest = drop (unat w) r" "length p = unat w"
    by (auto simp: DecodeFrame_header split: if_splits)
  have "unat w < 2 ^ 32" using unsigned_less [of w, where ?'a = nat] by simp
  moreover have "word_of_nat (length p) = w" using * by simp
  ultimately show ?thesis
    using * raw by (simp add: EncodeFrame_def)
qed

text \<open>The frames as a wire format in the sense of \<open>Wire_Codec\<close>.\<close>

definition frame_enc :: "byte \<times> bytes \<Rightarrow> bytes" where
  "frame_enc f = EncodeFrame (fst f) (snd f)"

definition frame_dec :: "bytes \<Rightarrow> ((byte \<times> bytes) \<times> bytes) option" where
  "frame_dec raw = (case DecodeFrame raw of (Inr f, rest) \<Rightarrow> Some (f, rest) | (Inl _, _) \<Rightarrow> None)"

definition frame_valid :: "byte \<times> bytes \<Rightarrow> bool" where
  "frame_valid f \<longleftrightarrow> length (snd f) < 2 ^ 32"

interpretation frames: wire_codec frame_enc frame_dec frame_valid
proof unfold_locales
  fix f :: "byte \<times> bytes" and rest
  assume "frame_valid f"
  then show "frame_dec (frame_enc f @ rest) = Some (f, rest)"
    by (cases f) (simp add: frame_valid_def frame_dec_def frame_enc_def DecodeFrame_EncodeFrame)
next
  fix raw rest and f :: "byte \<times> bytes"
  assume "frame_dec raw = Some (f, rest)"
  then have "DecodeFrame raw = (Inr (fst f, snd f), rest)"
    by (auto simp: frame_dec_def split: prod.splits sum.splits)
  from DecodeFrame_sound [OF this] show "frame_valid f \<and> raw = frame_enc f @ rest"
    by (simp add: frame_valid_def frame_enc_def)
next
  show "frame_dec [] = None"
    by (simp add: frame_dec_def DecodeFrame_short HeaderSize_def)
qed

subsection \<open>Properties\<close>

text \<open>C17. Decoding succeeds with a frame type, a payload and the rest of the input exactly when the
  input is the encoding of that frame followed by that rest and the payload has less than
  \<open>2 ^ 32\<close> bytes: the decoder is the inverse of the encoder, in both directions.\<close>

theorem DecodeFrame_iff_EncodeFrame:
  "DecodeFrame raw = (Inr (ty, p), rest) \<longleftrightarrow>
     length p < 2 ^ 32 \<and> raw = EncodeFrame ty p @ rest"
  using DecodeFrame_sound DecodeFrame_EncodeFrame by blast

text \<open>Every input is classified: an empty reader and a truncated header are header errors, a
  payload shorter than the length field announces is a payload error (\<open>EOF\<close> when nothing follows
  the header), anything else is a frame with the announced number of payload bytes.\<close>

theorem DecodeFrame_cases:
  "DecodeFrame raw =
     (let n = unat (Uint32 (take 4 (drop 1 raw))); body = drop 5 raw in
      if raw = [] then (Inl (ReadingHeader EOF), [])
      else if length raw < 5 then (Inl (ReadingHeader ErrUnexpectedEOF), [])
      else if n = 0 then (Inr (hd raw, []), body)
      else if body = [] then (Inl (ReadingPayload EOF), [])
      else if length body < n then (Inl (ReadingPayload ErrUnexpectedEOF), [])
      else (Inr (hd raw, take n body), drop n body))"
proof (cases "length raw < HeaderSize")
  case True
  then show ?thesis by (auto simp: DecodeFrame_short HeaderSize_def Let_def)
next
  case False
  then have "HeaderSize \<le> length raw" by simp
  note raw = header_split [OF this]
  have "DecodeFrame raw =
      DecodeFrame (hd raw # PutUint32 (Uint32 (take 4 (drop 1 raw))) @ drop HeaderSize raw)"
    using raw by simp
  then show ?thesis
    using False by (auto simp: DecodeFrame_header HeaderSize_def Let_def)
qed

text \<open>The length field is the payload length modulo \<open>2 ^ 32\<close>, so for a payload of any length
  the decoder returns its first \<open>length p mod 2 ^ 32\<close> bytes and leaves the others in the reader.\<close>

theorem EncodeFrame_length_wraps:
  "DecodeFrame (EncodeFrame ty p @ rest) =
     (Inr (ty, take (length p mod 2 ^ 32) p), drop (length p mod 2 ^ 32) p @ rest)"
proof (cases "length p mod 2 ^ 32 = 0")
  case True
  then show ?thesis by (simp add: EncodeFrame_def DecodeFrame_header unat_length_field)
next
  case False
  have le: "length p mod 2 ^ 32 \<le> length p" by simp
  moreover from False have "p \<noteq> []" by auto
  ultimately show ?thesis using False
    by (simp add: EncodeFrame_def DecodeFrame_header unat_length_field)
qed

text \<open>Framing is unambiguous on a byte stream: two sequences of frames whose encodings
  concatenate to the same bytes are the same sequence.\<close>

theorem frame_stream_unique:
  assumes "list_all frame_valid fs" "list_all frame_valid gs"
    and "concat (map frame_enc fs) = concat (map frame_enc gs)"
  shows "fs = gs"
  using assms by (rule frames.stream_unique)

theorem frame_stream_unique_witness:
  "list_all frame_valid [(FrameHeartbeat, [7]), (FrameCloseStream, [])] \<and>
   [(FrameHeartbeat, [7]), (FrameCloseStream, [])] =
     ([(FrameHeartbeat, [7])] @ [(FrameCloseStream, [])])"
proof -
  have v: "list_all frame_valid [(FrameHeartbeat, [7]), (FrameCloseStream, [])]"
    by (simp add: frame_valid_def)
  show ?thesis
    using v frame_stream_unique [OF v, of "[(FrameHeartbeat, [7])] @ [(FrameCloseStream, [])]"]
    by simp
qed

end
