(* ===== verification/Base64.thy ===== *)
theory Base64
  imports Utf8
begin

text \<open>
  \<open>base64.StdEncoding\<close>, the text \<open>encoding/json\<close> writes for a \<open>[]byte\<close>. The decoder skips carriage
  returns and line feeds, wants complete padding and ignores the unused bits of the last digit.
\<close>

definition b64_char :: "nat \<Rightarrow> char" where
  "b64_char n =
     char_of (if n < 26 then 65 + n else if n < 52 then 71 + n else if n < 62 then n - 4
              else if n = 62 then 43 else 47)"

definition b64_val :: "char \<Rightarrow> nat option" where
  "b64_val c =
     (let n = of_char c :: nat
      in if 65 \<le> n \<and> n \<le> 90 then Some (n - 65)
         else if 97 \<le> n \<and> n \<le> 122 then Some (n - 71)
         else if 48 \<le> n \<and> n \<le> 57 then Some (n + 4)
         else if n = 43 then Some 62
         else if n = 47 then Some 63
         else None)"

fun b64_EncodeToString :: "bytes \<Rightarrow> string" where
  "b64_EncodeToString [] = []"
| "b64_EncodeToString [a] =
     [b64_char (unat a div 4), b64_char (unat a mod 4 * 16), CHR ''='', CHR ''='']"
| "b64_EncodeToString [a, b] =
     [b64_char (unat a div 4), b64_char (unat a mod 4 * 16 + unat b div 16),
      b64_char (unat b mod 16 * 4), CHR ''='']"
| "b64_EncodeToString (a # b # c # bs) =
     b64_char (unat a div 4) # b64_char (unat a mod 4 * 16 + unat b div 16)
       # b64_char (unat b mod 16 * 4 + unat c div 64) # b64_char (unat c mod 64)
       # b64_EncodeToString bs"

text \<open>The bytes of a group of four digits; a missing digit is padding.\<close>

definition b64_byte1 :: "nat \<Rightarrow> nat \<Rightarrow> byte" where
  "b64_byte1 w x = word_of_nat (4 * w + x div 16)"

definition b64_byte2 :: "nat \<Rightarrow> nat \<Rightarrow> byte" where
  "b64_byte2 x y = word_of_nat (16 * (x mod 16) + y div 4)"

definition b64_byte3 :: "nat \<Rightarrow> nat \<Rightarrow> byte" where
  "b64_byte3 y z = word_of_nat (64 * (y mod 4) + z)"

fun b64_groups :: "string \<Rightarrow> bytes option" where
  "b64_groups [] = Some []"
| "b64_groups (a # b # c # d # s) =
     (case (b64_val a, b64_val b) of
        (Some w, Some x) \<Rightarrow>
          (if c = CHR ''='' then
             (if d = CHR ''='' \<and> s = [] then Some [b64_byte1 w x] else None)
           else case b64_val c of
               None \<Rightarrow> None
             | Some y \<Rightarrow>
                 (if d = CHR ''='' then
                    (if s = [] then Some [b64_byte1 w x, b64_byte2 x y] else None)
                  else case (b64_val d, b64_groups s) of
                      (Some z, Some bs) \<Rightarrow>
                        Some (b64_byte1 w x # b64_byte2 x y # b64_byte3 y z # bs)
                    | _ \<Rightarrow> None))
      | _ \<Rightarrow> None)"
| "b64_groups _ = None"

definition is_newline :: "char \<Rightarrow> bool" where
  "is_newline c \<longleftrightarrow> (of_char c :: nat) = 10 \<or> (of_char c :: nat) = 13"

definition b64_DecodeString :: "string \<Rightarrow> bytes option" where
  "b64_DecodeString s = b64_groups (filter (\<lambda>c. \<not> is_newline c) s)"

lemma b64_val_char: "n < 64 \<Longrightarrow> b64_val (b64_char n) = Some n"
  by (auto simp: b64_val_def b64_char_def of_char_of Let_def)

lemma b64_pad_val: "b64_val (CHR ''='') = None"
  by (simp add: b64_val_def)

lemma b64_char_not_pad: "n < 64 \<Longrightarrow> b64_char n \<noteq> CHR ''=''"
  using b64_val_char [of n] b64_pad_val by auto

lemma b64_digits:
  fixes a b c :: byte
  shows "unat a div 4 < 64" "unat a mod 4 * 16 < 64" "unat a mod 4 * 16 + unat b div 16 < 64"
    "unat b mod 16 * 4 < 64" "unat b mod 16 * 4 + unat c div 64 < 64" "unat c mod 64 < 64"
proof -
  have lt: "unat x < 256" for x :: byte using unsigned_less [of x, where ?'a = nat] by simp
  have "unat a mod 4 < 4" "unat b mod 16 < 16" by simp_all
  moreover have "unat b div 16 < 16" "unat c div 64 < 4" "unat a div 4 < 64"
    using lt [of a] lt [of b] lt [of c] by (simp_all add: less_mult_imp_div_less)
  ultimately show "unat a div 4 < 64" "unat a mod 4 * 16 < 64"
    "unat a mod 4 * 16 + unat b div 16 < 64" "unat b mod 16 * 4 < 64"
    "unat b mod 16 * 4 + unat c div 64 < 64" "unat c mod 64 < 64"
    by linarith+
qed

lemma b64_bytes:
  fixes a b c :: byte
  shows "b64_byte1 (unat a div 4) (unat a mod 4 * 16) = a"
    "b64_byte1 (unat a div 4) (unat a mod 4 * 16 + unat b div 16) = a"
    "b64_byte2 (unat a mod 4 * 16 + unat b div 16) (unat b mod 16 * 4) = b"
    "b64_byte2 (unat a mod 4 * 16 + unat b div 16) (unat b mod 16 * 4 + unat c div 64) = b"
    "b64_byte3 (unat b mod 16 * 4 + unat c div 64) (unat c mod 64) = c"
proof -
  have lt: "unat x < 256" for x :: byte using unsigned_less [of x, where ?'a = nat] by simp
  have q: "unat b div 16 < 16" "unat c div 64 < 4"
    using lt [of b] lt [of c] by (simp_all add: less_mult_imp_div_less)
  have m: "(unat a mod 4 * 16 + unat b div 16) div 16 = unat a mod 4"
    "(unat a mod 4 * 16 + unat b div 16) mod 16 = unat b div 16"
    "(unat b mod 16 * 4 + unat c div 64) div 4 = unat b mod 16"
    "(unat b mod 16 * 4 + unat c div 64) mod 4 = unat c div 64"
    using q by simp_all
  have u: "word_of_nat (unat x) = x" for x :: byte by simp
  have w: "word_of_nat (4 * (unat a div 4) + unat a mod 4) = a"
    "word_of_nat (16 * (unat b div 16) + unat b mod 16) = b"
    "word_of_nat (64 * (unat c div 64) + unat c mod 64) = c"
    by (simp_all only: mult_div_mod_eq u)
  show "b64_byte1 (unat a div 4) (unat a mod 4 * 16) = a"
    "b64_byte1 (unat a div 4) (unat a mod 4 * 16 + unat b div 16) = a"
    "b64_byte2 (unat a mod 4 * 16 + unat b div 16) (unat b mod 16 * 4) = b"
    "b64_byte2 (unat a mod 4 * 16 + unat b div 16) (unat b mod 16 * 4 + unat c div 64) = b"
    "b64_byte3 (unat b mod 16 * 4 + unat c div 64) (unat c mod 64) = c"
    unfolding b64_byte1_def b64_byte2_def b64_byte3_def m
    using w by (simp_all only: nonzero_mult_div_cancel_right zero_neq_numeral not_False_eq_True)
qed

lemma b64_groups_roundtrip: "b64_groups (b64_EncodeToString bs) = Some bs"
  by (induction bs rule: b64_EncodeToString.induct)
    (simp_all only: b64_EncodeToString.simps b64_groups.simps b64_val_char b64_digits b64_bytes
      b64_char_not_pad option.case prod.case if_True if_False refl simp_thms b64_pad_val)

lemma b64_char_byte: "byte_in (b64_char n) 43 127"
  by (simp add: b64_char_def of_char_of) linarith

lemma b64_chars: "c \<in> set (b64_EncodeToString bs) \<Longrightarrow> byte_in c 43 127"
proof (induction bs rule: b64_EncodeToString.induct)
  case (4 a b d bs)
  then show ?case using b64_char_byte by auto
qed (use b64_char_byte in auto)

lemma b64_roundtrip: "b64_DecodeString (b64_EncodeToString bs) = Some bs"
proof -
  have "\<not> is_newline c" if "c \<in> set (b64_EncodeToString bs)" for c
    using b64_chars [OF that] by (auto simp: is_newline_def)
  then have "filter (\<lambda>c. \<not> is_newline c) (b64_EncodeToString bs) = b64_EncodeToString bs"
    by (simp add: filter_id_conv)
  then show ?thesis by (simp add: b64_DecodeString_def b64_groups_roundtrip)
qed

lemma length_b64: "length (b64_EncodeToString bs) \<le> 2 * length bs + 4"
  by (induction bs rule: b64_EncodeToString.induct) simp_all

lemma valid_utf8_b64: "valid_utf8 (b64_EncodeToString bs)"
  using b64_chars by (intro valid_utf8_ascii) (fastforce simp: is_ascii_def list_all_iff)

end
