(* ===== verification/Json_Codec.thy ===== *)
theory Json_Codec
  imports Json Base64 "HOL-Library.Char_ord" "HOL-Library.List_Lexorder"
begin

text \<open>
  How \<open>encoding/json\<close> maps JSON to the Go types of the sources. Decoding stores into an existing
  value, so a decoder takes that value and returns the new one, \<open>None\<close> when \<open>Unmarshal\<close> reports a
  type error (the callers then discard the value). \<open>null\<close> leaves a value as it is, except that a
  map, a slice and an interface become \<open>nil\<close>. A member of an object is stored into the field whose
  name it matches up to case, as \<open>foldName\<close> compares (U+017F and U+212A fold to \<open>s\<close> and \<open>k\<close>); other
  members are skipped, and repeated members are stored one after the other. A \<open>map[string]string\<close>
  is an association list sorted by key, which is also the order \<open>Marshal\<close> writes.
\<close>

type_synonym 'a decoder = "json \<Rightarrow> 'a \<Rightarrow> 'a option"
type_synonym string_map = "(string \<times> string) list"

subsection \<open>Field names\<close>

function fold_name :: "string \<Rightarrow> string" where
  "fold_name s =
     (if s = [] then []
      else if HasPrefix s (byte_string [197, 191]) then CHR ''s'' # fold_name (drop 2 s)
      else if HasPrefix s (byte_string [226, 132, 170]) then CHR ''k'' # fold_name (drop 3 s)
      else lower_byte (hd s) # fold_name (tl s))"
  by pat_completeness auto
termination
  by (relation "measure length") auto

declare fold_name.simps [simp del]

definition plain_name :: "string \<Rightarrow> bool" where
  "plain_name s \<longleftrightarrow> list_all (\<lambda>c. of_char c < (128 :: nat) \<and> lower_byte c = c) s"

lemma fold_name_plain: "plain_name s \<Longrightarrow> fold_name s = s"
proof (induction s)
  case Nil
  then show ?case by (subst fold_name.simps) simp
next
  case (Cons c s)
  then have c: "of_char c < (128 :: nat)" "lower_byte c = c" "fold_name s = s"
    by (simp_all add: plain_name_def)
  have "c \<noteq> char_of (197 :: nat)" "c \<noteq> char_of (226 :: nat)"
    using c(1) by (auto simp: of_char_of)
  with c show ?case by (subst fold_name.simps) (simp add: HasPrefix_def byte_string_def)
qed

subsection \<open>Decoders\<close>

definition dec_string :: "string decoder" where
  "dec_string j x = (case j of JStr s \<Rightarrow> Some s | JNull \<Rightarrow> Some x | _ \<Rightarrow> None)"

definition dec_int :: "int decoder" where
  "dec_int j x = (case j of JNum l \<Rightarrow> Atoi l | JNull \<Rightarrow> Some x | _ \<Rightarrow> None)"

definition dec_uint32 :: "32 word decoder" where
  "dec_uint32 j x =
     (case j of
        JNum l \<Rightarrow> map_option word_of_nat (ParseUint32 l)
      | JNull \<Rightarrow> Some x
      | _ \<Rightarrow> None)"

fun dec_list :: "'a decoder \<Rightarrow> 'a \<Rightarrow> json list \<Rightarrow> 'a list option" where
  "dec_list d z [] = Some []"
| "dec_list d z (j # js) =
     (case d j z of None \<Rightarrow> None | Some x \<Rightarrow> map_option ((#) x) (dec_list d z js))"

text \<open>A slice is reset, then one element per element of the array is appended.\<close>

definition dec_slice :: "'a decoder \<Rightarrow> 'a \<Rightarrow> 'a list decoder" where
  "dec_slice d z j x = (case j of JArr js \<Rightarrow> dec_list d z js | JNull \<Rightarrow> Some [] | _ \<Rightarrow> None)"

definition dec_byte :: "byte decoder" where
  "dec_byte j x =
     (case j of
        JNum l \<Rightarrow> (case ParseUint32 l of
                     Some n \<Rightarrow> (if n < 256 then Some (word_of_nat n) else None)
                   | None \<Rightarrow> None)
      | JNull \<Rightarrow> Some x
      | _ \<Rightarrow> None)"

text \<open>A \<open>[]byte\<close> is written in base64; an array of numbers is read too.\<close>

definition dec_bytes :: "bytes decoder" where
  "dec_bytes j x = (case j of JStr s \<Rightarrow> b64_DecodeString s | _ \<Rightarrow> dec_slice dec_byte 0 j x)"

fun map_put :: "string \<Rightarrow> string \<Rightarrow> string_map \<Rightarrow> string_map" where
  "map_put k v [] = [(k, v)]"
| "map_put k v ((l, w) # m) =
     (if k = l then (k, v) # m else if k < l then (k, v) # (l, w) # m else (l, w) # map_put k v m)"

fun dec_map_members :: "(string \<times> json) list \<Rightarrow> string_map decoder" where
  "dec_map_members [] j m = Some m"
| "dec_map_members ((k, v) # ms) j m =
     (case dec_string v [] of None \<Rightarrow> None | Some s \<Rightarrow> dec_map_members ms j (map_put k s m))"

definition dec_string_map :: "string_map decoder" where
  "dec_string_map j m =
     (case j of JObj ms \<Rightarrow> dec_map_members ms j m | JNull \<Rightarrow> Some [] | _ \<Rightarrow> None)"

text \<open>
  An \<open>interface{}\<close> takes any value. A number in it becomes a \<open>float64\<close>, so a literal that rounds to
  infinity is a type error: one of at least \<open>2 ^ 1024 - 2 ^ 970\<close>.
\<close>

definition exp_value :: "string \<Rightarrow> int" where
  "exp_value e =
     (let s = drop 1 e;
          t = (if s \<noteq> [] \<and> (hd s = CHR ''-'' \<or> hd s = CHR ''+'') then tl s else s);
          n = (case parse_digits 0 t of Some n \<Rightarrow> int n | None \<Rightarrow> 0)
      in if s \<noteq> [] \<and> hd s = CHR ''-'' then - n else n)"

definition float64_ok :: "string \<Rightarrow> bool" where
  "float64_ok lit =
     (case scan_int (TrimPrefix lit ''-'') of
        None \<Rightarrow> False
      | Some (i, r) \<Rightarrow>
          (case scan_frac r of
             None \<Rightarrow> False
           | Some (f, e) \<Rightarrow>
               (let m = (case parse_digits 0 (i @ drop 1 f) of Some n \<Rightarrow> n | None \<Rightarrow> 0);
                    x = exp_value e - int (length (drop 1 f));
                    bound = 2 ^ 1024 - 2 ^ 970
                in if 0 \<le> x then m * 10 ^ nat x < bound else m < bound * 10 ^ nat (- x))))"

fun any_ok :: "json \<Rightarrow> bool" where
  "any_ok (JNum l) \<longleftrightarrow> float64_ok l"
| "any_ok (JArr js) \<longleftrightarrow> list_all any_ok js"
| "any_ok (JObj ms) \<longleftrightarrow> list_all (\<lambda>m. any_ok (snd m)) ms"
| "any_ok _ \<longleftrightarrow> True"

definition dec_any :: "json option decoder" where
  "dec_any j x = (if j = JNull then Some None else if any_ok j then Some (Some j) else None)"

text \<open>A field of a struct, and a struct.\<close>

definition dec_field :: "'b decoder \<Rightarrow> ('a \<Rightarrow> 'b) \<Rightarrow> ('b \<Rightarrow> 'a \<Rightarrow> 'a) \<Rightarrow> 'a decoder" where
  "dec_field d get put j x = map_option (\<lambda>y. put y x) (d j (get x))"

fun dec_members :: "(string \<times> 'a decoder) list \<Rightarrow> (string \<times> json) list \<Rightarrow> 'a \<Rightarrow> 'a option" where
  "dec_members fs [] x = Some x"
| "dec_members fs ((k, v) # ms) x =
     (case map_of fs (fold_name k) of
        None \<Rightarrow> dec_members fs ms x
      | Some d \<Rightarrow> (case d v x of None \<Rightarrow> None | Some y \<Rightarrow> dec_members fs ms y))"

definition dec_struct :: "(string \<times> 'a decoder) list \<Rightarrow> 'a decoder" where
  "dec_struct fs j x =
     (case j of JObj ms \<Rightarrow> dec_members fs ms x | JNull \<Rightarrow> Some x | _ \<Rightarrow> None)"

subsection \<open>Encoders\<close>

definition enc_int :: "int \<Rightarrow> json" where
  "enc_int i = JNum (FormatInt i)"

definition enc_uint32 :: "32 word \<Rightarrow> json" where
  "enc_uint32 w = JNum (FormatUint (unat w))"

definition enc_bytes :: "bytes \<Rightarrow> json" where
  "enc_bytes b = JStr (b64_EncodeToString b)"

definition enc_string_map :: "string_map \<Rightarrow> json" where
  "enc_string_map m = JObj (map (\<lambda>(k, v). (k, JStr v)) m)"

text \<open>A field with \<open>omitempty\<close> is left out when it is empty.\<close>

definition omitempty :: "bool \<Rightarrow> string \<Rightarrow> json \<Rightarrow> (string \<times> json) list" where
  "omitempty is_zero name j = (if is_zero then [] else [(name, j)])"

subsection \<open>Decoding what was encoded\<close>

named_theorems json_codec \<open>decoders on encoded values\<close>

definition int64_ok :: "int \<Rightarrow> bool" where
  "int64_ok i \<longleftrightarrow> min_int64 \<le> i \<and> i \<le> max_int64"

lemma Atoi_FormatInt:
  assumes "int64_ok i"
  shows "Atoi (FormatInt i) = Some i"
proof -
  have d: "is_digit (hd (FormatUint n))" for n
    using FormatUint_digits [of "hd (FormatUint n)" n] by simp
  have "\<not> is_digit (CHR ''-'')" "\<not> is_digit (CHR ''+'')" by (simp_all add: is_digit_def)
  with d have "hd (FormatUint n) \<noteq> CHR ''-''" "hd (FormatUint n) \<noteq> CHR ''+''" for n by metis+
  then show ?thesis
    using assms
    by (auto simp: Atoi_def FormatInt_def parse_digits_FormatUint int64_ok_def Let_def)
qed

lemma dec_string_enc [json_codec]: "dec_string (JStr s) x = Some s"
  by (simp add: dec_string_def)

lemma dec_int_enc [json_codec]: "int64_ok i \<Longrightarrow> dec_int (enc_int i) x = Some i"
  by (simp add: dec_int_def enc_int_def Atoi_FormatInt)

lemma dec_uint32_enc [json_codec]: "dec_uint32 (enc_uint32 w) x = Some w"
proof -
  have "unat w < 2 ^ 32" using unsigned_less [of w, where ?'a = nat] by simp
  then show ?thesis by (simp add: dec_uint32_def enc_uint32_def ParseUint32_FormatUint)
qed

lemma dec_bytes_enc [json_codec]: "dec_bytes (enc_bytes b) x = Some b"
  by (simp add: dec_bytes_def enc_bytes_def b64_roundtrip)

lemma dec_list_enc:
  "(\<And>x. x \<in> set xs \<Longrightarrow> d (e x) z = Some x) \<Longrightarrow> dec_list d z (map e xs) = Some xs"
  by (induction xs) simp_all

lemma dec_slice_enc [json_codec]:
  "(\<And>x. x \<in> set xs \<Longrightarrow> d (e x) z = Some x) \<Longrightarrow> dec_slice d z (JArr (map e xs)) y = Some xs"
  by (simp add: dec_slice_def dec_list_enc)

text \<open>Sorted maps are rebuilt from their members.\<close>

definition sorted_map :: "string_map \<Rightarrow> bool" where
  "sorted_map m \<longleftrightarrow> sorted_wrt (<) (map fst m)"

lemma map_put_last: "\<forall>l \<in> set (map fst m). l < k \<Longrightarrow> map_put k v m = m @ [(k, v)]"
  by (induction m) auto

lemma dec_map_members_enc:
  "sorted_map (m @ ms) \<Longrightarrow>
     dec_map_members (map (\<lambda>(k, v). (k, JStr v)) ms) j m = Some (m @ ms)"
proof (induction ms arbitrary: m)
  case (Cons p ms)
  obtain k v where p: "p = (k, v)" by (cases p)
  have "\<forall>l \<in> set (map fst m). l < k"
    using Cons.prems p by (auto simp: sorted_map_def sorted_wrt_append)
  then have "map_put k v m = m @ [(k, v)]" by (rule map_put_last)
  with Cons.IH [of "m @ [(k, v)]"] Cons.prems p show ?case
    by (simp add: dec_string_def)
qed simp

lemma dec_string_map_enc [json_codec]:
  "sorted_map m \<Longrightarrow> dec_string_map (enc_string_map m) [] = Some m"
  using dec_map_members_enc [of "[]" m] by (simp add: dec_string_map_def enc_string_map_def)

lemma map_put_lookup: "map_of (map_put k v m) = (map_of m)(k \<mapsto> v)"
proof (rule ext)
  show "map_of (map_put k v m) x = ((map_of m)(k \<mapsto> v)) x" for x
    by (induction m) auto
qed

lemma map_put_keys: "fst ` set (map_put k v m) = insert k (fst ` set m)"
  using map_put_lookup [of k v m] by (simp add: dom_map_of_conv_image_fst [symmetric])

lemma sorted_map_put: "sorted_map m \<Longrightarrow> sorted_map (map_put k v m)"
proof (induction m)
  case (Cons p m)
  obtain l w where p: "p = (l, w)" by (cases p)
  have l: "\<forall>x \<in> fst ` set m. l < x" and m: "sorted_map m"
    using Cons.prems p by (simp_all add: sorted_map_def)
  consider "k = l" | "k < l" | "l < k" by force
  then show ?case
  proof cases
    case 2
    with l have "\<forall>x \<in> fst ` set m. k < x" by (auto dest: less_trans)
    with 2 Cons.prems p show ?thesis by (auto simp: sorted_map_def)
  next
    case 3
    have "\<forall>x \<in> fst ` set (map_put k v m). l < x" using l 3 by (simp add: map_put_keys)
    with Cons.IH [OF m] 3 p show ?thesis by (auto simp: sorted_map_def)
  qed (use Cons.prems p in \<open>simp add: sorted_map_def\<close>)
qed (simp add: sorted_map_def)

text \<open>What the encoders produce is what the JSON parser reads.\<close>

lemma json_ok_enc [simp]:
  "json_ok d (enc_int i)" "json_ok d (enc_uint32 w)" "json_ok d (enc_bytes b)"
proof -
  have "FormatUint (unat w) = FormatInt (int (unat w))" by (simp add: FormatInt_def)
  then show "json_ok d (enc_int i)" "json_ok d (enc_uint32 w)" "json_ok d (enc_bytes b)"
    by (auto simp: enc_int_def enc_uint32_def enc_bytes_def valid_utf8_b64)
qed

lemma json_ok_string_map:
  "json_ok d (enc_string_map m) \<longleftrightarrow> 0 < d \<and> list_all (\<lambda>(k, v). valid_utf8 k \<and> valid_utf8 v) m"
  by (auto simp: enc_string_map_def list_all_iff)

end
