(* ===== verification/Messages.thy ===== *)
theory Messages
  imports Protocol Json_Codec
begin

text \<open>
  The JSON payloads: how each control message of \<open>internal/protocol/protocol.go\<close> and each envelope
  of \<open>internal/proxy/proxy.go\<close> and \<open>internal/client/client.go\<close> is written and read, from its struct
  tags, and the functions \<open>EncodeControlMessage\<close> and \<open>DecodeControlMessage\<close> that join JSON and
  framing. The locale \<open>json_message\<close> states what a sender and a receiver rely on: a well-formed value
  is read back as it was written. Every message is an interpretation of it.
\<close>

subsection \<open>Writing and reading a message\<close>

datatype control_error = MarshalError | UnmarshalError

text \<open>\<open>json.Marshal\<close> does not fail on the types of the sources: no channels, functions, cycles or floats.\<close>

definition json_Marshal :: "json \<Rightarrow> control_error + bytes" where
  "json_Marshal j = Inr (bytes_of_string (json_print j))"

definition json_Unmarshal_into :: "'a decoder \<Rightarrow> bytes \<Rightarrow> 'a \<Rightarrow> control_error + 'a" where
  "json_Unmarshal_into dec data v =
     (case json_Unmarshal (string_of_bytes data) of
        None \<Rightarrow> Inl UnmarshalError
      | Some j \<Rightarrow> (case dec j v of None \<Rightarrow> Inl UnmarshalError | Some x \<Rightarrow> Inr x))"

definition EncodeControlMessage :: "byte \<Rightarrow> json \<Rightarrow> control_error + bytes" where
  "EncodeControlMessage frameType msg =
     (case json_Marshal msg of
        Inl e \<Rightarrow> Inl e
      | Inr payload \<Rightarrow> Inr (EncodeFrame frameType payload))"

definition DecodeControlMessage :: "'a decoder \<Rightarrow> bytes \<Rightarrow> 'a \<Rightarrow> control_error + 'a" where
  "DecodeControlMessage dec payload v =
     (case json_Unmarshal_into dec payload v of Inl e \<Rightarrow> Inl e | Inr x \<Rightarrow> Inr x)"

lemma EncodeControlMessage_frame:
  "EncodeControlMessage ft j = Inr (EncodeFrame ft (bytes_of_string (json_print j)))"
  by (simp add: EncodeControlMessage_def json_Marshal_def)

locale json_message =
  fixes enc :: "'a \<Rightarrow> json" and dec :: "'a decoder" and zero :: 'a and valid :: "'a \<Rightarrow> bool"
  assumes enc_ok: "valid x \<Longrightarrow> json_ok max_depth (enc x)"
    and dec_enc: "valid x \<Longrightarrow> dec (enc x) zero = Some x"
begin

lemma unmarshal_marshal:
  "valid x \<Longrightarrow> json_Unmarshal_into dec (bytes_of_string (json_print (enc x))) zero = Inr x"
  by (simp add: json_Unmarshal_into_def json_Unmarshal_print enc_ok dec_enc)

lemma decode_payload:
  "valid x \<Longrightarrow> DecodeControlMessage dec (bytes_of_string (json_print (enc x))) zero = Inr x"
  by (simp add: DecodeControlMessage_def unmarshal_marshal)

text \<open>What arrives in a WebSocket message is what was sent, while the payload fits the length field.\<close>

lemma frame_roundtrip:
  assumes "valid x" "length (json_print (enc x)) < 2 ^ 32"
  obtains frame payload where
    "EncodeControlMessage ft (enc x) = Inr frame" "decode_msg frame = Inr (ft, payload)"
    "DecodeControlMessage dec payload zero = Inr x"
proof
  let ?p = "bytes_of_string (json_print (enc x))"
  show "EncodeControlMessage ft (enc x) = Inr (EncodeFrame ft ?p)"
    by (rule EncodeControlMessage_frame)
  show "decode_msg (EncodeFrame ft ?p) = Inr (ft, ?p)"
    using DecodeFrame_EncodeFrame [of ?p ft "[]"] assms(2) by simp
  show "DecodeControlMessage dec ?p zero = Inr x" using assms(1) by (rule decode_payload)
qed

text \<open>Two values with one encoding are equal.\<close>

lemma encode_inject:
  assumes "valid x" "valid y" "json_print (enc x) = json_print (enc y)"
  shows "x = y"
proof -
  let ?d = "\<lambda>s. DecodeControlMessage dec (bytes_of_string s) zero"
  have "?d (json_print (enc x)) = ?d (json_print (enc y))" by (simp only: assms(3))
  then show ?thesis by (simp only: decode_payload assms(1,2) sum.inject)
qed

end

subsection \<open>Struct tags\<close>

definition enc_TunnelConfig :: "TunnelConfig \<Rightarrow> json" where
  "enc_TunnelConfig t =
     JObj [(''name'', JStr (tc_Name t)), (''protocol'', JStr (tc_Protocol t)),
           (''port'', enc_int (tc_Port t)), (''subdomain'', JStr (tc_Subdomain t))]"

definition dec_TunnelConfig :: "TunnelConfig decoder" where
  "dec_TunnelConfig =
     dec_struct
       [(''name'', dec_field dec_string tc_Name (\<lambda>x. tc_Name_update (\<lambda>_. x))),
        (''protocol'', dec_field dec_string tc_Protocol (\<lambda>x. tc_Protocol_update (\<lambda>_. x))),
        (''port'', dec_field dec_int tc_Port (\<lambda>x. tc_Port_update (\<lambda>_. x))),
        (''subdomain'', dec_field dec_string tc_Subdomain (\<lambda>x. tc_Subdomain_update (\<lambda>_. x)))]"

definition zero_TunnelConfig :: TunnelConfig where
  "zero_TunnelConfig = \<lparr>tc_Name = [], tc_Protocol = [], tc_Port = 0, tc_Subdomain = []\<rparr>"

definition enc_ClientMetadata :: "ClientMetadata \<Rightarrow> json" where
  "enc_ClientMetadata m = JObj [(''os'', JStr (cm_OS m)), (''version'', JStr (cm_Version m))]"

definition dec_ClientMetadata :: "ClientMetadata decoder" where
  "dec_ClientMetadata =
     dec_struct
       [(''os'', dec_field dec_string cm_OS (\<lambda>x. cm_OS_update (\<lambda>_. x))),
        (''version'', dec_field dec_string cm_Version (\<lambda>x. cm_Version_update (\<lambda>_. x)))]"

definition enc_Register :: "Register \<Rightarrow> json" where
  "enc_Register r =
     JObj [(''type'', JStr (reg_Type r)), (''token'', JStr (reg_Token r)),
           (''tunnels'', JArr (map enc_TunnelConfig (reg_Tunnels r))),
           (''client_id'', JStr (reg_ClientID r)),
           (''metadata'', enc_ClientMetadata (reg_Metadata r))]"

definition dec_Register :: "Register decoder" where
  "dec_Register =
     dec_struct
       [(''type'', dec_field dec_string reg_Type (\<lambda>x. reg_Type_update (\<lambda>_. x))),
        (''token'', dec_field dec_string reg_Token (\<lambda>x. reg_Token_update (\<lambda>_. x))),
        (''tunnels'', dec_field (dec_slice dec_TunnelConfig zero_TunnelConfig) reg_Tunnels
                        (\<lambda>x. reg_Tunnels_update (\<lambda>_. x))),
        (''client_id'', dec_field dec_string reg_ClientID (\<lambda>x. reg_ClientID_update (\<lambda>_. x))),
        (''metadata'', dec_field dec_ClientMetadata reg_Metadata
                         (\<lambda>x. reg_Metadata_update (\<lambda>_. x)))]"

definition zero_Register :: Register where
  "zero_Register =
     \<lparr>reg_Type = [], reg_Token = [], reg_Tunnels = [], reg_ClientID = [],
      reg_Metadata = \<lparr>cm_OS = [], cm_Version = []\<rparr>\<rparr>"

definition enc_Heartbeat :: "Heartbeat \<Rightarrow> json" where
  "enc_Heartbeat h =
     JObj [(''type'', JStr (hb_Type h)), (''timestamp'', enc_int (hb_Timestamp h))]"

definition dec_Heartbeat :: "Heartbeat decoder" where
  "dec_Heartbeat =
     dec_struct
       [(''type'', dec_field dec_string hb_Type (\<lambda>x. hb_Type_update (\<lambda>_. x))),
        (''timestamp'', dec_field dec_int hb_Timestamp (\<lambda>x. hb_Timestamp_update (\<lambda>_. x)))]"

definition zero_Heartbeat :: Heartbeat where
  "zero_Heartbeat = \<lparr>hb_Type = [], hb_Timestamp = 0\<rparr>"

definition enc_StreamMetadata :: "StreamMetadata \<Rightarrow> json" where
  "enc_StreamMetadata m = JObj [(''method'', JStr (sm_Method m)), (''path'', JStr (sm_Path m))]"

definition dec_StreamMetadata :: "StreamMetadata decoder" where
  "dec_StreamMetadata =
     dec_struct
       [(''method'', dec_field dec_string sm_Method (\<lambda>x. sm_Method_update (\<lambda>_. x))),
        (''path'', dec_field dec_string sm_Path (\<lambda>x. sm_Path_update (\<lambda>_. x)))]"

definition enc_OpenStream :: "OpenStream \<Rightarrow> json" where
  "enc_OpenStream m =
     JObj [(''type'', JStr (os_Type m)), (''stream_id'', JStr (os_StreamID m)),
           (''target_tunnel'', JStr (os_TargetTunnel m)),
           (''metadata'', enc_StreamMetadata (os_Metadata m))]"

definition dec_OpenStream :: "OpenStream decoder" where
  "dec_OpenStream =
     dec_struct
       [(''type'', dec_field dec_string os_Type (\<lambda>x. os_Type_update (\<lambda>_. x))),
        (''stream_id'', dec_field dec_string os_StreamID (\<lambda>x. os_StreamID_update (\<lambda>_. x))),
        (''target_tunnel'', dec_field dec_string os_TargetTunnel
                              (\<lambda>x. os_TargetTunnel_update (\<lambda>_. x))),
        (''metadata'', dec_field dec_StreamMetadata os_Metadata
                         (\<lambda>x. os_Metadata_update (\<lambda>_. x)))]"

definition zero_OpenStream :: OpenStream where
  "zero_OpenStream =
     \<lparr>os_Type = [], os_StreamID = [], os_TargetTunnel = [],
      os_Metadata = \<lparr>sm_Method = [], sm_Path = []\<rparr>\<rparr>"

definition enc_StreamData :: "StreamData \<Rightarrow> json" where
  "enc_StreamData m =
     JObj [(''stream_id'', JStr (sd_StreamID m)), (''data'', enc_bytes (sd_Data m))]"

definition dec_StreamData :: "StreamData decoder" where
  "dec_StreamData =
     dec_struct
       [(''stream_id'', dec_field dec_string sd_StreamID (\<lambda>x. sd_StreamID_update (\<lambda>_. x))),
        (''data'', dec_field dec_bytes sd_Data (\<lambda>x. sd_Data_update (\<lambda>_. x)))]"

definition zero_StreamData :: StreamData where
  "zero_StreamData = \<lparr>sd_StreamID = [], sd_Data = []\<rparr>"

definition enc_CloseStream :: "CloseStream \<Rightarrow> json" where
  "enc_CloseStream m = JObj [(''stream_id'', JStr (cs_StreamID m))]"

definition dec_CloseStream :: "CloseStream decoder" where
  "dec_CloseStream =
     dec_struct [(''stream_id'', dec_field dec_string cs_StreamID (\<lambda>x. cs_StreamID_update (\<lambda>_. x)))]"

definition zero_CloseStream :: CloseStream where
  "zero_CloseStream = \<lparr>cs_StreamID = []\<rparr>"

definition enc_ControlResponse :: "ControlResponse \<Rightarrow> json" where
  "enc_ControlResponse m =
     JObj ([(''code'', enc_uint32 (cr_Code m)), (''message'', JStr (cr_Message m))]
           @ (case cr_Data m of None \<Rightarrow> [] | Some j \<Rightarrow> [(''data'', j)]))"

definition dec_ControlResponse :: "ControlResponse decoder" where
  "dec_ControlResponse =
     dec_struct
       [(''code'', dec_field dec_uint32 cr_Code (\<lambda>x. cr_Code_update (\<lambda>_. x))),
        (''message'', dec_field dec_string cr_Message (\<lambda>x. cr_Message_update (\<lambda>_. x))),
        (''data'', dec_field dec_any cr_Data (\<lambda>x. cr_Data_update (\<lambda>_. x)))]"

definition zero_ControlResponse :: ControlResponse where
  "zero_ControlResponse = \<lparr>cr_Code = 0, cr_Message = [], cr_Data = None\<rparr>"

subsection \<open>Envelopes\<close>

record httpRequest =
  rq_Method :: string
  rq_Path :: string
  rq_Headers :: string_map
  rq_Body :: bytes

record httpResponse =
  rs_StatusCode :: int
  rs_Headers :: string_map
  rs_Body :: bytes

definition enc_httpRequest :: "httpRequest \<Rightarrow> json" where
  "enc_httpRequest r =
     JObj ([(''method'', JStr (rq_Method r)), (''path'', JStr (rq_Path r)),
            (''headers'', enc_string_map (rq_Headers r))]
           @ omitempty (rq_Body r = []) ''body'' (enc_bytes (rq_Body r)))"

definition dec_httpRequest :: "httpRequest decoder" where
  "dec_httpRequest =
     dec_struct
       [(''method'', dec_field dec_string rq_Method (\<lambda>x. rq_Method_update (\<lambda>_. x))),
        (''path'', dec_field dec_string rq_Path (\<lambda>x. rq_Path_update (\<lambda>_. x))),
        (''headers'', dec_field dec_string_map rq_Headers (\<lambda>x. rq_Headers_update (\<lambda>_. x))),
        (''body'', dec_field dec_bytes rq_Body (\<lambda>x. rq_Body_update (\<lambda>_. x)))]"

definition zero_httpRequest :: httpRequest where
  "zero_httpRequest = \<lparr>rq_Method = [], rq_Path = [], rq_Headers = [], rq_Body = []\<rparr>"

definition enc_httpResponse :: "httpResponse \<Rightarrow> json" where
  "enc_httpResponse r =
     JObj ([(''status_code'', enc_int (rs_StatusCode r)),
            (''headers'', enc_string_map (rs_Headers r))]
           @ omitempty (rs_Body r = []) ''body'' (enc_bytes (rs_Body r)))"

definition dec_httpResponse :: "httpResponse decoder" where
  "dec_httpResponse =
     dec_struct
       [(''status_code'', dec_field dec_int rs_StatusCode (\<lambda>x. rs_StatusCode_update (\<lambda>_. x))),
        (''headers'', dec_field dec_string_map rs_Headers (\<lambda>x. rs_Headers_update (\<lambda>_. x))),
        (''body'', dec_field dec_bytes rs_Body (\<lambda>x. rs_Body_update (\<lambda>_. x)))]"

definition zero_httpResponse :: httpResponse where
  "zero_httpResponse = \<lparr>rs_StatusCode = 0, rs_Headers = [], rs_Body = []\<rparr>"

subsection \<open>Well-formed messages\<close>

abbreviation utf8_map :: "string_map \<Rightarrow> bool" where
  "utf8_map m \<equiv> list_all (\<lambda>(k, v). valid_utf8 k \<and> valid_utf8 v) m"

definition valid_TunnelConfig :: "TunnelConfig \<Rightarrow> bool" where
  "valid_TunnelConfig t \<longleftrightarrow>
     valid_utf8 (tc_Name t) \<and> valid_utf8 (tc_Protocol t) \<and> int64_ok (tc_Port t)
     \<and> valid_utf8 (tc_Subdomain t)"

definition valid_Register :: "Register \<Rightarrow> bool" where
  "valid_Register r \<longleftrightarrow>
     valid_utf8 (reg_Type r) \<and> valid_utf8 (reg_Token r) \<and> list_all valid_TunnelConfig (reg_Tunnels r)
     \<and> valid_utf8 (reg_ClientID r) \<and> valid_utf8 (cm_OS (reg_Metadata r))
     \<and> valid_utf8 (cm_Version (reg_Metadata r))"

definition valid_Heartbeat :: "Heartbeat \<Rightarrow> bool" where
  "valid_Heartbeat h \<longleftrightarrow> valid_utf8 (hb_Type h) \<and> int64_ok (hb_Timestamp h)"

definition valid_OpenStream :: "OpenStream \<Rightarrow> bool" where
  "valid_OpenStream m \<longleftrightarrow>
     valid_utf8 (os_Type m) \<and> valid_utf8 (os_StreamID m) \<and> valid_utf8 (os_TargetTunnel m)
     \<and> valid_utf8 (sm_Method (os_Metadata m)) \<and> valid_utf8 (sm_Path (os_Metadata m))"

definition valid_StreamData :: "StreamData \<Rightarrow> bool" where
  "valid_StreamData m \<longleftrightarrow> valid_utf8 (sd_StreamID m)"

definition valid_CloseStream :: "CloseStream \<Rightarrow> bool" where
  "valid_CloseStream m \<longleftrightarrow> valid_utf8 (cs_StreamID m)"

text \<open>
  What a Go program puts into an \<open>interface{}\<close> and reads back with the same type and value: strings,
  booleans and slices of such values. A number comes back as a \<open>float64\<close> and a struct as a map.
\<close>

fun plain_data :: "json \<Rightarrow> bool" where
  "plain_data (JStr s) \<longleftrightarrow> True"
| "plain_data (JBool b) \<longleftrightarrow> True"
| "plain_data (JArr js) \<longleftrightarrow> list_all plain_data js"
| "plain_data j \<longleftrightarrow> False"

definition valid_ControlResponse :: "ControlResponse \<Rightarrow> bool" where
  "valid_ControlResponse m \<longleftrightarrow>
     valid_utf8 (cr_Message m)
     \<and> (case cr_Data m of None \<Rightarrow> True | Some j \<Rightarrow> plain_data j \<and> json_ok (max_depth - 1) j)"

definition valid_httpRequest :: "httpRequest \<Rightarrow> bool" where
  "valid_httpRequest r \<longleftrightarrow>
     valid_utf8 (rq_Method r) \<and> valid_utf8 (rq_Path r) \<and> utf8_map (rq_Headers r)
     \<and> sorted_map (rq_Headers r)"

definition valid_httpResponse :: "httpResponse \<Rightarrow> bool" where
  "valid_httpResponse r \<longleftrightarrow>
     int64_ok (rs_StatusCode r) \<and> utf8_map (rs_Headers r) \<and> sorted_map (rs_Headers r)"

lemma field_names [json_codec]:
  "fold_name ''name'' = ''name''" "fold_name ''protocol'' = ''protocol''"
  "fold_name ''port'' = ''port''" "fold_name ''subdomain'' = ''subdomain''"
  "fold_name ''os'' = ''os''" "fold_name ''version'' = ''version''" "fold_name ''type'' = ''type''"
  "fold_name ''token'' = ''token''" "fold_name ''tunnels'' = ''tunnels''"
  "fold_name ''client_id'' = ''client_id''" "fold_name ''metadata'' = ''metadata''"
  "fold_name ''timestamp'' = ''timestamp''" "fold_name ''method'' = ''method''"
  "fold_name ''path'' = ''path''" "fold_name ''stream_id'' = ''stream_id''"
  "fold_name ''target_tunnel'' = ''target_tunnel''" "fold_name ''data'' = ''data''"
  "fold_name ''code'' = ''code''" "fold_name ''message'' = ''message''"
  "fold_name ''headers'' = ''headers''" "fold_name ''body'' = ''body''"
  "fold_name ''status_code'' = ''status_code''"
  by (rule fold_name_plain, simp add: plain_name_def lower_byte_def)+

lemma valid_name: "plain_name s \<Longrightarrow> valid_utf8 s"
  by (rule valid_utf8_ascii) (auto simp: plain_name_def is_ascii_def list_all_iff)

lemma valid_names [json_codec]:
  "valid_utf8 ''name''" "valid_utf8 ''protocol''" "valid_utf8 ''port''" "valid_utf8 ''subdomain''"
  "valid_utf8 ''os''" "valid_utf8 ''version''" "valid_utf8 ''type''" "valid_utf8 ''token''"
  "valid_utf8 ''tunnels''" "valid_utf8 ''client_id''" "valid_utf8 ''metadata''"
  "valid_utf8 ''timestamp''" "valid_utf8 ''method''" "valid_utf8 ''path''" "valid_utf8 ''stream_id''"
  "valid_utf8 ''target_tunnel''" "valid_utf8 ''data''" "valid_utf8 ''code''" "valid_utf8 ''message''"
  "valid_utf8 ''headers''" "valid_utf8 ''body''" "valid_utf8 ''status_code''"
  by (rule valid_utf8_ascii, simp add: is_ascii_def)+

lemmas struct_codec = dec_struct_def dec_field_def json_codec

lemma TunnelConfig_codec [json_codec]:
  assumes "valid_TunnelConfig t"
  shows "dec_TunnelConfig (enc_TunnelConfig t) zero_TunnelConfig = Some t"
    and "json_ok (Suc n) (enc_TunnelConfig t)"
  using assms
  by (simp_all add: dec_TunnelConfig_def enc_TunnelConfig_def valid_TunnelConfig_def
      zero_TunnelConfig_def struct_codec)

interpretation register_msg: json_message enc_Register dec_Register zero_Register valid_Register
proof unfold_locales
  fix r assume v: "valid_Register r"
  have t: "dec_TunnelConfig (enc_TunnelConfig t) zero_TunnelConfig = Some t"
    "json_ok (Suc n) (enc_TunnelConfig t)"
    if "t \<in> set (reg_Tunnels r)" for t n
    using v that by (auto simp: valid_Register_def list_all_iff intro!: TunnelConfig_codec)
  show "json_ok max_depth (enc_Register r)"
    using v t(2) [of _ 9997] by (simp add: enc_Register_def enc_ClientMetadata_def
        valid_Register_def max_depth_def list_all_iff json_codec numeral_eq_Suc)
  have m: "dec_ClientMetadata (enc_ClientMetadata m) x = Some m" for m x
    by (simp add: dec_ClientMetadata_def enc_ClientMetadata_def struct_codec)
  show "dec_Register (enc_Register r) zero_Register = Some r"
    using v t by (simp add: dec_Register_def enc_Register_def zero_Register_def valid_Register_def
        struct_codec m)
qed

interpretation heartbeat_msg: json_message enc_Heartbeat dec_Heartbeat zero_Heartbeat valid_Heartbeat
  by unfold_locales
    (simp_all add: dec_Heartbeat_def enc_Heartbeat_def zero_Heartbeat_def valid_Heartbeat_def
      max_depth_def struct_codec)

interpretation open_msg: json_message enc_OpenStream dec_OpenStream zero_OpenStream valid_OpenStream
  by unfold_locales
    (simp_all add: dec_OpenStream_def enc_OpenStream_def zero_OpenStream_def valid_OpenStream_def
      dec_StreamMetadata_def enc_StreamMetadata_def max_depth_def struct_codec)

interpretation data_msg: json_message enc_StreamData dec_StreamData zero_StreamData valid_StreamData
  by unfold_locales
    (simp_all add: dec_StreamData_def enc_StreamData_def zero_StreamData_def valid_StreamData_def
      max_depth_def struct_codec)

interpretation close_msg: json_message enc_CloseStream dec_CloseStream zero_CloseStream
    valid_CloseStream
  by unfold_locales
    (simp_all add: dec_CloseStream_def enc_CloseStream_def zero_CloseStream_def
      valid_CloseStream_def max_depth_def struct_codec)

lemma plain_data_any: "plain_data j \<Longrightarrow> any_ok j"
  by (induction j rule: plain_data.induct) (auto simp: list_all_iff)

lemma dec_any_plain [json_codec]: "plain_data j \<Longrightarrow> dec_any j x = Some (Some j)"
  using plain_data_any [of j] by (auto simp: dec_any_def)

interpretation response_msg: json_message enc_ControlResponse dec_ControlResponse
    zero_ControlResponse valid_ControlResponse
proof unfold_locales
  fix m assume v: "valid_ControlResponse m"
  show "dec_ControlResponse (enc_ControlResponse m) zero_ControlResponse = Some m"
  proof (cases "cr_Data m")
    case None
    then show ?thesis by (simp add: dec_ControlResponse_def enc_ControlResponse_def zero_ControlResponse_def struct_codec)
  next
    case (Some j)
    with v have "dec_any j None = Some (Some j)" by (simp add: valid_ControlResponse_def dec_any_plain)
    with Some show ?thesis
      by (simp add: dec_ControlResponse_def enc_ControlResponse_def zero_ControlResponse_def struct_codec)
  qed
  have "json_ok 9999 j" if "cr_Data m = Some j" for j
    using v that by (simp add: valid_ControlResponse_def max_depth_def)
  then show "json_ok max_depth (enc_ControlResponse m)"
    using v by (cases "cr_Data m")
      (simp_all add: enc_ControlResponse_def valid_ControlResponse_def max_depth_def json_codec)
qed

interpretation http_request: json_message enc_httpRequest dec_httpRequest zero_httpRequest
    valid_httpRequest
  by unfold_locales
    (simp_all add: dec_httpRequest_def enc_httpRequest_def zero_httpRequest_def
      valid_httpRequest_def omitempty_def json_ok_string_map max_depth_def struct_codec)

interpretation http_response: json_message enc_httpResponse dec_httpResponse zero_httpResponse
    valid_httpResponse
  by unfold_locales
    (simp_all add: dec_httpResponse_def enc_httpResponse_def zero_httpResponse_def
      valid_httpResponse_def omitempty_def json_ok_string_map max_depth_def struct_codec)

subsection \<open>The protocol's messages\<close>

text \<open>What may travel on the connection: the six frame types, each with its message.\<close>

datatype control_message =
  MRegister Register | MHeartbeat Heartbeat | MOpenStream OpenStream | MStreamData StreamData
| MCloseStream CloseStream | MControlResponse ControlResponse

fun msg_type :: "control_message \<Rightarrow> byte" where
  "msg_type (MRegister m) = FrameRegister"
| "msg_type (MHeartbeat m) = FrameHeartbeat"
| "msg_type (MOpenStream m) = FrameOpenStream"
| "msg_type (MStreamData m) = FrameStreamData"
| "msg_type (MCloseStream m) = FrameCloseStream"
| "msg_type (MControlResponse m) = FrameControlResponse"

fun msg_json :: "control_message \<Rightarrow> json" where
  "msg_json (MRegister m) = enc_Register m"
| "msg_json (MHeartbeat m) = enc_Heartbeat m"
| "msg_json (MOpenStream m) = enc_OpenStream m"
| "msg_json (MStreamData m) = enc_StreamData m"
| "msg_json (MCloseStream m) = enc_CloseStream m"
| "msg_json (MControlResponse m) = enc_ControlResponse m"

fun msg_valid :: "control_message \<Rightarrow> bool" where
  "msg_valid (MRegister m) \<longleftrightarrow> valid_Register m"
| "msg_valid (MHeartbeat m) \<longleftrightarrow> valid_Heartbeat m"
| "msg_valid (MOpenStream m) \<longleftrightarrow> valid_OpenStream m"
| "msg_valid (MStreamData m) \<longleftrightarrow> valid_StreamData m"
| "msg_valid (MCloseStream m) \<longleftrightarrow> valid_CloseStream m"
| "msg_valid (MControlResponse m) \<longleftrightarrow> valid_ControlResponse m"

definition wire_message :: "control_message \<Rightarrow> control_error + bytes" where
  "wire_message m = EncodeControlMessage (msg_type m) (msg_json m)"

definition to_option :: "'e + 'a \<Rightarrow> 'a option" where
  "to_option r = (case r of Inl e \<Rightarrow> None | Inr x \<Rightarrow> Some x)"

definition read_message :: "bytes \<Rightarrow> control_message option" where
  "read_message raw =
     (case decode_msg raw of
        Inl e \<Rightarrow> None
      | Inr (ft, payload) \<Rightarrow>
          (if ft = FrameRegister then
             map_option MRegister (to_option (DecodeControlMessage dec_Register payload zero_Register))
           else if ft = FrameHeartbeat then
             map_option MHeartbeat (to_option (DecodeControlMessage dec_Heartbeat payload zero_Heartbeat))
           else if ft = FrameOpenStream then
             map_option MOpenStream (to_option (DecodeControlMessage dec_OpenStream payload zero_OpenStream))
           else if ft = FrameStreamData then
             map_option MStreamData (to_option (DecodeControlMessage dec_StreamData payload zero_StreamData))
           else if ft = FrameCloseStream then
             map_option MCloseStream (to_option (DecodeControlMessage dec_CloseStream payload zero_CloseStream))
           else if ft = FrameControlResponse then
             map_option MControlResponse
               (to_option (DecodeControlMessage dec_ControlResponse payload zero_ControlResponse))
           else None))"

lemma read_wire:
  assumes "msg_valid m" "length (json_print (msg_json m)) < 2 ^ 32"
  shows "read_message (EncodeFrame (msg_type m) (bytes_of_string (json_print (msg_json m)))) = Some m"
proof -
  let ?p = "bytes_of_string (json_print (msg_json m))"
  have "decode_msg (EncodeFrame (msg_type m) ?p) = Inr (msg_type m, ?p)"
    using DecodeFrame_EncodeFrame [of ?p "msg_type m" "[]"] assms(2) by simp
  with assms(1) show ?thesis
    by (cases m) (simp_all add: read_message_def to_option_def frame_types
        register_msg.decode_payload heartbeat_msg.decode_payload open_msg.decode_payload
        data_msg.decode_payload close_msg.decode_payload response_msg.decode_payload)
qed

definition ex_register :: Register where
  "ex_register =
     \<lparr>reg_Type = ''register'', reg_Token = ''ab.cd'',
      reg_Tunnels = [\<lparr>tc_Name = ''web'', tc_Protocol = ''http'', tc_Port = 3000, tc_Subdomain = ''app''\<rparr>],
      reg_ClientID = [], reg_Metadata = \<lparr>cm_OS = ''linux'', cm_Version = ''1.0.0''\<rparr>\<rparr>"

definition ex_request :: httpRequest where
  "ex_request =
     \<lparr>rq_Method = ''GET'', rq_Path = ''/x'', rq_Headers = [(''Accept'', ''a'')], rq_Body = [255, 0]\<rparr>"

lemma ex_register_valid: "valid_Register ex_register"
  by (simp add: ex_register_def valid_Register_def valid_TunnelConfig_def int64_ok_def
      min_int64_def max_int64_def valid_utf8_ascii is_ascii_def)

lemma ex_request_valid: "valid_httpRequest ex_request"
  by (simp add: ex_request_def valid_httpRequest_def sorted_map_def valid_utf8_ascii is_ascii_def)

subsection \<open>Properties\<close>

text \<open>C16. Every control message whose strings are UTF-8 and whose numbers fit their types is read back
  by the peer exactly as it was sent, JSON and framing together, as long as its JSON is shorter than
  \<open>2 ^ 32\<close> bytes. For a control response this covers the field \<open>Data\<close> when it is \<open>nil\<close> (as in every
  response the gateway sends) or is built of strings, booleans and slices nested less deep than the
  parser's limit of 10000; numbers and structs in \<open>Data\<close>, which come back as \<open>float64\<close> and as maps, are
  not claimed.\<close>

theorem control_message_roundtrip:
  assumes "msg_valid m" "length (json_print (msg_json m)) < 2 ^ 32"
  shows "\<exists>frame. wire_message m = Inr frame \<and> read_message frame = Some m"
  using read_wire [OF assms] by (simp add: wire_message_def EncodeControlMessage_frame)

definition ex_data_response :: ControlResponse where
  "ex_data_response =
     \<lparr>cr_Code = CodeOK, cr_Message = ''ok'', cr_Data = Some (JArr [JStr ''app'', JBool True])\<rparr>"

theorem control_message_roundtrip_witness:
  "(\<exists>frame. wire_message (MRegister ex_register) = Inr frame
     \<and> read_message frame = Some (MRegister ex_register))
   \<and> (\<exists>frame. wire_message (MControlResponse ex_data_response) = Inr frame
     \<and> read_message frame = Some (MControlResponse ex_data_response))"
proof
  show "\<exists>frame. wire_message (MRegister ex_register) = Inr frame
     \<and> read_message frame = Some (MRegister ex_register)"
  proof (rule control_message_roundtrip)
    show "msg_valid (MRegister ex_register)" by (simp add: ex_register_valid)
    show "length (json_print (msg_json (MRegister ex_register))) < 2 ^ 32"
      by (simp add: ex_register_def enc_Register_def enc_TunnelConfig_def enc_ClientMetadata_def
          enc_int_def FormatInt_def FormatUint.simps escape_plain escape_free_def escape_ascii_def)
  qed
  show "\<exists>frame. wire_message (MControlResponse ex_data_response) = Inr frame
     \<and> read_message frame = Some (MControlResponse ex_data_response)"
    by (rule control_message_roundtrip)
      (simp_all add: ex_data_response_def valid_ControlResponse_def enc_ControlResponse_def enc_uint32_def
        max_depth_def CodeOK_def FormatUint.simps escape_plain escape_free_def escape_ascii_def
        valid_utf8_ascii is_ascii_def)
qed

text \<open>The request envelope of the gateway, wrapped in a \<open>stream_data\<close> message, reaches the tunnel
  client unchanged, whatever bytes its body holds, and the response envelope reaches the gateway
  unchanged, when paths and headers are UTF-8.\<close>

theorem envelope_roundtrip:
  assumes "valid_utf8 sid" "valid_httpRequest q" "valid_httpResponse p"
  shows "\<exists>d e. json_Marshal (enc_httpRequest q) = Inr d \<and> json_Marshal (enc_httpResponse p) = Inr e
    \<and> DecodeControlMessage dec_StreamData
        (bytes_of_string (json_print (enc_StreamData \<lparr>sd_StreamID = sid, sd_Data = d\<rparr>))) zero_StreamData
        = Inr \<lparr>sd_StreamID = sid, sd_Data = d\<rparr>
    \<and> json_Unmarshal_into dec_httpRequest d zero_httpRequest = Inr q
    \<and> json_Unmarshal_into dec_httpResponse e zero_httpResponse = Inr p"
proof (intro exI conjI)
  let ?d = "bytes_of_string (json_print (enc_httpRequest q))"
  show "json_Marshal (enc_httpRequest q) = Inr ?d" by (simp add: json_Marshal_def)
  show "json_Marshal (enc_httpResponse p) = Inr (bytes_of_string (json_print (enc_httpResponse p)))"
    by (simp add: json_Marshal_def)
  show "DecodeControlMessage dec_StreamData
      (bytes_of_string (json_print (enc_StreamData \<lparr>sd_StreamID = sid, sd_Data = ?d\<rparr>))) zero_StreamData
      = Inr \<lparr>sd_StreamID = sid, sd_Data = ?d\<rparr>"
    using assms(1) by (intro data_msg.decode_payload) (simp add: valid_StreamData_def)
  show "json_Unmarshal_into dec_httpRequest ?d zero_httpRequest = Inr q"
    using assms(2) by (rule http_request.unmarshal_marshal)
  show "json_Unmarshal_into dec_httpResponse (bytes_of_string (json_print (enc_httpResponse p)))
      zero_httpResponse = Inr p"
    using assms(3) by (rule http_response.unmarshal_marshal)
qed

theorem envelope_roundtrip_witness:
  "\<exists>d e. json_Marshal (enc_httpRequest ex_request) = Inr d
    \<and> json_Marshal (enc_httpResponse \<lparr>rs_StatusCode = 200, rs_Headers = [], rs_Body = [7]\<rparr>) = Inr e
    \<and> DecodeControlMessage dec_StreamData
        (bytes_of_string (json_print (enc_StreamData \<lparr>sd_StreamID = ''1'', sd_Data = d\<rparr>)))
        zero_StreamData = Inr \<lparr>sd_StreamID = ''1'', sd_Data = d\<rparr>
    \<and> json_Unmarshal_into dec_httpRequest d zero_httpRequest = Inr ex_request
    \<and> json_Unmarshal_into dec_httpResponse e zero_httpResponse
        = Inr \<lparr>rs_StatusCode = 200, rs_Headers = [], rs_Body = [7]\<rparr>"
  by (rule envelope_roundtrip)
    (simp_all add: ex_request_valid valid_httpResponse_def sorted_map_def int64_ok_def
      min_int64_def max_int64_def valid_utf8_ascii is_ascii_def)

text \<open>A header value that is not UTF-8 does not survive the envelope: it arrives with every byte that
  belongs to no well-formed encoding replaced by U+FFFD, while the body is not affected.\<close>

theorem envelope_replaces_invalid_utf8:
  assumes "valid_httpResponse p"
  shows "json_Unmarshal_into dec_httpResponse
     (bytes_of_string (json_print (enc_httpResponse (p\<lparr>rs_Headers := [(''X'', v)]\<rparr>)))) zero_httpResponse
     = Inr (p\<lparr>rs_Headers := [(''X'', sanitize v)]\<rparr>)"
proof -
  let ?r = "p\<lparr>rs_Headers := [(''X'', v)]\<rparr>"
  have i: "json_shape d (enc_int i)" "json_shape d (enc_bytes b)"
    "sanitize_json (enc_int i) = enc_int i" "sanitize_json (enc_bytes b) = enc_bytes b" for d i b
    by (auto simp: enc_int_def enc_bytes_def valid_utf8_b64 sanitize_valid)
  have "json_shape max_depth (enc_httpResponse ?r)"
    by (simp add: enc_httpResponse_def enc_string_map_def omitempty_def max_depth_def i)
  then have "json_Unmarshal (json_print (enc_httpResponse ?r))
      = Some (sanitize_json (enc_httpResponse ?r))"
    by (rule json_Unmarshal_sanitize)
  moreover have "sanitize_json (enc_httpResponse ?r)
      = enc_httpResponse (p\<lparr>rs_Headers := [(''X'', sanitize v)]\<rparr>)"
    by (simp add: enc_httpResponse_def enc_string_map_def omitempty_def i sanitize_valid json_codec
        valid_utf8_ascii is_ascii_def)
  moreover have "dec_httpResponse (enc_httpResponse (p\<lparr>rs_Headers := [(''X'', sanitize v)]\<rparr>))
      zero_httpResponse = Some (p\<lparr>rs_Headers := [(''X'', sanitize v)]\<rparr>)"
    using assms by (simp add: dec_httpResponse_def enc_httpResponse_def zero_httpResponse_def
        valid_httpResponse_def omitempty_def sorted_map_def struct_codec)
  ultimately show ?thesis by (simp add: json_Unmarshal_into_def)
qed

theorem envelope_replaces_invalid_utf8_witness:
  "json_Unmarshal_into dec_httpResponse
     (bytes_of_string (json_print (enc_httpResponse
        (\<lparr>rs_StatusCode = 200, rs_Headers = [], rs_Body = []\<rparr>\<lparr>rs_Headers := [(''X'', byte_string [233])]\<rparr>))))
     zero_httpResponse
   = Inr (\<lparr>rs_StatusCode = 200, rs_Headers = [], rs_Body = []\<rparr>\<lparr>rs_Headers := [(''X'', replacement)]\<rparr>)"
proof -
  have "rune_len (byte_string [233]) = 0"
    by (simp add: rune_len_def byte_string_def rune_size_def of_char_of)
  then have "sanitize (byte_string [233]) = replacement"
    by (subst sanitize.simps) (simp add: byte_string_def)
  then show ?thesis
    using envelope_replaces_invalid_utf8
      [of "\<lparr>rs_StatusCode = 200, rs_Headers = [], rs_Body = []\<rparr>" "byte_string [233]"]
    by (simp add: valid_httpResponse_def sorted_map_def int64_ok_def min_int64_def max_int64_def)
qed

end
