(* ===== verification/Http.thy ===== *)
theory Http
  imports Json_Codec
begin

text \<open>
  The part of \<open>net/http\<close> and \<open>net/url\<close> the handlers use: requests, headers with canonical keys, the
  response writer, query parameters and the routing of \<open>ServeMux\<close>.

  A handler either returns or panics; the server recovers the panic and drops the connection, so
  both are outcomes that carry the response written so far.
\<close>

subsection \<open>Headers\<close>

type_synonym http_header = "string \<rightharpoonup> string list"

text \<open>\<open>textproto.CanonicalMIMEHeaderKey\<close>: a key with a byte that no token has is left alone.\<close>

definition token_byte :: "char \<Rightarrow> bool" where
  "token_byte c \<longleftrightarrow>
     is_digit c \<or> byte_in c 65 90 \<or> byte_in c 97 122 \<or> c \<in> set ''!#$%&*+-.^_|~'' \<or> c = CHR 0x27
     \<or> c = CHR 0x60"

definition upper_byte :: "char \<Rightarrow> char" where
  "upper_byte c = (if byte_in c 97 122 then char_of ((of_char c :: nat) - 32) else c)"

fun canonical_rest :: "bool \<Rightarrow> string \<Rightarrow> string" where
  "canonical_rest up [] = []"
| "canonical_rest up (c # cs) =
     (if up then upper_byte c else lower_byte c) # canonical_rest (c = CHR ''-'') cs"

definition CanonicalHeaderKey :: "string \<Rightarrow> string" where
  "CanonicalHeaderKey k = (if list_all token_byte k then canonical_rest True k else k)"

definition header_Set :: "string \<Rightarrow> string \<Rightarrow> http_header \<Rightarrow> http_header" where
  "header_Set k v h = h(CanonicalHeaderKey k \<mapsto> [v])"

definition header_Del :: "string \<Rightarrow> http_header \<Rightarrow> http_header" where
  "header_Del k h = h(CanonicalHeaderKey k := None)"

definition header_Get :: "string \<Rightarrow> http_header \<Rightarrow> string" where
  "header_Get k h = (case h (CanonicalHeaderKey k) of Some (v # vs) \<Rightarrow> v | _ \<Rightarrow> [])"

subsection \<open>Requests\<close>

text \<open>
  What the server has parsed: \<open>r_RequestURI\<close> is \<open>r.URL.RequestURI()\<close>, \<open>r_EscapedPath\<close> is
  \<open>r.URL.EscapedPath()\<close>. The header is a Go map; \<open>r_HeaderKeys\<close> is the order in which a \<open>range\<close> over it
  visits the keys. \<open>r_Body\<close> is \<open>None\<close> when reading the body fails.
\<close>

record Request =
  r_Method :: string
  r_Host :: string
  r_Path :: string
  r_EscapedPath :: string
  r_RawQuery :: string
  r_RequestURI :: string
  r_Header :: http_header
  r_HeaderKeys :: "string list"
  r_Body :: "bytes option"
  r_RemoteAddr :: string

text \<open>\<open>for k, v := range r.Header { headers[k] = strings.Join(v, ", ") }\<close>, as two files have it.\<close>

definition join_headers :: "string list \<Rightarrow> http_header \<Rightarrow> string_map" where
  "join_headers ks h =
     foldl (\<lambda>m k. map_put k (case h k of None \<Rightarrow> [] | Some vs \<Rightarrow> Join vs '', '') m) [] ks"

text \<open>\<open>for k, v := range m { h.Set(k, v) }\<close>.\<close>

definition set_headers :: "string list \<Rightarrow> string_map \<Rightarrow> http_header \<Rightarrow> http_header" where
  "set_headers order m h =
     foldl (\<lambda>h k. case map_of m k of Some v \<Rightarrow> header_Set k v h | None \<Rightarrow> h) h order"

lemma set_headers_other:
  "(\<And>k. k \<in> set order \<Longrightarrow> CanonicalHeaderKey k \<noteq> x) \<Longrightarrow> set_headers order m h x = h x"
  unfolding set_headers_def
  by (induction order arbitrary: h) (auto simp: header_Set_def split: option.split)

lemma set_headers_get:
  assumes "k \<in> set order" "map_of m k = Some v" "distinct (map CanonicalHeaderKey order)"
  shows "header_Get k (set_headers order m h) = v"
proof -
  obtain pre post where o: "order = pre @ k # post" using assms(1) by (meson split_list)
  have notin: "CanonicalHeaderKey k \<notin> CanonicalHeaderKey ` set post" using assms(3) o by simp
  define h1 where "h1 = set_headers pre m h"
  have "set_headers order m h = set_headers post m (header_Set k v h1)"
    using assms(2) by (simp add: o set_headers_def h1_def)
  moreover have "set_headers post m (header_Set k v h1) (CanonicalHeaderKey k) = Some [v]"
  proof (subst set_headers_other)
    show "CanonicalHeaderKey l \<noteq> CanonicalHeaderKey k" if "l \<in> set post" for l
      using that notin by (metis image_eqI)
  qed (simp add: header_Set_def)
  ultimately show ?thesis by (simp add: header_Get_def)
qed

text \<open>When the names are canonical already, as those of a request that \<open>net/http\<close> has read, setting joined
  headers gives each of them its joined value and nothing else.\<close>

lemma set_headers_canonical:
  "list_all (\<lambda>k. CanonicalHeaderKey k = k) order \<Longrightarrow>
     set_headers order m h x =
       (if x \<in> set order then (case map_of m x of Some v \<Rightarrow> Some [v] | None \<Rightarrow> h x) else h x)"
  unfolding set_headers_def
  by (induction order rule: rev_induct) (auto simp: header_Set_def split: option.splits)

lemma map_of_join_headers:
  "map_of (join_headers ks h) k =
     (if k \<in> set ks then Some (case h k of None \<Rightarrow> [] | Some vs \<Rightarrow> Join vs '', '') else None)"
  unfolding join_headers_def by (induction ks rule: rev_induct) (auto simp: map_put_lookup)

lemma set_join_headers:
  assumes "dom h = set ks" "list_all (\<lambda>k. CanonicalHeaderKey k = k) ks" "set order = set ks"
  shows "set_headers order (join_headers ks h) Map.empty = (\<lambda>k. map_option (\<lambda>vs. [Join vs '', '']) (h k))"
proof
  fix x
  have "list_all (\<lambda>k. CanonicalHeaderKey k = k) order" using assms(2,3) by (simp add: list_all_iff)
  note set = set_headers_canonical [OF this, of "join_headers ks h" Map.empty x]
  have "x \<in> set ks \<longleftrightarrow> h x \<noteq> None" using assms(1) by (metis domIff)
  then show "set_headers order (join_headers ks h) Map.empty x = map_option (\<lambda>vs. [Join vs '', '']) (h x)"
    by (cases "h x") (simp_all add: set assms(3) map_of_join_headers)
qed

subsection \<open>Responses\<close>

record ResponseWriter =
  w_header :: http_header
  w_status :: "int option"
  w_sent :: http_header
  w_info :: "int list"
  w_body :: bytes

definition new_response :: ResponseWriter where
  "new_response =
     \<lparr>w_header = Map.empty, w_status = None, w_sent = Map.empty, w_info = [], w_body = []\<rparr>"

datatype 'a outcome = Returned 'a | Panicked 'a

fun outcome_bind :: "'a outcome \<Rightarrow> ('a \<Rightarrow> 'a outcome) \<Rightarrow> 'a outcome" where
  "outcome_bind (Returned x) f = f x"
| "outcome_bind (Panicked x) f = Panicked x"

text \<open>
  \<open>WriteHeader\<close> panics on a code outside 100 to 999. A second call is ignored. Informational codes
  other than 101 are sent at once and leave the final status open.
\<close>

definition WriteHeader :: "int \<Rightarrow> ResponseWriter \<Rightarrow> ResponseWriter outcome" where
  "WriteHeader code w =
     (if w_status w \<noteq> None then Returned w
      else if code < 100 \<or> 999 < code then Panicked w
      else if code \<le> 199 \<and> code \<noteq> 101 then Returned (w\<lparr>w_info := w_info w @ [code]\<rparr>)
      else Returned (w\<lparr>w_status := Some code, w_sent := w_header w\<rparr>))"

definition body_allowed :: "int \<Rightarrow> bool" where
  "body_allowed code \<longleftrightarrow> \<not> (100 \<le> code \<and> code \<le> 199) \<and> code \<noteq> 204 \<and> code \<noteq> 304"

text \<open>\<open>Write\<close> sends status 200 first when none was sent, and refuses a body the status does not allow.\<close>

definition Write :: "bytes \<Rightarrow> ResponseWriter \<Rightarrow> ResponseWriter outcome" where
  "Write data w =
     outcome_bind (WriteHeader 200 w)
       (\<lambda>w. case w_status w of
              Some code \<Rightarrow>
                (if body_allowed code then Returned (w\<lparr>w_body := w_body w @ data\<rparr>) else Returned w)
            | None \<Rightarrow> Returned w)"

text \<open>\<open>http.Error\<close>.\<close>

definition http_Error :: "string \<Rightarrow> int \<Rightarrow> ResponseWriter \<Rightarrow> ResponseWriter outcome" where
  "http_Error msg code w =
     (let h = header_Set ''X-Content-Type-Options'' ''nosniff''
                (header_Set ''Content-Type'' ''text/plain; charset=utf-8''
                  (header_Del ''Content-Length'' (w_header w)))
      in outcome_bind (WriteHeader code (w\<lparr>w_header := h\<rparr>))
           (Write (bytes_of_string (msg @ [char_of (10 :: nat)]))))"

text \<open>What the client sees: a handler that wrote nothing is answered with status 200.\<close>

definition final_status :: "ResponseWriter \<Rightarrow> int" where
  "final_status w = (case w_status w of Some c \<Rightarrow> c | None \<Rightarrow> 200)"

fun outcome_val :: "'a outcome \<Rightarrow> 'a" where
  "outcome_val (Returned x) = x"
| "outcome_val (Panicked x) = x"

fun is_panic :: "'a outcome \<Rightarrow> bool" where
  "is_panic (Returned x) \<longleftrightarrow> False"
| "is_panic (Panicked x) \<longleftrightarrow> True"

lemma http_Error_fresh:
  assumes "w_status w = None" "400 \<le> code" "code \<le> 599"
  shows "\<exists>w'. http_Error msg code w = Returned w' \<and> w_status w' = Some code
    \<and> w_body w' = w_body w @ bytes_of_string (msg @ [char_of (10 :: nat)])
    \<and> w_info w' = w_info w
    \<and> header_Get ''Content-Type'' (w_sent w') = ''text/plain; charset=utf-8''"
proof -
  have "CanonicalHeaderKey ''X-Content-Type-Options'' \<noteq> CanonicalHeaderKey ''Content-Type''"
    by code_simp
  with assms show ?thesis
    by (simp add: http_Error_def WriteHeader_def Write_def body_allowed_def Let_def header_Get_def
        header_Set_def)
qed

subsection \<open>Query parameters\<close>

fun unescape_query :: "string \<Rightarrow> string option" where
  "unescape_query [] = Some []"
| "unescape_query (c # s) =
     (if c = CHR ''%'' then
        (case s of
           a # b # r \<Rightarrow>
             (case (hex_val a, hex_val b, unescape_query r) of
                (Some h, Some l, Some t) \<Rightarrow> Some (char_of (16 * h + l) # t)
              | _ \<Rightarrow> None)
         | _ \<Rightarrow> None)
      else map_option ((#) (if c = CHR ''+'' then CHR '' '' else c)) (unescape_query s))"

fun split_byte :: "char \<Rightarrow> string \<Rightarrow> string list" where
  "split_byte c [] = [[]]"
| "split_byte c (x # s) =
     (if x = c then [] # split_byte c s
      else case split_byte c s of [] \<Rightarrow> [[x]] | t # ts \<Rightarrow> (x # t) # ts)"

text \<open>One \<open>key=value\<close> pair; a pair that is empty, holds a semicolon or does not unescape is skipped.\<close>

definition query_pair :: "string \<Rightarrow> (string \<times> string) option" where
  "query_pair s =
     (if s = [] \<or> CHR '';'' \<in> set s then None
      else
        (let (k, v) = (case SplitN2 s (CHR ''='') of [a, b] \<Rightarrow> (a, b) | _ \<Rightarrow> (s, []))
         in case (unescape_query k, unescape_query v) of
              (Some k', Some v') \<Rightarrow> Some (k', v')
            | _ \<Rightarrow> None))"

text \<open>\<open>r.URL.Query().Get(name)\<close>.\<close>

definition query_Get :: "string \<Rightarrow> string \<Rightarrow> string" where
  "query_Get raw name =
     (case map_of (List.map_filter query_pair (split_byte (CHR ''&'') raw)) name of
        Some v \<Rightarrow> v
      | None \<Rightarrow> [])"

subsection \<open>Routing\<close>

text \<open>\<open>path.Clean\<close> of a rooted path, on its elements.\<close>

fun clean_elems :: "string list \<Rightarrow> string list \<Rightarrow> string list" where
  "clean_elems acc [] = rev acc"
| "clean_elems acc (e # es) =
     (if e = [] \<or> e = ''.'' then clean_elems acc es
      else if e = ''..'' then clean_elems (tl acc) es
      else clean_elems (e # acc) es)"

definition cleanPath :: "string \<Rightarrow> string" where
  "cleanPath p0 =
     (if p0 = [] then ''/''
      else
        (let p = (if hd p0 = CHR ''/'' then p0 else CHR ''/'' # p0);
             np = CHR ''/'' # Join (clean_elems [] (split_byte (CHR ''/'') p)) ''/''
         in if last p = CHR ''/'' \<and> np \<noteq> ''/'' then np @ ''/'' else np))"

text \<open>The segments of a clean path, unescaped one by one; a trailing slash gives an empty last one.\<close>

fun unescape_path :: "string \<Rightarrow> string option" where
  "unescape_path [] = Some []"
| "unescape_path (c # s) =
     (if c = CHR ''%'' then
        (case s of
           a # b # r \<Rightarrow>
             (case (hex_val a, hex_val b, unescape_path r) of
                (Some h, Some l, Some t) \<Rightarrow> Some (char_of (16 * h + l) # t)
              | _ \<Rightarrow> None)
         | _ \<Rightarrow> None)
      else map_option ((#) c) (unescape_path s))"

definition path_segments :: "string \<Rightarrow> string list" where
  "path_segments p =
     map (\<lambda>e. case unescape_path e of Some t \<Rightarrow> t | None \<Rightarrow> e) (tl (split_byte (CHR ''/'') p))"

text \<open>
  A pattern without wildcards is its segments and whether it ends in a slash, which makes it match
  every path below. The most specific pattern wins.
\<close>

type_synonym 'h mux = "(string list \<times> bool \<times> 'h) list"

definition subtree_matches :: "'h mux \<Rightarrow> string list \<Rightarrow> (string list \<times> bool \<times> 'h) list" where
  "subtree_matches pats segs =
     filter (\<lambda>(p, sub, h). sub \<and> length p < length segs \<and> take (length p) segs = p) pats"

fun longest :: "(string list \<times> bool \<times> 'h) list \<Rightarrow> 'h option" where
  "longest [] = None"
| "longest ((p, sub, h) # ps) =
     (case longest ps of
        None \<Rightarrow> Some h
      | Some g \<Rightarrow> (if list_all (\<lambda>(q, _). length q \<le> length p) ps then Some h else Some g))"

definition mux_exact :: "'h mux \<Rightarrow> string list \<Rightarrow> 'h option" where
  "mux_exact pats segs =
     map_option (snd \<circ> snd) (List.find (\<lambda>(p, sub, h). \<not> sub \<and> p = segs) pats)"

definition mux_find :: "'h mux \<Rightarrow> string list \<Rightarrow> 'h option" where
  "mux_find pats segs =
     (case mux_exact pats segs of
        Some h \<Rightarrow> Some h
      | None \<Rightarrow> longest (subtree_matches pats segs))"

datatype 'h routed = Route 'h | Redirect string | NotFound

text \<open>
  \<open>ServeMux\<close>: a path that only lacks the trailing slash of a subtree pattern, and a path that is not
  clean, are redirected; \<open>CONNECT\<close> requests are matched as they are.
\<close>

definition mux_route :: "'h mux \<Rightarrow> Request \<Rightarrow> 'h routed" where
  "mux_route pats r =
     (let esc = r_EscapedPath r;
          p = (if r_Method r = ''CONNECT'' then esc else cleanPath esc);
          segs = path_segments p
      in if mux_exact pats segs = None \<and> list_ex (\<lambda>(q, sub, h). sub \<and> q = segs) pats
         then Redirect (p @ ''/'')
         else if p \<noteq> esc then Redirect p
         else case mux_find pats segs of Some h \<Rightarrow> Route h | None \<Rightarrow> NotFound)"

end
