(* ===== verification/Proxy.thy ===== *)
theory Proxy
  imports Registry Broker Metrics Messages Http
begin

text \<open>
  \<open>internal/proxy/proxy.go\<close>: the public side of the gateway. The proxy shares the registry, the
  broker, the metrics and the client sockets with the server, so they are one state, \<open>Gateway\<close>. The
  handler waits in a \<open>select\<close>, during which other handlers run; it is therefore two functions,
  \<open>proxy_begin\<close> up to the wait and \<open>proxy_finish\<close> for the case the \<open>select\<close> takes, where
  \<open>select_ready\<close> says which cases can be taken (the language chooses among them). The deferred
  \<open>CloseStream\<close> runs on every way out, panics included. \<open>uni\<close> lower-cases strings that are not ASCII;
  the loop over the response headers takes its order as an argument.
\<close>

subsection \<open>State\<close>

record Gateway =
  gw_registry :: MemoryRegistry
  gw_broker :: Broker
  gw_metrics :: Metrics
  gw_ws :: ws_log

record Proxy =
  px_publicHostname :: string

definition NewProxy :: Proxy where
  "NewProxy = \<lparr>px_publicHostname = []\<rparr>"

definition SetPublicHostname :: "Proxy \<Rightarrow> string \<Rightarrow> Proxy" where
  "SetPublicHostname p hostname = p\<lparr>px_publicHostname := hostname\<rparr>"

definition defaultTimeout :: duration where
  "defaultTimeout = dur_mult 30 Second"

subsection \<open>The subdomain of a request\<close>

definition strip_port :: "string \<Rightarrow> string" where
  "strip_port host =
     (case LastIndexByte host (CHR '':'') of
        None \<Rightarrow> host
      | Some idx \<Rightarrow> (case Atoi (drop (Suc idx) host) of Some p \<Rightarrow> take idx host | None \<Rightarrow> host))"

definition extractSubdomain :: "(string \<Rightarrow> string) \<Rightarrow> string \<Rightarrow> string \<Rightarrow> string" where
  "extractSubdomain uni host0 publicHostname0 =
     (let host = ToLower uni (TrimSpace (strip_port host0));
          publicHostname = ToLower uni (TrimSpace publicHostname0);
          suffix = ''.'' @ publicHostname
      in if publicHostname = [] then []
         else if \<not> HasSuffix host suffix then []
         else
           (let subdomain = TrimSuffix host suffix
            in if subdomain = [] then []
               else if ContainsByte subdomain (CHR ''.'') then []
               else subdomain))"

subsection \<open>Up to the wait\<close>

datatype proxy_phase = Answered "ResponseWriter outcome" | Waiting conn_ref stream_ref

text \<open>\<open>http.Error\<close> followed by \<open>IncRequests\<close>, as every early return has it.\<close>

definition proxy_fail ::
  "string \<Rightarrow> int \<Rightarrow> string \<Rightarrow> Request \<Rightarrow> Gateway \<Rightarrow> ResponseWriter \<Rightarrow> ResponseWriter outcome \<times> Gateway"
where
  "proxy_fail msg code label r g w =
     (case http_Error msg code w of
        Panicked w' \<Rightarrow> (Panicked w', g)
      | Returned w' \<Rightarrow>
          (Returned w', g\<lparr>gw_metrics := IncRequests label (r_Method r) (gw_metrics g)\<rparr>))"

definition close_stream :: "conn_ref \<Rightarrow> 32 word \<Rightarrow> Gateway \<Rightarrow> Gateway" where
  "close_stream c sid g = g\<lparr>gw_broker := br_CloseStream (gw_broker g) c sid\<rparr>"

definition proxy_abort ::
  "conn_ref \<Rightarrow> 32 word \<Rightarrow> string \<Rightarrow> int \<Rightarrow> string \<Rightarrow> Request \<Rightarrow> Gateway \<Rightarrow> ResponseWriter
     \<Rightarrow> ResponseWriter outcome \<times> Gateway"
where
  "proxy_abort c sid msg code label r g w =
     (let (res, g') = proxy_fail msg code label r g w in (res, close_stream c sid g'))"

definition gw_send :: "write_ok \<Rightarrow> conn_ref \<Rightarrow> bytes \<Rightarrow> Gateway \<Rightarrow> bool \<times> Gateway" where
  "gw_send wok c data g =
     (let (ok, L) = br_SendMessage wok (gw_broker g) c data (gw_ws g) in (ok, g\<lparr>gw_ws := L\<rparr>))"

definition open_message :: "32 word \<Rightarrow> Tunnel \<Rightarrow> Request \<Rightarrow> OpenStream" where
  "open_message sid t r =
     \<lparr>os_Type = ''open_stream'', os_StreamID = FormatUint (unat sid), os_TargetTunnel = tun_ID t,
      os_Metadata = \<lparr>sm_Method = r_Method r, sm_Path = r_RequestURI r\<rparr>\<rparr>"

definition request_envelope :: "Request \<Rightarrow> bytes \<Rightarrow> httpRequest" where
  "request_envelope r body =
     \<lparr>rq_Method = r_Method r, rq_Path = r_RequestURI r,
      rq_Headers = join_headers (r_HeaderKeys r) (r_Header r), rq_Body = body\<rparr>"

text \<open>From reading the request body to the wait, on stream \<open>ref\<close> with ID \<open>sid\<close>.\<close>

definition proxy_send_request ::
  "write_ok \<Rightarrow> conn_ref \<Rightarrow> stream_ref \<Rightarrow> 32 word \<Rightarrow> Gateway \<Rightarrow> Request \<Rightarrow> ResponseWriter
     \<Rightarrow> proxy_phase \<times> Gateway"
where
  "proxy_send_request wok c ref sid g r w =
     (let fail = (\<lambda>g. let (res, g') = proxy_abort c sid ''502 Bad Gateway'' 502 ''502'' r g w
                      in (Answered res, g'))
      in case r_Body r of
           None \<Rightarrow> fail g
         | Some body \<Rightarrow>
             (case json_Marshal (enc_httpRequest (request_envelope r body)) of
                Inl e \<Rightarrow> fail g
              | Inr reqData \<Rightarrow>
                  (case EncodeControlMessage FrameStreamData
                          (enc_StreamData \<lparr>sd_StreamID = FormatUint (unat sid), sd_Data = reqData\<rparr>) of
                     Inl e \<Rightarrow> fail g
                   | Inr dataFrame \<Rightarrow>
                       (let (ok, g') = gw_send wok c dataFrame g
                        in if \<not> ok then fail g'
                           else (Waiting c ref,
                                 g'\<lparr>gw_metrics := AddBytesSent (length reqData) (gw_metrics g')\<rparr>)))))"

definition proxy_open ::
  "write_ok \<Rightarrow> conn_ref \<Rightarrow> Tunnel \<Rightarrow> Gateway \<Rightarrow> Request \<Rightarrow> ResponseWriter \<Rightarrow> proxy_phase \<times> Gateway"
where
  "proxy_open wok c t g0 r w =
     (let (ref, b) = br_OpenStream (gw_broker g0) c (tun_ID t);
          g = g0\<lparr>gw_broker := b\<rparr>;
          sid = (case stream_heap b ref of Some s \<Rightarrow> st_ID s | None \<Rightarrow> 0);
          fail = (\<lambda>g. let (res, g') = proxy_abort c sid ''502 Bad Gateway'' 502 ''502'' r g w
                      in (Answered res, g'))
      in case EncodeControlMessage FrameOpenStream (enc_OpenStream (open_message sid t r)) of
           Inl e \<Rightarrow> fail g
         | Inr openFrame \<Rightarrow>
             (let (ok, g') = gw_send wok c openFrame g
              in if \<not> ok then fail g' else proxy_send_request wok c ref sid g' r w))"

definition proxy_begin ::
  "(string \<Rightarrow> string) \<Rightarrow> write_ok \<Rightarrow> Proxy \<Rightarrow> Gateway \<Rightarrow> Request \<Rightarrow> ResponseWriter \<Rightarrow> proxy_phase \<times> Gateway"
where
  "proxy_begin uni wok px g r w =
     (let subdomain = extractSubdomain uni (r_Host r) (px_publicHostname px);
          fail = (\<lambda>msg. let (res, g') = proxy_fail msg 502 ''502'' r g w in (Answered res, g'))
      in if subdomain = [] then fail ''502 Bad Gateway: unable to determine tunnel''
         else case mr_GetBySubdomain (gw_registry g) subdomain of
             Inl e \<Rightarrow> fail ''502 Bad Gateway: tunnel not found''
           | Inr tunnel \<Rightarrow>
               (case br_GetConnectionBySubdomain (gw_broker g) subdomain of
                  None \<Rightarrow> fail ''502 Bad Gateway: tunnel client not connected''
                | Some c \<Rightarrow>
                    (case tunnel of
                       None \<Rightarrow> (Answered (Panicked w), g)
                     | Some t \<Rightarrow> proxy_open wok c t g r w)))"

subsection \<open>After the wait\<close>

datatype select_case = GotResponse bytes | StreamDone | TimedOut

definition select_ready :: "Broker \<Rightarrow> stream_ref \<Rightarrow> select_case \<Rightarrow> bool" where
  "select_ready b ref sc =
     (case stream_heap b ref of
        None \<Rightarrow> False
      | Some s \<Rightarrow>
          (case sc of
             GotResponse d \<Rightarrow> st_Response s \<noteq> [] \<and> hd (st_Response s) = d
           | StreamDone \<Rightarrow> st_Done s
           | TimedOut \<Rightarrow> True))"

definition take_response :: "stream_ref \<Rightarrow> Broker \<Rightarrow> Broker" where
  "take_response ref b =
     b\<lparr>stream_heap := (stream_heap b)(ref :=
        map_option (\<lambda>s. s\<lparr>st_Response := tl (st_Response s)\<rparr>) (stream_heap b ref))\<rparr>"

definition proxy_respond ::
  "string list \<Rightarrow> conn_ref \<Rightarrow> 32 word \<Rightarrow> httpResponse \<Rightarrow> Gateway \<Rightarrow> Request \<Rightarrow> ResponseWriter
     \<Rightarrow> ResponseWriter outcome \<times> Gateway"
where
  "proxy_respond order c sid resp g r w0 =
     (let w = w0\<lparr>w_header := set_headers order (rs_Headers resp) (w_header w0)\<rparr>;
          statusCode = rs_StatusCode resp
      in if statusCode = 0 then
           proxy_abort c sid ''502 Bad Gateway: invalid response status'' 502 ''502'' r g w
         else
           (case outcome_bind (WriteHeader statusCode w)
                   (\<lambda>w. if rs_Body resp \<noteq> [] then Write (rs_Body resp) w else Returned w) of
              Panicked w' \<Rightarrow> (Panicked w', close_stream c sid g)
            | Returned w' \<Rightarrow>
                (Returned w',
                 close_stream c sid
                   (g\<lparr>gw_metrics := IncRequests (FormatInt statusCode) (r_Method r) (gw_metrics g)\<rparr>))))"

definition proxy_finish ::
  "string list \<Rightarrow> select_case \<Rightarrow> conn_ref \<Rightarrow> stream_ref \<Rightarrow> Gateway \<Rightarrow> Request \<Rightarrow> ResponseWriter
     \<Rightarrow> ResponseWriter outcome \<times> Gateway"
where
  "proxy_finish order sc c ref g r w =
     (let sid = (case stream_heap (gw_broker g) ref of Some s \<Rightarrow> st_ID s | None \<Rightarrow> 0)
      in case sc of
           StreamDone \<Rightarrow> proxy_abort c sid ''502 Bad Gateway: stream closed'' 502 ''502'' r g w
         | TimedOut \<Rightarrow> proxy_abort c sid ''504 Gateway Timeout'' 504 ''504'' r g w
         | GotResponse respData \<Rightarrow>
             (let g' = g\<lparr>gw_broker := take_response ref (gw_broker g),
                         gw_metrics := AddBytesRecv (length respData) (gw_metrics g)\<rparr>
              in case json_Unmarshal_into dec_httpResponse respData zero_httpResponse of
                   Inl e \<Rightarrow> proxy_abort c sid ''502 Bad Gateway: invalid response'' 502 ''502'' r g' w
                 | Inr resp \<Rightarrow> proxy_respond order c sid resp g' r w))"

subsection \<open>Subdomains\<close>

lemma strip_port_plain: "CHR '':'' \<notin> set host \<Longrightarrow> strip_port host = host"
  using LastIndexByte_None [of host "CHR '':''"] by (simp add: strip_port_def)

lemma strip_port_number:
  "CHR '':'' \<notin> set p \<Longrightarrow> Atoi p = Some n \<Longrightarrow> strip_port (host @ CHR '':'' # p) = host"
  by (simp add: strip_port_def LastIndexByte_append)

lemma extractSubdomain_Some:
  assumes "extractSubdomain uni host pub = sub" "sub \<noteq> []"
  shows "ToLower uni (TrimSpace (strip_port host)) = sub @ ''.'' @ ToLower uni (TrimSpace pub)
    \<and> CHR ''.'' \<notin> set sub \<and> ToLower uni (TrimSpace pub) \<noteq> []"
proof -
  let ?h = "ToLower uni (TrimSpace (strip_port host))" and ?p = "ToLower uni (TrimSpace pub)"
  have c: "?p \<noteq> []" "HasSuffix ?h (''.'' @ ?p)" "TrimSuffix ?h (''.'' @ ?p) = sub"
    "\<not> ContainsByte sub (CHR ''.'')"
    using assms by (auto simp: extractSubdomain_def Let_def split: if_splits)
  obtain t where t: "?h = t @ ''.'' @ ?p" using c(2) by (auto simp: HasSuffix_iff)
  then have "sub = t" using c(3) TrimSuffix_append [of t "''.'' @ ?p"] by simp
  with t c show ?thesis by (simp add: ContainsByte_def)
qed

lemma extractSubdomain_intro:
  assumes "ToLower uni (TrimSpace (strip_port host)) = sub @ ''.'' @ ToLower uni (TrimSpace pub)"
    and "ToLower uni (TrimSpace pub) \<noteq> []" "CHR ''.'' \<notin> set sub" "sub \<noteq> []"
  shows "extractSubdomain uni host pub = sub"
  unfolding extractSubdomain_def Let_def assms(1)
  using assms(2-4) HasSuffix_append [of sub "''.'' @ ToLower uni (TrimSpace pub)"]
    TrimSuffix_append [of sub "''.'' @ ToLower uni (TrimSpace pub)"]
  by (simp add: ContainsByte_def)

text \<open>A host name as browsers send it, and an optional port.\<close>

definition plain_host :: "string \<Rightarrow> bool" where
  "plain_host h \<longleftrightarrow> h \<noteq> [] \<and> list_all (\<lambda>c. visible c \<and> c \<noteq> CHR '':'') h"

definition port_suffix :: "string \<Rightarrow> bool" where
  "port_suffix s \<longleftrightarrow> s = [] \<or> hd s = CHR '':'' \<and> CHR '':'' \<notin> set (tl s) \<and> Atoi (tl s) \<noteq> None"

lemma ToLower_plain_host:
  assumes "plain_host h"
  shows "ToLower uni (TrimSpace h) = map lower_byte h"
proof -
  have "visible (hd h)" "visible (last h)" "h \<noteq> []"
    using assms by (auto simp: plain_host_def list_all_iff)
  moreover have "is_ascii h"
    using assms by (auto simp: plain_host_def is_ascii_def list_all_iff visible_def)
  ultimately show ?thesis by (simp add: TrimSpace_visible ToLower_def)
qed

lemma strip_port_suffix: "plain_host h \<Longrightarrow> port_suffix p \<Longrightarrow> strip_port (h @ p) = h"
proof -
  assume h: "plain_host h" and p: "port_suffix p"
  then have "CHR '':'' \<notin> set h" by (auto simp: plain_host_def list_all_iff)
  with p show ?thesis
    by (cases p) (auto simp: port_suffix_def strip_port_plain strip_port_number)
qed

subsection \<open>Sending\<close>

lemma gw_send_fields [simp]:
  "gw_registry (snd (gw_send wok c d g)) = gw_registry g"
  "gw_broker (snd (gw_send wok c d g)) = gw_broker g"
  "gw_metrics (snd (gw_send wok c d g)) = gw_metrics g"
  by (simp_all add: gw_send_def split: prod.split)

lemma gw_send_state:
  assumes "gw_send wok c d g = (ok, g')"
  shows "gw_registry g' = gw_registry g" "gw_broker g' = gw_broker g" "gw_metrics g' = gw_metrics g"
  using gw_send_fields [of wok c d g] assms by simp_all

lemma gw_send_received:
  assumes "conn_heap (gw_broker g) c = Some conn" "gw_send wok c d g = (True, g')"
  shows "ws_received (gw_ws g') (cc_WS conn) = ws_received (gw_ws g) (cc_WS conn) @ [d]"
  using assms by (auto simp: gw_send_def br_SendMessage_def ws_WriteMessage_def Let_def ws_received_def)

lemma proxy_fail_fields [simp]:
  "gw_registry (snd (proxy_fail m code l r g w)) = gw_registry g"
  "gw_broker (snd (proxy_fail m code l r g w)) = gw_broker g"
  "gw_ws (snd (proxy_fail m code l r g w)) = gw_ws g"
  by (simp_all add: proxy_fail_def split: outcome.split)

lemma proxy_fail_returns:
  assumes "w_status w = None" "400 \<le> code" "code \<le> 599"
  shows "\<exists>w'. proxy_fail m code l r g w
      = (Returned w', g\<lparr>gw_metrics := IncRequests l (r_Method r) (gw_metrics g)\<rparr>)
    \<and> w_status w' = Some code"
  using http_Error_fresh [OF assms, of m] by (auto simp: proxy_fail_def)

lemma proxy_abort_returns:
  assumes "w_status w = None" "400 \<le> code" "code \<le> 599"
  shows "\<exists>w'. proxy_abort c sid m code l r g w
      = (Returned w', close_stream c sid (g\<lparr>gw_metrics := IncRequests l (r_Method r) (gw_metrics g)\<rparr>))
    \<and> w_status w' = Some code"
  using proxy_fail_returns [OF assms, of m l r g] by (auto simp: proxy_abort_def)

lemma close_stream_fields [simp]:
  "gw_registry (close_stream c sid g) = gw_registry g"
  "gw_metrics (close_stream c sid g) = gw_metrics g"
  "gw_ws (close_stream c sid g) = gw_ws g"
  "gw_broker (close_stream c sid g) = br_CloseStream (gw_broker g) c sid"
  by (simp_all add: close_stream_def)

lemma proxy_abort_fields [simp]:
  "gw_registry (snd (proxy_abort c sid m code l r g w)) = gw_registry g"
  "gw_broker (snd (proxy_abort c sid m code l r g w)) = br_CloseStream (gw_broker g) c sid"
  by (simp_all add: proxy_abort_def Let_def case_prod_unfold)

lemma br_OpenStream_stream:
  assumes "br_OpenStream b c tid = (ref, b')"
  shows "(case stream_heap b' ref of Some s \<Rightarrow> st_ID s | None \<Rightarrow> 0) = nextStreamID b + 1"
  using assms by (auto simp: br_OpenStream_def Let_def)

lemma br_OpenStream_conn:
  assumes "br_OpenStream b c tid = (ref, b')" "conn_heap b c = Some conn"
  shows "\<exists>conn'. conn_heap b' c = Some conn' \<and> cc_WS conn' = cc_WS conn"
  using assms by (auto simp: br_OpenStream_def Let_def)

lemma proxy_send_request_waiting:
  assumes "proxy_send_request wok c ref sid g r w = (Waiting c' ref', g')"
  obtains body reqData g1 where "r_Body r = Some body"
    and "reqData = bytes_of_string (json_print (enc_httpRequest (request_envelope r body)))"
    and "gw_send wok c (EncodeFrame FrameStreamData (bytes_of_string (json_print
          (enc_StreamData \<lparr>sd_StreamID = FormatUint (unat sid), sd_Data = reqData\<rparr>)))) g = (True, g1)"
    and "g' = g1\<lparr>gw_metrics := AddBytesSent (length reqData) (gw_metrics g1)\<rparr>" "c' = c" "ref' = ref"
proof (cases "r_Body r")
  case None
  with assms show thesis by (simp add: proxy_send_request_def Let_def split: prod.splits)
next
  case (Some body)
  let ?d = "bytes_of_string (json_print (enc_httpRequest (request_envelope r body)))"
  let ?f = "EncodeFrame FrameStreamData (bytes_of_string (json_print
          (enc_StreamData \<lparr>sd_StreamID = FormatUint (unat sid), sd_Data = ?d\<rparr>)))"
  obtain ok g1 where s: "gw_send wok c ?f g = (ok, g1)" by (metis surj_pair)
  have "ok \<and> (Waiting c ref, g1\<lparr>gw_metrics := AddBytesSent (length ?d) (gw_metrics g1)\<rparr>)
      = (Waiting c' ref', g')"
    using assms
    by (simp add: proxy_send_request_def Some json_Marshal_def EncodeControlMessage_frame Let_def s
        split: if_splits prod.splits del: length_bytes_of_string)
  with that [OF Some refl] s show thesis by simp
qed

lemma proxy_open_waiting:
  assumes "proxy_open wok c t g r w = (Waiting c' ref', g')"
  obtains b g1 where "br_OpenStream (gw_broker g) c (tun_ID t) = (ref', b)" "c' = c"
    and "gw_send wok c (EncodeFrame FrameOpenStream (bytes_of_string (json_print
          (enc_OpenStream (open_message (nextStreamID (gw_broker g) + 1) t r))))) (g\<lparr>gw_broker := b\<rparr>)
        = (True, g1)"
    and "proxy_send_request wok c ref' (nextStreamID (gw_broker g) + 1) g1 r w = (Waiting c ref', g')"
proof -
  obtain ref b where o: "br_OpenStream (gw_broker g) c (tun_ID t) = (ref, b)" by (metis surj_pair)
  note sid = br_OpenStream_stream [OF o]
  let ?f = "EncodeFrame FrameOpenStream (bytes_of_string (json_print
          (enc_OpenStream (open_message (nextStreamID (gw_broker g) + 1) t r))))"
  obtain ok g1 where s: "gw_send wok c ?f (g\<lparr>gw_broker := b\<rparr>) = (ok, g1)" by (metis surj_pair)
  have ok: "ok" and req: "proxy_send_request wok c ref (nextStreamID (gw_broker g) + 1) g1 r w
      = (Waiting c' ref', g')"
    using assms
    by (auto simp: proxy_open_def o sid s EncodeControlMessage_frame Let_def split: if_splits prod.splits)
  then have "c' = c" "ref' = ref" by (auto elim: proxy_send_request_waiting)
  with that o s ok req show thesis by simp
qed

lemma proxy_begin_waiting:
  assumes "proxy_begin uni wok px g r w = (Waiting c ref, g')"
  obtains t where "mr_GetBySubdomain (gw_registry g)
      (extractSubdomain uni (r_Host r) (px_publicHostname px)) = Inr (Some t)"
    and "br_GetConnectionBySubdomain (gw_broker g)
      (extractSubdomain uni (r_Host r) (px_publicHostname px)) = Some c"
    and "proxy_open wok c t g r w = (Waiting c ref, g')"
proof -
  let ?s = "extractSubdomain uni (r_Host r) (px_publicHostname px)"
  obtain t d where *: "mr_GetBySubdomain (gw_registry g) ?s = Inr (Some t)"
    "br_GetConnectionBySubdomain (gw_broker g) ?s = Some d" "proxy_open wok d t g r w = (Waiting c ref, g')"
    using assms
    by (auto simp: proxy_begin_def Let_def split: if_splits sum.splits option.splits prod.splits)
  then have "c = d" by (auto elim: proxy_open_waiting)
  with * that show thesis by simp
qed

subsection \<open>Streams left open\<close>

text \<open>No stream is listed that was not listed before.\<close>

definition no_new_streams :: "Gateway \<Rightarrow> Gateway \<Rightarrow> bool" where
  "no_new_streams g g' \<longleftrightarrow>
     (\<forall>d i q. open_on (gw_broker g') d i = Some q \<longrightarrow> open_on (gw_broker g) d i = Some q)"

lemma proxy_send_request_answered:
  assumes "proxy_send_request wok c ref sid g r w = (Answered res, g')"
  shows "gw_broker g' = br_CloseStream (gw_broker g) c sid"
proof (cases "r_Body r")
  case None
  with assms show ?thesis
    by (auto simp: proxy_send_request_def Let_def case_prod_unfold)
next
  case (Some body)
  let ?d = "bytes_of_string (json_print (enc_httpRequest (request_envelope r body)))"
  let ?f = "EncodeFrame FrameStreamData (bytes_of_string (json_print
          (enc_StreamData \<lparr>sd_StreamID = FormatUint (unat sid), sd_Data = ?d\<rparr>)))"
  have b: "gw_broker (snd (gw_send wok c ?f g)) = gw_broker g" by simp
  obtain ok g1 where s: "gw_send wok c ?f g = (ok, g1)" by (metis surj_pair)
  have "g' = snd (proxy_abort c sid ''502 Bad Gateway'' 502 ''502'' r g1 w)"
    using assms
    by (simp add: proxy_send_request_def Some json_Marshal_def EncodeControlMessage_frame Let_def s
        split: if_splits prod.splits)
  with b s show ?thesis by simp
qed

lemma proxy_open_answered:
  assumes "proxy_open wok c t g r w = (Answered res, g')"
  obtains ref b where "br_OpenStream (gw_broker g) c (tun_ID t) = (ref, b)"
    and "gw_broker g' = br_CloseStream b c (nextStreamID (gw_broker g) + 1)"
proof -
  obtain ref b where o: "br_OpenStream (gw_broker g) c (tun_ID t) = (ref, b)" by (metis surj_pair)
  note sid = br_OpenStream_stream [OF o]
  let ?f = "EncodeFrame FrameOpenStream (bytes_of_string (json_print
          (enc_OpenStream (open_message (nextStreamID (gw_broker g) + 1) t r))))"
  have b: "gw_broker (snd (gw_send wok c ?f (g\<lparr>gw_broker := b\<rparr>))) = b" by simp
  obtain ok g1 where s: "gw_send wok c ?f (g\<lparr>gw_broker := b\<rparr>) = (ok, g1)" by (metis surj_pair)
  have "gw_broker g' = br_CloseStream (gw_broker g1) c (nextStreamID (gw_broker g) + 1)"
  proof (cases ok)
    case True
    with assms have "proxy_send_request wok c ref (nextStreamID (gw_broker g) + 1) g1 r w = (Answered res, g')"
      by (simp add: proxy_open_def o sid s EncodeControlMessage_frame Let_def)
    then show ?thesis by (rule proxy_send_request_answered)
  next
    case False
    with assms have "g' = snd (proxy_abort c (nextStreamID (gw_broker g) + 1) ''502 Bad Gateway'' 502
        ''502'' r g1 w)"
      by (simp add: proxy_open_def o sid s EncodeControlMessage_frame Let_def split: prod.splits)
    then show ?thesis by simp
  qed
  with b s o that show thesis by simp
qed

lemma proxy_begin_answered:
  assumes "proxy_begin uni wok px g r w = (Answered res, g')"
  shows "no_new_streams g g'"
proof -
  have "gw_broker g' = gw_broker g \<or> (\<exists>c t. proxy_open wok c t g r w = (Answered res, g'))"
    using assms
    by (auto simp: proxy_begin_def Let_def case_prod_unfold split: if_splits sum.splits option.splits)
  then show ?thesis
  proof (elim disjE exE)
    fix c t assume "proxy_open wok c t g r w = (Answered res, g')"
    then obtain ref b where o: "br_OpenStream (gw_broker g) c (tun_ID t) = (ref, b)"
      and b: "gw_broker g' = br_CloseStream b c (nextStreamID (gw_broker g) + 1)"
      by (rule proxy_open_answered)
    have "stream_id b ref = Some (nextStreamID (gw_broker g) + 1)" by (simp add: Open_effect(8) [OF o])
    from streams.opn_cls_no_leak [OF o this] show ?thesis by (auto simp: no_new_streams_def b)
  qed (simp add: no_new_streams_def)
qed

lemma take_response_effect [simp]:
  "open_on (take_response ref b) = open_on b" "stream_id (take_response ref b) = stream_id b"
  "conn_heap (take_response ref b) = conn_heap b" "connections (take_response ref b) = connections b"
  "subdomainToConn (take_response ref b) = subdomainToConn b"
  "nextStreamID (take_response ref b) = nextStreamID b"
  "next_conn (take_response ref b) = next_conn b" "next_stream (take_response ref b) = next_stream b"
  "conn_id (take_response ref b) = conn_id b"
  by (auto simp: take_response_def open_on_def stream_id_def conn_id_def option.map_comp o_def
      fun_eq_iff)

lemma proxy_respond_broker:
  "gw_broker (snd (proxy_respond order c sid resp g r w)) = br_CloseStream (gw_broker g) c sid"
  by (auto simp: proxy_respond_def Let_def split: outcome.split)

lemma proxy_finish_broker:
  assumes "stream_id (gw_broker g) ref = Some sid"
  shows "open_on (gw_broker (snd (proxy_finish order sc c ref g r w))) d i
    = (if d = c \<and> i = sid then None else open_on (gw_broker g) d i)"
proof -
  have sid: "(case stream_heap (gw_broker g) ref of Some s \<Rightarrow> st_ID s | None \<Rightarrow> 0) = sid"
    using assms by (auto simp: stream_id_def split: option.splits)
  show ?thesis
  proof (cases sc)
    case (GotResponse d)
    then show ?thesis
      by (simp add: proxy_finish_def sid Let_def streams.cls_listed proxy_respond_broker split: sum.split)
  qed (simp_all add: proxy_finish_def sid streams.cls_listed)
qed

subsection \<open>Headers\<close>

lemma sorted_map_join: "sorted_map (join_headers ks h)"
proof -
  have "sorted_map m \<Longrightarrow>
      sorted_map (foldl (\<lambda>m k. map_put k (case h k of None \<Rightarrow> [] | Some vs \<Rightarrow> Join vs '', '') m) m ks)" for m
    by (induction ks arbitrary: m) (simp_all add: sorted_map_put)
  from this [of "[]"] show ?thesis by (simp add: join_headers_def sorted_map_def)
qed

subsection \<open>An example\<close>

definition ex_gateway :: Gateway where
  "ex_gateway =
     \<lparr>gw_registry = ex_registry, gw_broker = ex_broker, gw_metrics = NewMetrics, gw_ws = (\<lambda>_. [])\<rparr>"

definition ex_proxy :: Proxy where
  "ex_proxy = SetPublicHostname NewProxy ''Example.com''"

definition ex_http :: Request where
  "ex_http =
     \<lparr>r_Method = ''GET'', r_Host = ''App.example.com:8080'', r_Path = ''/x'', r_EscapedPath = ''/x'',
      r_RawQuery = [], r_RequestURI = ''/x'', r_Header = [''Accept'' \<mapsto> [''a'', ''b'']],
      r_HeaderKeys = [''Accept''], r_Body = Some [1, 2], r_RemoteAddr = ''10.0.0.1:99''\<rparr>"

lemma lower_byte_strings:
  "map lower_byte ''App.example.com'' = ''app'' @ ''.'' @ map lower_byte ''Example.com''"
  by code_simp

lemma ex_hosts:
  "plain_host ''App.example.com''" "plain_host ''Example.com''" "port_suffix '':8080''"
  "Atoi ''8080'' = Some 8080"
  by (simp_all add: plain_host_def visible_def port_suffix_def Atoi_def is_digit_def digit_val_def
      min_int64_def max_int64_def)

subsection \<open>Properties\<close>

text \<open>C18. The subdomain of a request is found exactly when the host, without its port and up to case, is
  one non-empty label without dots followed by a dot and the public host name; it is that label in
  lower case.\<close>

theorem extractSubdomain_iff:
  assumes "plain_host host" "plain_host pub" "port_suffix port"
  shows "(extractSubdomain uni (host @ port) pub = sub \<and> sub \<noteq> []) \<longleftrightarrow>
    (sub \<noteq> [] \<and> CHR ''.'' \<notin> set sub \<and> map lower_byte host = sub @ ''.'' @ map lower_byte pub)"
proof -
  have h: "ToLower uni (TrimSpace (strip_port (host @ port))) = map lower_byte host"
    "ToLower uni (TrimSpace pub) = map lower_byte pub"
    using assms by (simp_all add: strip_port_suffix ToLower_plain_host)
  have p: "map lower_byte pub \<noteq> []" using assms(2) by (simp add: plain_host_def)
  show ?thesis
  proof
    assume "extractSubdomain uni (host @ port) pub = sub \<and> sub \<noteq> []"
    with extractSubdomain_Some [of uni "host @ port" pub sub] h
    show "sub \<noteq> [] \<and> CHR ''.'' \<notin> set sub \<and> map lower_byte host = sub @ ''.'' @ map lower_byte pub"
      by simp
  next
    assume r: "sub \<noteq> [] \<and> CHR ''.'' \<notin> set sub \<and> map lower_byte host = sub @ ''.'' @ map lower_byte pub"
    have "extractSubdomain uni (host @ port) pub = sub"
      by (rule extractSubdomain_intro) (use r p in \<open>simp_all add: h\<close>)
    with r show "extractSubdomain uni (host @ port) pub = sub \<and> sub \<noteq> []" by simp
  qed
qed

theorem extractSubdomain_iff_witness:
  "extractSubdomain id (''App.example.com'' @ '':8080'') ''Example.com'' = ''app''"
proof -
  have "CHR ''.'' \<notin> set ''app''" "''app'' \<noteq> []" by simp_all
  with extractSubdomain_iff [OF ex_hosts(1-3), of id "''app''"] lower_byte_strings show ?thesis
    by blast
qed

text \<open>A tunnel whose subdomain has an upper-case letter or a dot is accepted by the registry but no
  request ever reaches it: no host name yields that subdomain.\<close>

theorem subdomain_unreachable:
  assumes "mr_Register reg t = (None, reg')" "c \<in> set (tun_Subdomain t)"
    and "lower_byte c \<noteq> c \<or> c = CHR ''.''" "is_ascii host"
  shows "subdomainIndex reg' (tun_Subdomain t) = Some (tun_ID t)
    \<and> extractSubdomain uni host pub \<noteq> tun_Subdomain t"
proof
  show "subdomainIndex reg' (tun_Subdomain t) = Some (tun_ID t)"
    using assms(1) by (auto simp: mr_Register_def split: if_splits)
  have front: "set (trim_front rs s) \<subseteq> set s" for rs s
  proof (induction rs s rule: trim_front.induct)
    case (1 rs s)
    then show ?case
      by (subst trim_front.simps) (auto simp: Let_def dest: in_set_dropD)
  qed
  have trim: "set (TrimSpace s) \<subseteq> set s" for s
    using front [of "map rev space_runes" "rev (trim_front space_runes s)"] front [of space_runes s]
    by (auto simp: TrimSpace_def)
  have "set (strip_port host) \<subseteq> set host"
    by (auto simp: strip_port_def split: option.splits dest: in_set_takeD)
  with trim have "set (TrimSpace (strip_port host)) \<subseteq> set host" by blast
  with assms(4) have "is_ascii (TrimSpace (strip_port host))"
    unfolding is_ascii_def list_all_iff by blast
  then have low: "ToLower uni (TrimSpace (strip_port host)) = map lower_byte (TrimSpace (strip_port host))"
    by (simp add: ToLower_def)
  have idem: "lower_byte (lower_byte d) = lower_byte d" for d
    by (simp add: lower_byte_def Let_def of_char_of)
  show "extractSubdomain uni host pub \<noteq> tun_Subdomain t"
  proof
    assume *: "extractSubdomain uni host pub = tun_Subdomain t"
    have ne: "tun_Subdomain t \<noteq> []" using assms(2) by auto
    from extractSubdomain_Some [OF * ne] low
    have e: "map lower_byte (TrimSpace (strip_port host))
        = tun_Subdomain t @ ''.'' @ ToLower uni (TrimSpace pub)" "CHR ''.'' \<notin> set (tun_Subdomain t)"
      by auto
    from e(1) assms(2) have "c \<in> set (map lower_byte (TrimSpace (strip_port host)))" by simp
    then have "lower_byte c = c" using idem by auto
    with assms(2,3) e(2) show False by auto
  qed
qed

theorem subdomain_unreachable_witness:
  "\<exists>reg'. mr_Register ex_empty (ex_tunnel\<lparr>tun_Subdomain := ''App''\<rparr>) = (None, reg')
     \<and> extractSubdomain id ''App.example.com'' ''example.com'' \<noteq> ''App''"
proof -
  have a: "mr_Register ex_empty (ex_tunnel\<lparr>tun_Subdomain := ''App''\<rparr>)
      = (None, snd (mr_Register ex_empty (ex_tunnel\<lparr>tun_Subdomain := ''App''\<rparr>)))"
    by (simp add: mr_Register_def ex_empty_def ex_tunnel_def NewMemoryRegistry_def)
  have l: "lower_byte (CHR ''A'') \<noteq> CHR ''A'' \<or> CHR ''A'' = CHR ''.''" by code_simp
  from subdomain_unreachable [OF a _ l, of "''App.example.com''" id "''example.com''"] a show ?thesis
    by (auto simp: is_ascii_def)
qed

text \<open>A request that the JSON envelope and the length field can carry.\<close>

definition forwardable :: "Request \<Rightarrow> Tunnel \<Rightarrow> bytes \<Rightarrow> 32 word \<Rightarrow> bool" where
  "forwardable r t body sid \<longleftrightarrow>
     valid_utf8 (r_Method r) \<and> valid_utf8 (r_RequestURI r) \<and> valid_utf8 (tun_ID t)
     \<and> utf8_map (join_headers (r_HeaderKeys r) (r_Header r))
     \<and> length (json_print (enc_OpenStream (open_message sid t r))) < 2 ^ 32
     \<and> length (json_print (enc_StreamData \<lparr>sd_StreamID = FormatUint (unat sid),
         sd_Data = bytes_of_string (json_print (enc_httpRequest (request_envelope r body)))\<rparr>)) < 2 ^ 32"

lemma valid_utf8_FormatUint: "valid_utf8 (FormatUint n)"
  using FormatUint_digits by (intro valid_utf8_ascii) (fastforce simp: is_ascii_def list_all_iff is_digit_def)

lemma forwardable_messages:
  assumes "forwardable r t body sid"
  defines "data \<equiv> bytes_of_string (json_print (enc_httpRequest (request_envelope r body)))"
  shows "read_message (EncodeFrame FrameOpenStream (bytes_of_string (json_print
      (enc_OpenStream (open_message sid t r))))) = Some (MOpenStream (open_message sid t r))"
    and "read_message (EncodeFrame FrameStreamData (bytes_of_string (json_print
      (enc_StreamData \<lparr>sd_StreamID = FormatUint (unat sid), sd_Data = data\<rparr>))))
      = Some (MStreamData \<lparr>sd_StreamID = FormatUint (unat sid), sd_Data = data\<rparr>)"
    and "json_Unmarshal_into dec_httpRequest data zero_httpRequest = Inr (request_envelope r body)"
proof -
  have "valid_utf8 ''open_stream''" by (rule valid_utf8_ascii) (simp add: is_ascii_def)
  then have v: "valid_OpenStream (open_message sid t r)"
    using assms(1) by (simp add: forwardable_def valid_OpenStream_def open_message_def valid_utf8_FormatUint)
  then show "read_message (EncodeFrame FrameOpenStream (bytes_of_string (json_print
      (enc_OpenStream (open_message sid t r))))) = Some (MOpenStream (open_message sid t r))"
    using read_wire [of "MOpenStream (open_message sid t r)"] assms(1) by (simp add: forwardable_def)
  show "read_message (EncodeFrame FrameStreamData (bytes_of_string (json_print
      (enc_StreamData \<lparr>sd_StreamID = FormatUint (unat sid), sd_Data = data\<rparr>))))
      = Some (MStreamData \<lparr>sd_StreamID = FormatUint (unat sid), sd_Data = data\<rparr>)"
    using read_wire [of "MStreamData \<lparr>sd_StreamID = FormatUint (unat sid), sd_Data = data\<rparr>"] assms
    by (simp add: forwardable_def valid_StreamData_def valid_utf8_FormatUint)
  have "valid_httpRequest (request_envelope r body)"
    using assms(1) by (simp add: forwardable_def valid_httpRequest_def request_envelope_def sorted_map_join)
  then show "json_Unmarshal_into dec_httpRequest data zero_httpRequest = Inr (request_envelope r body)"
    unfolding data_def by (rule http_request.unmarshal_marshal)
qed

lemma ex_subdomain: "extractSubdomain id (r_Host ex_http) (px_publicHostname ex_proxy) = ''app''"
proof -
  have "CHR ''.'' \<notin> set ''app''" "''app'' \<noteq> []" by simp_all
  then have "extractSubdomain id (''App.example.com'' @ '':8080'') ''Example.com'' = ''app''"
    using extractSubdomain_intro [of id "''App.example.com'' @ '':8080''" "''app''" "''Example.com''"]
      strip_port_suffix [OF ex_hosts(1,3)] ToLower_plain_host [OF ex_hosts(1)]
      ToLower_plain_host [OF ex_hosts(2)] lower_byte_strings
    by simp
  then show ?thesis by (simp add: ex_http_def ex_proxy_def SetPublicHostname_def)
qed

lemma ex_lookup:
  "mr_GetBySubdomain (gw_registry ex_gateway) ''app'' = Inr (Some (ex_tunnel\<lparr>tun_TTL := 60\<rparr>))"
  "br_GetConnectionBySubdomain (gw_broker ex_gateway) ''app'' = Some 0"
  "nextStreamID (gw_broker ex_gateway) = 1"
  by (simp_all add: ex_gateway_def mr_GetBySubdomain_def ex_registry_def ex_tunnel_def
      br_GetConnectionBySubdomain_def ex_broker_def broker_eval)

lemma ex_conn: "\<exists>conn. conn_heap (gw_broker ex_gateway) 0 = Some conn \<and> cc_WS conn = 7"
  by (simp add: ex_gateway_def ex_broker_def broker_eval)

lemma ex_join: "join_headers (r_HeaderKeys ex_http) (r_Header ex_http) = [(''Accept'', ''a, b'')]"
  by (simp add: join_headers_def ex_http_def)

lemma FormatUint_2: "FormatUint 2 = ''2''"
  by code_simp

lemma ex_forwardable: "forwardable ex_http (ex_tunnel\<lparr>tun_TTL := 60\<rparr>) [1, 2] 2"
proof -
  let ?q = "enc_httpRequest (request_envelope ex_http [1, 2])"
  let ?d = "bytes_of_string (json_print ?q)"
  have q: "json_print ?q = ''{'' @ [quote_char] @ ''method'' @ [quote_char, CHR '':'', quote_char] @ ''GET''
      @ [quote_char, CHR '','', quote_char] @ ''path'' @ [quote_char, CHR '':'', quote_char] @ ''/x''
      @ [quote_char, CHR '','', quote_char] @ ''headers'' @ [quote_char, CHR '':'', CHR ''{'', quote_char]
      @ ''Accept'' @ [quote_char, CHR '':'', quote_char] @ ''a, b'' @ [quote_char, CHR ''}'', CHR '','', quote_char]
      @ ''body'' @ [quote_char, CHR '':'', quote_char] @ ''AQI='' @ [quote_char, CHR ''}'']"
  proof -
    have "b64_EncodeToString [1, 2] = ''AQI=''" by code_simp
    then show ?thesis
      unfolding request_envelope_def enc_httpRequest_def
      by (simp add: join_headers_def enc_string_map_def enc_bytes_def omitempty_def escape_plain
          escape_free_def escape_ascii_def ex_http_def)
  qed
  have "length (b64_EncodeToString ?d) \<le> 2 * length ?d + 4" by (rule length_b64)
  with q have b: "length (b64_EncodeToString ?d) \<le> 200" by simp
  have "length (escape (b64_EncodeToString ?d)) \<le> 6 * length (b64_EncodeToString ?d)"
    by (rule length_escape)
  with b have e: "length (escape (b64_EncodeToString ?d)) \<le> 1200" by simp
  have "length (json_print (enc_StreamData \<lparr>sd_StreamID = FormatUint (unat (2 :: 32 word)), sd_Data = ?d\<rparr>))
      \<le> 2000"
    using e by (simp add: enc_StreamData_def enc_bytes_def escape_plain escape_free_def
        escape_ascii_def FormatUint_2)
  moreover have "length (json_print (enc_OpenStream (open_message 2 (ex_tunnel\<lparr>tun_TTL := 60\<rparr>) ex_http)))
      \<le> 2000"
    by (simp add: enc_OpenStream_def enc_StreamMetadata_def open_message_def ex_http_def ex_tunnel_def
        escape_plain escape_free_def escape_ascii_def FormatUint_2)
  ultimately show ?thesis
    unfolding forwardable_def ex_join
    by (simp add: ex_http_def ex_tunnel_def valid_utf8_ascii is_ascii_def)
qed

lemma ex_begin:
  "\<exists>ref g'. proxy_begin id (\<lambda>_ _. True) ex_proxy ex_gateway ex_http new_response = (Waiting 0 ref, g')"
proof -
  obtain ref b where o: "br_OpenStream (gw_broker ex_gateway) 0 (tun_ID ex_tunnel) = (ref, b)"
    by (metis surj_pair)
  have send: "fst (gw_send (\<lambda>_ _. True) 0 d g) = (conn_heap (gw_broker g) 0 \<noteq> None)" for d g
    by (auto simp: gw_send_def br_SendMessage_def ws_WriteMessage_def Let_def split: option.split)
  have heap: "conn_heap b 0 \<noteq> None"
    using ex_conn br_OpenStream_conn [OF o] by auto
  let ?f = "EncodeFrame FrameOpenStream (bytes_of_string (json_print
      (enc_OpenStream (open_message 2 (ex_tunnel\<lparr>tun_TTL := 60\<rparr>) ex_http))))"
  let ?g = "ex_gateway\<lparr>gw_broker := b\<rparr>"
  obtain ok g1 where s: "gw_send (\<lambda>_ _. True) 0 ?f ?g = (ok, g1)" by (metis surj_pair)
  have g1: "gw_send (\<lambda>_ _. True) 0 ?f ?g = (True, g1)" "gw_broker g1 = b"
    using send [of ?f ?g] heap gw_send_fields(2) [of "\<lambda>_ _. True" 0 ?f ?g] by (simp_all add: s)
  obtain g' where "proxy_send_request (\<lambda>_ _. True) 0 ref 2 g1 ex_http new_response = (Waiting 0 ref, g')"
    using send [of _ g1] heap g1(2)
    by (simp add: proxy_send_request_def ex_http_def json_Marshal_def EncodeControlMessage_frame Let_def
        case_prod_unfold)
  moreover have "(case stream_heap b ref of Some s \<Rightarrow> st_ID s | None \<Rightarrow> 0) = 2"
    using br_OpenStream_stream [OF o] by (simp add: ex_lookup)
  ultimately show ?thesis
    using o g1 by (simp add: proxy_begin_def ex_subdomain ex_lookup proxy_open_def
        EncodeControlMessage_frame Let_def)
qed

text \<open>The two messages a request puts on the socket of its tunnel client.\<close>

abbreviation request_data :: "Request \<Rightarrow> bytes \<Rightarrow> bytes" where
  "request_data r body \<equiv> bytes_of_string (json_print (enc_httpRequest (request_envelope r body)))"

definition request_frames :: "32 word \<Rightarrow> Tunnel \<Rightarrow> Request \<Rightarrow> bytes \<Rightarrow> bytes list" where
  "request_frames sid t r body =
     [EncodeFrame FrameOpenStream (bytes_of_string (json_print (enc_OpenStream (open_message sid t r)))),
      EncodeFrame FrameStreamData (bytes_of_string (json_print (enc_StreamData
        \<lparr>sd_StreamID = FormatUint (unat sid), sd_Data = request_data r body\<rparr>)))]"

lemma proxy_begin_sends:
  assumes "proxy_begin uni wok px g r w = (Waiting c ref, g')"
    and "mr_GetBySubdomain (gw_registry g) (extractSubdomain uni (r_Host r) (px_publicHostname px))
      = Inr (Some t)"
    and "conn_heap (gw_broker g) c = Some conn" "r_Body r = Some body"
    and "sid = nextStreamID (gw_broker g) + 1"
  shows "ws_received (gw_ws g') (cc_WS conn) = ws_received (gw_ws g) (cc_WS conn) @ request_frames sid t r body"
    and "br_OpenStream (gw_broker g) c (tun_ID t) = (ref, gw_broker g')"
    and "request_codes (gw_metrics g') = request_codes (gw_metrics g)"
proof -
  have "proxy_open wok c t g r w = (Waiting c ref, g')"
    using assms(1,2) by (auto elim: proxy_begin_waiting)
  then obtain b g1 where o: "br_OpenStream (gw_broker g) c (tun_ID t) = (ref, b)"
    and s1: "gw_send wok c (EncodeFrame FrameOpenStream (bytes_of_string (json_print
          (enc_OpenStream (open_message sid t r))))) (g\<lparr>gw_broker := b\<rparr>) = (True, g1)"
    and q: "proxy_send_request wok c ref sid g1 r w = (Waiting c ref, g')"
    unfolding assms(5) by (rule proxy_open_waiting)
  from q obtain g2 where s2: "gw_send wok c (EncodeFrame FrameStreamData (bytes_of_string (json_print
          (enc_StreamData \<lparr>sd_StreamID = FormatUint (unat sid), sd_Data = request_data r body\<rparr>)))) g1 = (True, g2)"
    and g': "g' = g2\<lparr>gw_metrics := AddBytesSent (length (request_data r body)) (gw_metrics g2)\<rparr>"
    using assms(4) by (auto elim!: proxy_send_request_waiting)
  have b: "gw_broker g1 = b" "gw_broker g2 = b" "gw_metrics g1 = gw_metrics g" "gw_metrics g2 = gw_metrics g1"
    using gw_send_state [OF s1] gw_send_state [OF s2] by simp_all
  obtain conn' where c': "conn_heap b c = Some conn'" "cc_WS conn' = cc_WS conn"
    using br_OpenStream_conn [OF o assms(3)] by blast
  from gw_send_received [OF _ s1, of conn'] gw_send_received [OF _ s2, of conn'] c' b
  show "ws_received (gw_ws g') (cc_WS conn) = ws_received (gw_ws g) (cc_WS conn) @ request_frames sid t r body"
    by (simp add: g' request_frames_def)
  show "br_OpenStream (gw_broker g) c (tun_ID t) = (ref, gw_broker g')" using o by (simp add: g' b)
  show "request_codes (gw_metrics g') = request_codes (gw_metrics g)" by (simp add: g' b)
qed

text \<open>When the handler reaches its wait, the tunnel client has received exactly two more messages: an
  \<open>open_stream\<close> that names the new stream and the tunnel the subdomain belongs to, and a \<open>stream_data\<close>
  whose payload decodes to the request as it came in (method, URI, joined headers, body).\<close>

theorem proxy_forwards_request:
  assumes "proxy_begin uni wok px g r w = (Waiting c ref, g')"
    and "mr_GetBySubdomain (gw_registry g) (extractSubdomain uni (r_Host r) (px_publicHostname px))
      = Inr (Some t)"
    and "conn_heap (gw_broker g) c = Some conn" "r_Body r = Some body"
    and "sid = nextStreamID (gw_broker g) + 1" "forwardable r t body sid"
  shows "\<exists>openFrame dataFrame data.
    ws_received (gw_ws g') (cc_WS conn) = ws_received (gw_ws g) (cc_WS conn) @ [openFrame, dataFrame]
    \<and> stream_id (gw_broker g') ref = Some sid
    \<and> read_message openFrame = Some (MOpenStream (open_message sid t r))
    \<and> read_message dataFrame = Some (MStreamData \<lparr>sd_StreamID = FormatUint (unat sid), sd_Data = data\<rparr>)
    \<and> json_Unmarshal_into dec_httpRequest data zero_httpRequest = Inr (request_envelope r body)"
proof -
  note sent = proxy_begin_sends [OF assms(1-5)]
  have "stream_id (gw_broker g') ref = Some sid" using Open_effect(8) [OF sent(2)] assms(5) by simp
  with sent(1) forwardable_messages [OF assms(6)] show ?thesis unfolding request_frames_def by blast
qed

theorem proxy_forwards_request_witness:
  "\<exists>ref g' openFrame dataFrame data.
    proxy_begin id (\<lambda>_ _. True) ex_proxy ex_gateway ex_http new_response = (Waiting 0 ref, g')
    \<and> ws_received (gw_ws g') 7 = [openFrame, dataFrame]
    \<and> read_message openFrame
        = Some (MOpenStream (open_message 2 (ex_tunnel\<lparr>tun_TTL := 60\<rparr>) ex_http))
    \<and> read_message dataFrame = Some (MStreamData \<lparr>sd_StreamID = ''2'', sd_Data = data\<rparr>)
    \<and> json_Unmarshal_into dec_httpRequest data zero_httpRequest = Inr (request_envelope ex_http [1, 2])"
proof -
  obtain conn where conn: "conn_heap (gw_broker ex_gateway) 0 = Some conn" "cc_WS conn = 7"
    using ex_conn by blast
  have body: "r_Body ex_http = Some [1, 2]" by (simp add: ex_http_def)
  obtain ref g' where p: "proxy_begin id (\<lambda>_ _. True) ex_proxy ex_gateway ex_http new_response
      = (Waiting 0 ref, g')"
    using ex_begin by blast
  have sid: "(2 :: 32 word) = nextStreamID (gw_broker ex_gateway) + 1" by (simp add: ex_lookup)
  have "ws_received (gw_ws ex_gateway) 7 = []" by (simp add: ex_gateway_def ws_received_def)
  with proxy_forwards_request [OF p _ conn(1) body sid ex_forwardable] ex_lookup(1) ex_subdomain
    conn(2) p FormatUint_2
  show ?thesis by fastforce
qed

lemma proxy_finish_relays:
  assumes "valid_httpResponse p" "200 \<le> rs_StatusCode p" "rs_StatusCode p \<le> 999"
    and "body_allowed (rs_StatusCode p)" "w_status w = None" "w_body w = []"
    and "distinct (map CanonicalHeaderKey order)" "set order = fst ` set (rs_Headers p)"
    and "map_of (rs_Headers p) k = Some v" "stream_id (gw_broker g) ref = Some sid"
  shows "\<exists>w' g'. proxy_finish order (GotResponse (bytes_of_string (json_print (enc_httpResponse p)))) c ref g r w
      = (Returned w', g')
    \<and> w_status w' = Some (rs_StatusCode p) \<and> w_body w' = rs_Body p
    \<and> header_Get k (w_sent w') = v
    \<and> open_on (gw_broker g') c sid = None
    \<and> request_codes (gw_metrics g') = request_codes (gw_metrics g) @ [FormatInt (rs_StatusCode p)]"
proof -
  let ?d = "bytes_of_string (json_print (enc_httpResponse p))"
  let ?res = "proxy_finish order (GotResponse ?d) c ref g r w"
  have dec: "json_Unmarshal_into dec_httpResponse ?d zero_httpResponse = Inr p"
    using assms(1) by (rule http_response.unmarshal_marshal)
  have sid: "(case stream_heap (gw_broker g) ref of Some s \<Rightarrow> st_ID s | None \<Rightarrow> 0) = sid"
    using assms(10) by (auto simp: stream_id_def split: option.splits)
  have "k \<in> set order" using assms(8,9) by (force dest: map_of_SomeD)
  then have hdr: "header_Get k (set_headers order (rs_Headers p) (w_header w)) = v"
    using assms(7,9) by (intro set_headers_get)
  have "\<exists>w'. fst ?res = Returned w' \<and> w_status w' = Some (rs_StatusCode p) \<and> w_body w' = rs_Body p
      \<and> header_Get k (w_sent w') = v
      \<and> gw_metrics (snd ?res) = IncRequests (FormatInt (rs_StatusCode p)) (r_Method r)
          (AddBytesRecv (length ?d) (gw_metrics g))"
    using assms(2-6) hdr
    by (simp add: proxy_finish_def dec sid Let_def proxy_respond_def WriteHeader_def Write_def)
  moreover have "open_on (gw_broker (snd ?res)) c sid = None"
    using proxy_finish_broker [OF assms(10)] by simp
  ultimately show ?thesis by (cases ?res) auto
qed

text \<open>A response envelope with a status between 200 and 999 that allows a body is relayed: the client
  of the gateway gets that status, that body and those headers (when no two names agree up to
  canonical case), the stream is released, and the request is counted once, under that status.\<close>

theorem proxy_relays_response:
  assumes "valid_httpResponse p" "200 \<le> rs_StatusCode p" "rs_StatusCode p \<le> 999"
    and "body_allowed (rs_StatusCode p)" "w_status w = None" "w_body w = []"
    and "distinct (map CanonicalHeaderKey order)" "set order = fst ` set (rs_Headers p)"
    and "map_of (rs_Headers p) k = Some v" "stream_id (gw_broker g) ref = Some sid"
  shows "\<exists>w' g'. proxy_finish order (GotResponse (bytes_of_string (json_print (enc_httpResponse p)))) c ref g r w
      = (Returned w', g')
    \<and> w_status w' = Some (rs_StatusCode p) \<and> w_body w' = rs_Body p
    \<and> header_Get k (w_sent w') = v
    \<and> open_on (gw_broker g') c sid = None
    \<and> request_codes (gw_metrics g') = request_codes (gw_metrics g) @ [FormatInt (rs_StatusCode p)]"
  using assms by (rule proxy_finish_relays)

theorem proxy_relays_response_witness:
  "\<exists>w' g'. proxy_finish [''Etag''] (GotResponse (bytes_of_string (json_print (enc_httpResponse
        \<lparr>rs_StatusCode = 201, rs_Headers = [(''Etag'', ''7'')], rs_Body = [9]\<rparr>)))) 0 0 ex_gateway ex_http
        new_response = (Returned w', g')
    \<and> w_status w' = Some 201 \<and> w_body w' = [9] \<and> header_Get ''Etag'' (w_sent w') = ''7''
    \<and> open_on (gw_broker g') 0 1 = None"
proof -
  have i: "stream_id (gw_broker ex_gateway) 0 = Some 1"
    by (simp add: ex_gateway_def ex_broker_def broker_eval stream_id_def)
  from proxy_relays_response [OF _ _ _ _ _ _ _ _ _ i, of
      "\<lparr>rs_StatusCode = 201, rs_Headers = [(''Etag'', ''7'')], rs_Body = [9]\<rparr>" new_response "[''Etag'']"
      "''Etag''" "''7''" 0 ex_http]
  show ?thesis
    by (auto simp: valid_httpResponse_def int64_ok_def min_int64_def max_int64_def sorted_map_def
        valid_utf8_ascii is_ascii_def body_allowed_def new_response_def)
qed

text \<open>C19. Whatever the \<open>select\<close> takes, a handler that returns has answered with one status and counted the
  request exactly once, under that status; only an informational status (1xx, not 101) is counted
  without being the final one.\<close>

theorem proxy_counts_each_request:
  assumes "w_status w = None" "proxy_finish order sc c ref g r w = (Returned w', g')"
  shows "\<exists>code. request_codes (gw_metrics g') = request_codes (gw_metrics g) @ [FormatInt code]
    \<and> (w_status w' = Some code \<or> 100 \<le> code \<and> code \<le> 199 \<and> code \<noteq> 101)"
proof -
  have lab: "''502'' = FormatInt 502" "''504'' = FormatInt 504" by code_simp+
  have abort: "\<exists>code. request_codes (gw_metrics g') = request_codes (gw_metrics g0) @ [FormatInt code]
      \<and> (w_status w' = Some code \<or> 100 \<le> code \<and> code \<le> 199 \<and> code \<noteq> 101)"
    if "proxy_abort c sid m code l r g0 w0 = (Returned w', g')" "w_status w0 = None"
      "code = 502 \<and> l = ''502'' \<or> code = 504 \<and> l = ''504''" for sid m code l g0 w0
    using proxy_abort_returns [OF that(2), of code c sid m l r g0] that(1,3) lab by auto
  let ?sid = "case stream_heap (gw_broker g) ref of Some s \<Rightarrow> st_ID s | None \<Rightarrow> 0"
  show ?thesis
  proof (cases sc)
    case (GotResponse d)
    let ?g = "g\<lparr>gw_broker := take_response ref (gw_broker g),
                gw_metrics := AddBytesRecv (length d) (gw_metrics g)\<rparr>"
    have codes: "request_codes (gw_metrics ?g) = request_codes (gw_metrics g)" by simp
    show ?thesis
    proof (cases "json_Unmarshal_into dec_httpResponse d zero_httpResponse")
      case (Inl e)
      with assms(2) GotResponse
      have "proxy_abort c ?sid ''502 Bad Gateway: invalid response'' 502 ''502'' r ?g w = (Returned w', g')"
        by (simp add: proxy_finish_def Let_def)
      from abort [OF this assms(1)] codes show ?thesis by simp
    next
      case (Inr resp)
      let ?w = "w\<lparr>w_header := set_headers order (rs_Headers resp) (w_header w)\<rparr>"
      have res: "proxy_respond order c ?sid resp ?g r w = (Returned w', g')"
        using assms(2) GotResponse Inr by (simp add: proxy_finish_def Let_def)
      show ?thesis
      proof (cases "rs_StatusCode resp = 0")
        case True
        with res have "proxy_abort c ?sid ''502 Bad Gateway: invalid response status'' 502 ''502'' r ?g ?w
            = (Returned w', g')"
          by (simp add: proxy_respond_def Let_def)
        from abort [OF this] codes assms(1) show ?thesis by simp
      next
        case False
        with res assms(1) show ?thesis
          by (auto simp: proxy_respond_def WriteHeader_def Write_def Let_def
              split: if_splits outcome.splits option.splits intro!: exI [of _ "rs_StatusCode resp"])
      qed
    qed
  qed (use assms in \<open>auto simp: proxy_finish_def intro!: abort\<close>)
qed

theorem proxy_counts_each_request_witness:
  "\<exists>w' g' code. proxy_finish [] TimedOut 0 0 ex_gateway ex_http new_response = (Returned w', g')
    \<and> request_codes (gw_metrics g') = request_codes (gw_metrics ex_gateway) @ [FormatInt code]"
proof -
  have n: "w_status new_response = None" by (simp add: new_response_def)
  obtain w' g' where f: "proxy_finish [] TimedOut 0 0 ex_gateway ex_http new_response = (Returned w', g')"
    using proxy_abort_returns [OF n, of 504 0 "case stream_heap (gw_broker ex_gateway) 0 of
        Some s \<Rightarrow> st_ID s | None \<Rightarrow> 0" "''504 Gateway Timeout''" "''504''" ex_http ex_gateway]
    by (auto simp: proxy_finish_def Let_def)
  from proxy_counts_each_request [OF n f] f show ?thesis by blast
qed

text \<open>A handler leaves no stream behind. When it ends before the wait, every stream a connection lists
  was listed before; when it ends after the wait, by returning or by a panic, its own stream is gone
  from its connection and every other stream is as it was.\<close>

theorem proxy_releases_stream:
  "(proxy_begin uni wok px g r w = (Answered res, g1) \<longrightarrow> no_new_streams g g1)
   \<and> (stream_id (gw_broker g2) ref = Some sid \<longrightarrow>
        open_on (gw_broker (snd (proxy_finish order sc c ref g2 r w))) d i
          = (if d = c \<and> i = sid then None else open_on (gw_broker g2) d i))"
  using proxy_begin_answered proxy_finish_broker by blast

theorem proxy_releases_stream_witness:
  "\<exists>res g1. proxy_begin id (\<lambda>_ _. True) ex_proxy ex_gateway (ex_http\<lparr>r_Host := []\<rparr>) new_response
      = (Answered res, g1) \<and> no_new_streams ex_gateway g1
    \<and> open_on (gw_broker (snd (proxy_finish [] StreamDone 0 0 ex_gateway (ex_http\<lparr>r_Host := []\<rparr>)
        new_response))) 0 1 = None"
proof -
  have "extractSubdomain id [] ''Example.com'' = []"
  proof (rule ccontr)
    assume "extractSubdomain id [] ''Example.com'' \<noteq> []"
    from extractSubdomain_Some [OF refl this] show False
      by (simp add: strip_port_def TrimSpace_def trim_front.simps ToLower_def is_ascii_def)
  qed
  then obtain res g1 where b: "proxy_begin id (\<lambda>_ _. True) ex_proxy ex_gateway (ex_http\<lparr>r_Host := []\<rparr>)
      new_response = (Answered res, g1)"
    by (auto simp: proxy_begin_def ex_proxy_def SetPublicHostname_def Let_def case_prod_unfold)
  have "stream_id (gw_broker ex_gateway) 0 = Some 1"
    by (simp add: ex_gateway_def ex_broker_def broker_eval stream_id_def)
  with b proxy_releases_stream [of id "\<lambda>_ _. True" ex_proxy ex_gateway "ex_http\<lparr>r_Host := []\<rparr>"
      new_response res g1 ex_gateway 0 1 "[]" StreamDone 0 0 1]
  show ?thesis by auto
qed

text \<open>C40. A tunnel client that answers with a status outside 100 to 999, other than 0, makes the handler
  panic: nothing is written to the client of the gateway and the request is not counted.\<close>

theorem proxy_bad_status_panics:
  assumes "json_Unmarshal_into dec_httpResponse d zero_httpResponse = Inr resp"
    and "rs_StatusCode resp \<noteq> 0" "rs_StatusCode resp < 100 \<or> 999 < rs_StatusCode resp"
    and "w_status w = None"
  shows "\<exists>w' g'. proxy_finish order (GotResponse d) c ref g r w = (Panicked w', g')
    \<and> w_status w' = None \<and> w_body w' = w_body w
    \<and> request_codes (gw_metrics g') = request_codes (gw_metrics g)"
  using assms by (simp add: proxy_finish_def proxy_respond_def WriteHeader_def Let_def)

theorem proxy_bad_status_panics_witness:
  "\<exists>w' g'. proxy_finish [] (GotResponse (bytes_of_string (json_print (enc_httpResponse
        \<lparr>rs_StatusCode = 1000, rs_Headers = [], rs_Body = []\<rparr>)))) 0 0 ex_gateway ex_http new_response
      = (Panicked w', g') \<and> w_status w' = None"
proof -
  have "json_Unmarshal_into dec_httpResponse (bytes_of_string (json_print (enc_httpResponse
      \<lparr>rs_StatusCode = 1000, rs_Headers = [], rs_Body = []\<rparr>))) zero_httpResponse
      = Inr \<lparr>rs_StatusCode = 1000, rs_Headers = [], rs_Body = []\<rparr>"
    by (rule http_response.unmarshal_marshal)
      (simp add: valid_httpResponse_def int64_ok_def min_int64_def max_int64_def sorted_map_def)
  from proxy_bad_status_panics [OF this, of new_response "[]" 0 0 ex_gateway ex_http] show ?thesis
    by (auto simp: new_response_def)
qed

end
