(* ===== verification/Auth.thy ===== *)
theory Auth
  imports Go_Strings
begin

text \<open>
  \<open>internal/auth/auth.go\<close>: API tokens. A token string is \<open>hex(random) . hex(HMAC)\<close>; the store maps
  the whole string to the token. The keyed hash (HMAC-SHA256) is the argument \<open>mac\<close> of the
  definitions: nothing below depends on which function it is. The 32 bytes \<open>crypto/rand\<close> returns and
  the clock are inputs too. \<open>ValidateToken\<close> reads the map under the read lock and changes nothing,
  the other methods hold the lock while they write, so each is one atomic operation.

  After the code: the invariant of the store (every entry is a token the store signed), the
  interface \<open>token_store\<close> of the clients, interpreted on the code's model, and the properties.
\<close>

subsection \<open>State and operations\<close>

type_synonym mac = "bytes \<Rightarrow> bytes \<Rightarrow> bytes"

datatype auth_error =
  ErrTokenNotFound | ErrTokenExpired | ErrTokenRevoked | ErrInvalidToken
| ErrInvalidScope string | ErrRandom

definition validScopes :: "string set" where
  "validScopes = {''create'', ''list'', ''revoke'', ''admin''}"

record Token =
  tok_ID :: string
  tok_UserID :: string
  tok_Scopes :: "string list"
  tok_CreatedAt :: go_time
  tok_ExpiresAt :: go_time
  tok_Revoked :: bool

record MemoryTokenStore =
  tokens :: "string \<rightharpoonup> Token"
  signingKey :: bytes

definition NewMemoryTokenStore :: "string \<Rightarrow> MemoryTokenStore" where
  "NewMemoryTokenStore key = \<lparr>tokens = Map.empty, signingKey = bytes_of_string key\<rparr>"

definition computeHMAC :: "mac \<Rightarrow> bytes \<Rightarrow> bytes \<Rightarrow> bytes" where
  "computeHMAC mac message key = mac message key"

text \<open>The first scope that is not valid, as the loop over the scopes finds it.\<close>

definition bad_scope :: "string list \<Rightarrow> string option" where
  "bad_scope scopes = find (\<lambda>sc. sc \<notin> validScopes) scopes"

definition token_string :: "mac \<Rightarrow> bytes \<Rightarrow> bytes \<Rightarrow> string" where
  "token_string mac key rnd =
     (let hexRandom = hex_EncodeToString rnd;
          sig = computeHMAC mac (bytes_of_string hexRandom) key
      in hexRandom @ ''.'' @ hex_EncodeToString sig)"

definition ts_CreateToken ::
  "mac \<Rightarrow> bytes option \<Rightarrow> go_time \<Rightarrow> MemoryTokenStore \<Rightarrow> string \<Rightarrow> string list \<Rightarrow> int \<Rightarrow>
   (auth_error + Token) \<times> MemoryTokenStore" where
  "ts_CreateToken mac rand now s userID scopes ttlMinutes =
     (case bad_scope scopes of
        Some sc \<Rightarrow> (Inl (ErrInvalidScope sc), s)
      | None \<Rightarrow>
          (case rand of
             None \<Rightarrow> (Inl ErrRandom, s)
           | Some rnd \<Rightarrow>
               (let token =
                  \<lparr>tok_ID = token_string mac (signingKey s) rnd, tok_UserID = userID,
                   tok_Scopes = scopes, tok_CreatedAt = now,
                   tok_ExpiresAt = time_Add now (dur_mult ttlMinutes Minute), tok_Revoked = False\<rparr>
                in (Inr token, s\<lparr>tokens := (tokens s)(tok_ID token \<mapsto> token)\<rparr>))))"

definition ts_ValidateToken ::
  "mac \<Rightarrow> go_time \<Rightarrow> MemoryTokenStore \<Rightarrow> string \<Rightarrow> auth_error + Token" where
  "ts_ValidateToken mac now s tokenStr =
     (case SplitN2 tokenStr (CHR ''.'') of
        [hexRandom, sigPart] \<Rightarrow>
          (case hex_DecodeString sigPart of
             None \<Rightarrow> Inl ErrInvalidToken
           | Some providedSig \<Rightarrow>
               (if providedSig \<noteq> computeHMAC mac (bytes_of_string hexRandom) (signingKey s)
                then Inl ErrInvalidToken
                else case tokens s tokenStr of
                    None \<Rightarrow> Inl ErrTokenNotFound
                  | Some token \<Rightarrow>
                      (if tok_Revoked token then Inl ErrTokenRevoked
                       else if time_After now (tok_ExpiresAt token) then Inl ErrTokenExpired
                       else Inr token)))
      | _ \<Rightarrow> Inl ErrInvalidToken)"

definition ts_RevokeToken :: "MemoryTokenStore \<Rightarrow> string \<Rightarrow> auth_error option \<times> MemoryTokenStore" where
  "ts_RevokeToken s i =
     (case tokens s i of
        None \<Rightarrow> (Some ErrTokenNotFound, s)
      | Some token \<Rightarrow> (None, s\<lparr>tokens := (tokens s)(i \<mapsto> token\<lparr>tok_Revoked := True\<rparr>)\<rparr>))"

definition ts_ListTokens :: "string list \<Rightarrow> MemoryTokenStore \<Rightarrow> string \<Rightarrow> Token list" where
  "ts_ListTokens order s userID =
     filter (\<lambda>t. tok_UserID t = userID) (List.map_filter (tokens s) order)"

definition ts_ListAllTokens :: "string list \<Rightarrow> MemoryTokenStore \<Rightarrow> Token list" where
  "ts_ListAllTokens order s = List.map_filter (tokens s) order"

subsection \<open>Token strings\<close>

lemma SplitN2_token_string:
  "SplitN2 (token_string mac key rnd) (CHR ''.'') =
     [hex_EncodeToString rnd,
      hex_EncodeToString (computeHMAC mac (bytes_of_string (hex_EncodeToString rnd)) key)]"
  using SplitN2_append [OF hex_no_dot, of rnd] by (simp add: token_string_def Let_def)

definition well_signed :: "mac \<Rightarrow> bytes \<Rightarrow> string \<Rightarrow> bool" where
  "well_signed mac key x \<longleftrightarrow>
     (\<exists>a b sig. SplitN2 x (CHR ''.'') = [a, b] \<and> hex_DecodeString b = Some sig \<and>
        sig = computeHMAC mac (bytes_of_string a) key)"

lemma well_signed_token_string: "well_signed mac key (token_string mac key rnd)"
  by (simp add: well_signed_def SplitN2_token_string hex_roundtrip)

lemma ts_ValidateToken_eq:
  "ts_ValidateToken mac now s x =
     (if well_signed mac (signingKey s) x then
        (case tokens s x of
           None \<Rightarrow> Inl ErrTokenNotFound
         | Some t \<Rightarrow>
             (if tok_Revoked t then Inl ErrTokenRevoked
              else if tok_ExpiresAt t < now then Inl ErrTokenExpired else Inr t))
      else Inl ErrInvalidToken)"
  by (auto simp: ts_ValidateToken_def well_signed_def time_After_def split: list.splits option.splits)

lemma token_string_inject: "token_string mac key a = token_string mac key b \<longleftrightarrow> a = b"
proof
  assume "token_string mac key a = token_string mac key b"
  then have "SplitN2 (token_string mac key a) (CHR ''.'') = SplitN2 (token_string mac key b) (CHR ''.'')"
    by simp
  then show "a = b" by (simp add: SplitN2_token_string hex_inject)
qed simp

subsection \<open>Invariant\<close>

definition token_inv :: "mac \<Rightarrow> MemoryTokenStore \<Rightarrow> bool" where
  "token_inv mac s \<longleftrightarrow>
     (\<forall>x t. tokens s x = Some t \<longrightarrow>
        tok_ID t = x \<and> well_signed mac (signingKey s) x \<and> set (tok_Scopes t) \<subseteq> validScopes)"

lemma token_invD:
  "token_inv mac s \<Longrightarrow> tokens s x = Some t \<Longrightarrow>
     tok_ID t = x \<and> well_signed mac (signingKey s) x \<and> set (tok_Scopes t) \<subseteq> validScopes"
  by (simp add: token_inv_def)

lemma bad_scope_None: "bad_scope scopes = None \<longleftrightarrow> set scopes \<subseteq> validScopes"
  by (auto simp: bad_scope_def find_None_iff)

lemma token_inv_New [inv_intros]: "token_inv mac (NewMemoryTokenStore key)"
  by (simp add: token_inv_def NewMemoryTokenStore_def)

lemma token_inv_CreateToken [inv_intros]:
  assumes "token_inv mac s"
  shows "token_inv mac (snd (ts_CreateToken mac rand now s u scopes ttl))"
proof (cases "bad_scope scopes")
  case None
  with assms show ?thesis
    by (auto simp: ts_CreateToken_def token_inv_def Let_def well_signed_token_string bad_scope_None
        split: option.splits if_splits)
qed (use assms in \<open>simp add: ts_CreateToken_def\<close>)

lemma token_inv_RevokeToken [inv_intros]:
  "token_inv mac s \<Longrightarrow> token_inv mac (snd (ts_RevokeToken s i))"
  by (auto simp: ts_RevokeToken_def token_inv_def split: option.splits if_splits)

lemma ts_CreateToken_ok:
  assumes "ts_CreateToken mac rand now s u scopes ttl = (Inr t, s')"
  shows "set scopes \<subseteq> validScopes" "tokens s' = (tokens s)(tok_ID t \<mapsto> t)"
    "signingKey s' = signingKey s" "\<not> tok_Revoked t" "tok_Scopes t = scopes" "tok_UserID t = u"
    "tok_ExpiresAt t = now + dur_mult ttl Minute"
    "\<exists>rnd. rand = Some rnd \<and> tok_ID t = token_string mac (signingKey s) rnd"
  using assms
  by (auto simp: ts_CreateToken_def Let_def time_Add_def bad_scope_None [symmetric]
      split: option.splits)

lemma ts_CreateToken_error:
  "ts_CreateToken mac rand now s u scopes ttl = (Inl e, s') \<Longrightarrow> s' = s"
  by (auto simp: ts_CreateToken_def Let_def split: option.splits)

subsection \<open>The interface of the clients\<close>

locale token_store =
  fixes invar :: "'s \<Rightarrow> bool"
    and issued :: "'s \<Rightarrow> string \<rightharpoonup> Token"
    and validate :: "go_time \<Rightarrow> 's \<Rightarrow> string \<Rightarrow> auth_error + Token"
    and create :: "bytes option \<Rightarrow> go_time \<Rightarrow> 's \<Rightarrow> string \<Rightarrow> string list \<Rightarrow> int \<Rightarrow> (auth_error + Token) \<times> 's"
    and revoke :: "'s \<Rightarrow> string \<Rightarrow> auth_error option \<times> 's"
  assumes validate_iff: "invar s \<Longrightarrow>
      validate now s x = Inr t \<longleftrightarrow> issued s x = Some t \<and> \<not> tok_Revoked t \<and> now \<le> tok_ExpiresAt t"
    and validate_revoked: "invar s \<Longrightarrow> issued s x = Some t \<Longrightarrow> tok_Revoked t \<Longrightarrow>
      validate now s x = Inl ErrTokenRevoked"
    and create_law: "invar s \<Longrightarrow> create rand now s u scopes ttl = (res, s') \<Longrightarrow>
      invar s' \<and> (case res of Inl e \<Rightarrow> issued s' = issued s
                    | Inr t \<Rightarrow> issued s' = (issued s)(tok_ID t \<mapsto> t) \<and> \<not> tok_Revoked t)"
    and revoke_law: "invar s \<Longrightarrow> revoke s i = (err, s') \<Longrightarrow>
      invar s' \<and> (case issued s i of
          None \<Rightarrow> err = Some ErrTokenNotFound \<and> issued s' = issued s
        | Some t \<Rightarrow> err = None \<and> issued s' = (issued s)(i \<mapsto> t\<lparr>tok_Revoked := True\<rparr>))"
begin

definition revoked :: "'s \<Rightarrow> string \<Rightarrow> bool" where
  "revoked s x \<longleftrightarrow> (\<exists>t. issued s x = Some t \<and> tok_Revoked t)"

lemma revoke_revokes:
  assumes "invar s" "issued s x \<noteq> None"
  shows "revoked (snd (revoke s x)) x"
proof -
  obtain res s' where r: "revoke s x = (res, s')" by (metis surj_pair)
  with revoke_law [OF assms(1) r] assms(2) show ?thesis by (auto simp: revoked_def)
qed

lemma revoked_revoke:
  assumes "invar s" "revoked s x"
  shows "revoked (snd (revoke s y)) x"
proof -
  obtain res s' where r: "revoke s y = (res, s')" by (metis surj_pair)
  with revoke_law [OF assms(1) r] assms(2) show ?thesis
    by (cases "issued s y") (auto simp: revoked_def)
qed

lemma revoked_create:
  assumes "invar s" "revoked s x" "create rand now s u scopes ttl = (res, s')"
    and "\<And>t. res = Inr t \<Longrightarrow> tok_ID t \<noteq> x"
  shows "revoked s' x"
  using create_law [OF assms(1,3)] assms(2,4) by (cases res) (auto simp: revoked_def)

lemma revoked_rejected: "invar s \<Longrightarrow> revoked s x \<Longrightarrow> validate now s x = Inl ErrTokenRevoked"
  by (auto simp: revoked_def intro: validate_revoked)

lemma empty_rejects: "invar s \<Longrightarrow> issued s = Map.empty \<Longrightarrow> validate now s x \<noteq> Inr t"
  by (simp add: validate_iff)

end

interpretation mts: token_store "token_inv mac" tokens "ts_ValidateToken mac" "ts_CreateToken mac"
  ts_RevokeToken for mac
proof unfold_locales
  fix s now x t
  assume inv: "token_inv mac s"
  show "ts_ValidateToken mac now s x = Inr t \<longleftrightarrow>
      tokens s x = Some t \<and> \<not> tok_Revoked t \<and> now \<le> tok_ExpiresAt t"
    using token_invD [OF inv, of x] by (auto simp: ts_ValidateToken_eq split: option.splits)
  show "ts_ValidateToken mac now s x = Inl ErrTokenRevoked" if "tokens s x = Some t" "tok_Revoked t"
    using token_invD [OF inv that(1)] that by (simp add: ts_ValidateToken_eq)
next
  fix s rand now u scopes ttl res s'
  assume inv: "token_inv mac s" and c: "ts_CreateToken mac rand now s u scopes ttl = (res, s')"
  have "token_inv mac s'" using token_inv_CreateToken [OF inv, of rand now u scopes ttl] c by simp
  then show "token_inv mac s' \<and> (case res of Inl e \<Rightarrow> tokens s' = tokens s
      | Inr t \<Rightarrow> tokens s' = (tokens s)(tok_ID t \<mapsto> t) \<and> \<not> tok_Revoked t)"
    using c by (cases res) (auto dest: ts_CreateToken_ok(2,4) ts_CreateToken_error)
next
  fix s i res s'
  assume inv: "token_inv mac s" and r: "ts_RevokeToken s i = (res, s')"
  have "token_inv mac s'" using token_inv_RevokeToken [OF inv, of i] r by simp
  then show "token_inv mac s' \<and> (case tokens s i of
          None \<Rightarrow> res = Some ErrTokenNotFound \<and> tokens s' = tokens s
        | Some t \<Rightarrow> res = None \<and> tokens s' = (tokens s)(i \<mapsto> t\<lparr>tok_Revoked := True\<rparr>))"
    using r by (auto simp: ts_RevokeToken_def split: option.splits)
qed

subsection \<open>Sequences of calls\<close>

datatype auth_op =
  CreateOp "bytes option" go_time string "string list" int
| RevokeOp string

fun auth_exec :: "mac \<Rightarrow> MemoryTokenStore \<Rightarrow> auth_op \<Rightarrow> MemoryTokenStore" where
  "auth_exec mac s (CreateOp rand now u scopes ttl) = snd (ts_CreateToken mac rand now s u scopes ttl)"
| "auth_exec mac s (RevokeOp i) = snd (ts_RevokeToken s i)"

fun auth_run :: "mac \<Rightarrow> MemoryTokenStore \<Rightarrow> auth_op list \<Rightarrow> MemoryTokenStore" where
  "auth_run mac s [] = s"
| "auth_run mac s (x # xs) = auth_run mac (auth_exec mac s x) xs"

text \<open>An operation that does not draw the random bytes of the token \<open>x\<close> again.\<close>

fun other_token :: "mac \<Rightarrow> bytes \<Rightarrow> string \<Rightarrow> auth_op \<Rightarrow> bool" where
  "other_token mac key x (CreateOp (Some rnd) now u scopes ttl) \<longleftrightarrow> token_string mac key rnd \<noteq> x"
| "other_token mac key x _ \<longleftrightarrow> True"

lemma token_inv_exec: "token_inv mac s \<Longrightarrow> token_inv mac (auth_exec mac s x)"
  by (cases x) (auto intro: inv_intros)

lemma token_inv_run: "token_inv mac s \<Longrightarrow> token_inv mac (auth_run mac s ops)"
  by (induction ops arbitrary: s) (simp_all add: token_inv_exec)

lemma signingKey_exec: "signingKey (auth_exec mac s x) = signingKey s"
  by (cases x) (auto simp: ts_CreateToken_def ts_RevokeToken_def Let_def split: option.splits)

lemma revoked_exec:
  assumes "token_inv mac s" "mts.revoked s x" "other_token mac (signingKey s) x e"
  shows "mts.revoked (auth_exec mac s e) x"
proof (cases e)
  case (CreateOp rand now u scopes ttl)
  obtain res s' where c: "ts_CreateToken mac rand now s u scopes ttl = (res, s')" by (metis surj_pair)
  have "tok_ID t \<noteq> x" if "res = Inr t" for t
    using ts_CreateToken_ok(8) [OF c [unfolded that]] assms(3) CreateOp by auto
  from mts.revoked_create [OF assms(1,2) c this] CreateOp c show ?thesis by simp
qed (use assms in \<open>simp add: mts.revoked_revoke\<close>)

lemma revoked_run:
  "token_inv mac s \<Longrightarrow> mts.revoked s x \<Longrightarrow> list_all (other_token mac (signingKey s) x) ops \<Longrightarrow>
     mts.revoked (auth_run mac s ops) x"
  by (induction ops arbitrary: s) (simp_all add: token_inv_exec revoked_exec signingKey_exec)

subsection \<open>An example state\<close>

definition ex_mac :: mac where
  "ex_mac message key = key @ take 2 message"

definition ex_token :: Token where
  "ex_token =
     \<lparr>tok_ID = token_string ex_mac (bytes_of_string ''key'') [17, 2], tok_UserID = ''user1'',
      tok_Scopes = [''create'', ''admin''], tok_CreatedAt = 1000,
      tok_ExpiresAt = 1000 + 5 * 60000000000, tok_Revoked = False\<rparr>"

definition ex_store :: MemoryTokenStore where
  "ex_store = \<lparr>tokens = [tok_ID ex_token \<mapsto> ex_token], signingKey = bytes_of_string ''key''\<rparr>"

lemma ex_create:
  "ts_CreateToken ex_mac (Some [17, 2]) 1000 (NewMemoryTokenStore ''key'') ''user1''
     [''create'', ''admin''] 5 = (Inr ex_token, ex_store)"
  by (simp add: ts_CreateToken_def bad_scope_def validScopes_def NewMemoryTokenStore_def ex_token_def
      ex_store_def Let_def time_Add_def dur_mult_def wrap64_def Minute_def)

lemma ex_store_inv: "token_inv ex_mac ex_store"
  using token_inv_CreateToken [OF token_inv_New, of ex_mac "Some [17, 2]" 1000 "''key''" "''user1''"
      "[''create'', ''admin'']" 5]
  by (simp add: ex_create)

subsection \<open>Properties\<close>

lemma dur_mult_minutes: "0 \<le> ttl \<Longrightarrow> ttl \<le> 153722867 \<Longrightarrow> dur_mult ttl Minute = ttl * 60000000000"
  by (simp add: dur_mult_exact Minute_def max_int64_def)

lemma dur_mult_minutes_overflow:
  assumes "153722868 \<le> ttl" "ttl \<le> 307445734"
  shows "dur_mult ttl Minute = ttl * 60000000000 - 2 ^ 64"
proof -
  have "signed_take_bit 63 (ttl * 60000000000 - 2 ^ 64) = ttl * 60000000000 - 2 ^ 64"
    by (rule signed_take_bit_int_eq_self) (use assms in simp_all)
  moreover have "signed_take_bit 63 (ttl * 60000000000 - 2 ^ 64) = signed_take_bit 63 (ttl * 60000000000)"
    by (simp add: signed_take_bit_eq_iff_take_bit_eq take_bit_eq_mod)
  ultimately show ?thesis by (simp add: dur_mult_def wrap64_def Minute_def)
qed

text \<open>C3. In every state of the store reached by creating and revoking tokens, a string validates to a
  token exactly when the store issued that token under this string, it is not revoked and it has
  not expired; so no string the store did not issue is ever accepted.\<close>

theorem ValidateToken_iff_issued:
  "ts_ValidateToken mac now (auth_run mac (NewMemoryTokenStore key) ops) x = Inr t \<longleftrightarrow>
     tokens (auth_run mac (NewMemoryTokenStore key) ops) x = Some t \<and>
     \<not> tok_Revoked t \<and> now \<le> tok_ExpiresAt t"
  by (rule mts.validate_iff) (simp add: token_inv_run token_inv_New)

text \<open>C27. A token that was created validates, with the user and the scopes it was created for, at
  every time from its creation to its expiry, \<open>ttl\<close> minutes later (for a TTL within the range of a
  duration), whatever the signing function, the key and the random bytes are.\<close>

theorem CreateToken_then_ValidateToken:
  assumes "ts_CreateToken mac rand now s u scopes ttl = (Inr t, s')"
    and "0 \<le> ttl" "ttl \<le> 153722867" "now' \<le> now + ttl * 60000000000"
  shows "ts_ValidateToken mac now' s' (tok_ID t) = Inr t \<and> tok_UserID t = u \<and> tok_Scopes t = scopes"
proof -
  note ok = ts_CreateToken_ok [OF assms(1)]
  have "well_signed mac (signingKey s') (tok_ID t)"
    using ok(3,8) well_signed_token_string by auto
  moreover have "\<not> tok_ExpiresAt t < now'"
    using assms(2-4) ok(7) by (simp add: dur_mult_minutes)
  ultimately show ?thesis using ok by (simp add: ts_ValidateToken_eq)
qed

theorem CreateToken_then_ValidateToken_witness:
  "ts_ValidateToken ex_mac 200000000000 ex_store (tok_ID ex_token) = Inr ex_token"
  using CreateToken_then_ValidateToken [OF ex_create, of 200000000000] by simp

text \<open>For a TTL between 153722868 and 307445734 minutes the conversion to nanoseconds overflows
  and the token is created already expired.\<close>

theorem CreateToken_ttl_overflow:
  assumes "ts_CreateToken mac rand now s u scopes ttl = (Inr t, s')"
    and "153722868 \<le> ttl" "ttl \<le> 307445734"
  shows "ts_ValidateToken mac now s' (tok_ID t) = Inl ErrTokenExpired"
proof -
  note ok = ts_CreateToken_ok [OF assms(1)]
  have "well_signed mac (signingKey s') (tok_ID t)"
    using ok(3,8) well_signed_token_string by auto
  moreover have "tok_ExpiresAt t < now"
    using assms(2,3) ok(7) by (simp add: dur_mult_minutes_overflow)
  ultimately show ?thesis using ok by (simp add: ts_ValidateToken_eq)
qed

theorem CreateToken_ttl_overflow_witness:
  "\<exists>t s. ts_CreateToken ex_mac (Some [17, 2]) 1000 (NewMemoryTokenStore ''key'') ''user1''
       [''list''] 200000000 = (Inr t, s) \<and>
     ts_ValidateToken ex_mac 1000 s (tok_ID t) = Inl ErrTokenExpired"
proof -
  obtain t s where c: "ts_CreateToken ex_mac (Some [17, 2]) 1000 (NewMemoryTokenStore ''key'')
      ''user1'' [''list''] 200000000 = (Inr t, s)"
    by (simp add: ts_CreateToken_def bad_scope_def validScopes_def Let_def)
  with CreateToken_ttl_overflow [OF c] show ?thesis by auto
qed

text \<open>C28. Revocation is permanent: after a successful \<open>RevokeToken\<close> the token is rejected as revoked
  at any later time, after any further creations and revocations that do not draw the same random
  bytes again.\<close>

theorem RevokeToken_permanent:
  assumes "token_inv mac s" "ts_RevokeToken s x = (None, s')"
    and "list_all (other_token mac (signingKey s) x) ops"
  shows "ts_ValidateToken mac now (auth_run mac s' ops) x = Inl ErrTokenRevoked"
proof -
  have s': "s' = auth_exec mac s (RevokeOp x)" using assms(2) by simp
  have "tokens s x \<noteq> None" using assms(2) by (auto simp: ts_RevokeToken_def split: option.splits)
  then have "mts.revoked s' x" using mts.revoke_revokes [OF assms(1)] assms(2) by fastforce
  moreover have "token_inv mac s'" "signingKey s' = signingKey s"
    using assms(1) s' by (simp_all add: token_inv_exec signingKey_exec del: auth_exec.simps)
  ultimately show ?thesis
    using assms(3) by (intro mts.revoked_rejected) (simp_all add: token_inv_run revoked_run)
qed

theorem RevokeToken_permanent_witness:
  "ts_ValidateToken ex_mac 5000
     (auth_run ex_mac (snd (ts_RevokeToken ex_store (tok_ID ex_token)))
        [CreateOp (Some [9, 9]) 2000 ''user2'' [''list''] 10]) (tok_ID ex_token) = Inl ErrTokenRevoked"
proof -
  have r: "ts_RevokeToken ex_store (tok_ID ex_token) =
      (None, snd (ts_RevokeToken ex_store (tok_ID ex_token)))"
    by (simp add: ts_RevokeToken_def ex_store_def)
  have "list_all (other_token ex_mac (signingKey ex_store) (tok_ID ex_token))
      [CreateOp (Some [9, 9]) 2000 ''user2'' [''list''] 10]"
    by (simp add: ex_token_def ex_store_def token_string_inject)
  from RevokeToken_permanent [OF ex_store_inv r this] show ?thesis .
qed

text \<open>\<open>CreateToken\<close> reports an invalid scope exactly when the list has one, naming the first; any
  error leaves the store as it was, and in every reachable store all scopes are known ones.\<close>

theorem CreateToken_scopes:
  "(fst (ts_CreateToken mac rand now s u scopes ttl) = Inl (ErrInvalidScope sc) \<longleftrightarrow>
      (\<exists>pre post. scopes = pre @ sc # post \<and> set pre \<subseteq> validScopes \<and> sc \<notin> validScopes)) \<and>
   (isl (fst (ts_CreateToken mac rand now s u scopes ttl)) \<longrightarrow>
      snd (ts_CreateToken mac rand now s u scopes ttl) = s) \<and>
   (tokens (auth_run mac (NewMemoryTokenStore key) ops) x = Some t \<longrightarrow>
      set (tok_Scopes t) \<subseteq> validScopes)"
proof (intro conjI impI)
  have "bad_scope scopes = Some sc \<longleftrightarrow>
      (\<exists>pre post. scopes = pre @ sc # post \<and> set pre \<subseteq> validScopes \<and> sc \<notin> validScopes)"
    by (auto simp: bad_scope_def find_Some_split)
  then show "fst (ts_CreateToken mac rand now s u scopes ttl) = Inl (ErrInvalidScope sc) \<longleftrightarrow>
      (\<exists>pre post. scopes = pre @ sc # post \<and> set pre \<subseteq> validScopes \<and> sc \<notin> validScopes)"
    by (auto simp: ts_CreateToken_def Let_def split: option.splits)
next
  assume "isl (fst (ts_CreateToken mac rand now s u scopes ttl))"
  then show "snd (ts_CreateToken mac rand now s u scopes ttl) = s"
    by (auto simp: ts_CreateToken_def Let_def split: option.splits)
next
  assume "tokens (auth_run mac (NewMemoryTokenStore key) ops) x = Some t"
  from token_invD [OF token_inv_run [OF token_inv_New] this]
  show "set (tok_Scopes t) \<subseteq> validScopes" by simp
qed

theorem CreateToken_scopes_witness:
  "fst (ts_CreateToken (\<lambda>m k. k @ m) (Some [1]) 0 (NewMemoryTokenStore ''k'') ''u''
      [''list'', ''root''] 5) = Inl (ErrInvalidScope ''root'') \<and>
   snd (ts_CreateToken (\<lambda>m k. k @ m) (Some [1]) 0 (NewMemoryTokenStore ''k'') ''u''
      [''list'', ''root''] 5) = NewMemoryTokenStore ''k''"
proof -
  have "[''list'', ''root''] = [''list''] @ ''root'' # [] \<and>
      set [''list''] \<subseteq> validScopes \<and> ''root'' \<notin> validScopes"
    by (simp add: validScopes_def)
  then have "\<exists>pre post. [''list'', ''root''] = pre @ ''root'' # post \<and> set pre \<subseteq> validScopes \<and>
      ''root'' \<notin> validScopes" by blast
  with CreateToken_scopes [of "\<lambda>m k. k @ m" "Some [1]" 0 "NewMemoryTokenStore ''k''" "''u''"
      "[''list'', ''root'']" 5 "''root''" "''k''" "[]" "[]" undefined]
  show ?thesis by auto
qed

end
