(* ===== verification/Admin.thy ===== *)
theory Admin
  imports Registry Auth Metrics Json_Codec Http
begin

text \<open>
  \<open>internal/admin/admin.go\<close>: the REST API that manages tokens and tunnels. A handler takes the state
  it shares with the server (\<open>AdminAPI\<close>), a request and a response writer. What it reads from outside
  is collected in \<open>admin_env\<close>: the keyed hash, the clock (and its two earlier readings in the rate limiter
  before the handler, \<open>ae_seen\<close> and \<open>ae_taken\<close>), the random bytes, the iteration order of
  the registry's map, the text of a JSON error and the text of a time (\<open>MarshalJSON\<close> writes RFC 3339
  in the zone of the server).
\<close>

subsection \<open>State and environment\<close>

record AdminAPI =
  adm_tokenStore :: MemoryTokenStore
  adm_registry :: MemoryRegistry
  adm_metrics :: Metrics

record admin_env =
  ae_mac :: mac
  ae_now :: go_time
  ae_seen :: go_time
  ae_taken :: go_time
  ae_rand :: "bytes option"
  ae_order :: "string list"
  ae_json_error :: "bytes option \<Rightarrow> string"
  ae_time :: "go_time \<Rightarrow> string"

definition NewAdminAPI :: "MemoryTokenStore \<Rightarrow> MemoryRegistry \<Rightarrow> Metrics \<Rightarrow> AdminAPI" where
  "NewAdminAPI ts r m = \<lparr>adm_tokenStore = ts, adm_registry = r, adm_metrics = m\<rparr>"

type_synonym admin_handler =
  "AdminAPI \<Rightarrow> Request \<Rightarrow> ResponseWriter \<Rightarrow> ResponseWriter outcome \<times> AdminAPI"

subsection \<open>Responses\<close>

text \<open>\<open>Data\<close> is an interface; \<open>None\<close> is \<open>nil\<close>, which \<open>omitempty\<close> drops.\<close>

record APIResponse =
  ar_Code :: int
  ar_Message :: string
  ar_Data :: "json option"

definition enc_APIResponse :: "APIResponse \<Rightarrow> json" where
  "enc_APIResponse a =
     JObj ([(''code'', enc_int (ar_Code a)), (''message'', JStr (ar_Message a))]
           @ (case ar_Data a of None \<Rightarrow> [] | Some j \<Rightarrow> [(''data'', j)]))"

text \<open>\<open>json.NewEncoder(w).Encode\<close> ends its output with a line feed.\<close>

definition writeJSON :: "ResponseWriter \<Rightarrow> int \<Rightarrow> APIResponse \<Rightarrow> ResponseWriter outcome" where
  "writeJSON w status resp =
     outcome_bind
       (WriteHeader status
         (w\<lparr>w_header := header_Set ''Content-Type'' ''application/json'' (w_header w)\<rparr>))
       (Write (bytes_of_string (json_print (enc_APIResponse resp) @ [char_of (10 :: nat)])))"

definition admin_reply ::
  "int \<Rightarrow> string \<Rightarrow> json option \<Rightarrow> AdminAPI \<Rightarrow> ResponseWriter \<Rightarrow> ResponseWriter outcome \<times> AdminAPI"
where
  "admin_reply status msg data a w =
     (writeJSON w status \<lparr>ar_Code = status, ar_Message = msg, ar_Data = data\<rparr>, a)"

fun auth_error_string :: "auth_error \<Rightarrow> string" where
  "auth_error_string ErrTokenNotFound = ''token not found''"
| "auth_error_string ErrTokenExpired = ''token expired''"
| "auth_error_string ErrTokenRevoked = ''token revoked''"
| "auth_error_string ErrInvalidToken = ''invalid token''"
| "auth_error_string (ErrInvalidScope sc) = ''invalid scope: '' @ sc"
| "auth_error_string ErrRandom = ''generating random token: ''"

fun registry_error_string :: "registry_error \<Rightarrow> string" where
  "registry_error_string ErrSubdomainReserved = ''subdomain is reserved''"
| "registry_error_string ErrSubdomainTaken = ''subdomain is already taken''"
| "registry_error_string ErrSubdomainTooLong = ''subdomain exceeds maximum length''"
| "registry_error_string ErrTunnelNotFound = ''tunnel not found''"

subsection \<open>Bodies\<close>

text \<open>\<open>Scopes\<close> is a slice, \<open>None\<close> when it is \<open>nil\<close>.\<close>

record createTokenRequest =
  ctr_UserID :: string
  ctr_Scopes :: "string list option"
  ctr_TTLMinutes :: int

definition zero_createTokenRequest :: createTokenRequest where
  "zero_createTokenRequest = \<lparr>ctr_UserID = [], ctr_Scopes = None, ctr_TTLMinutes = 0\<rparr>"

definition dec_opt_slice :: "'a decoder \<Rightarrow> 'a \<Rightarrow> 'a list option decoder" where
  "dec_opt_slice d z j x =
     (case j of JArr js \<Rightarrow> map_option Some (dec_list d z js) | JNull \<Rightarrow> Some None | _ \<Rightarrow> None)"

definition dec_createTokenRequest :: "createTokenRequest decoder" where
  "dec_createTokenRequest =
     dec_struct
       [(''user_id'', dec_field dec_string ctr_UserID (\<lambda>x. ctr_UserID_update (\<lambda>_. x))),
        (''scopes'', dec_field (dec_opt_slice dec_string []) ctr_Scopes (\<lambda>x. ctr_Scopes_update (\<lambda>_. x))),
        (''ttl_minutes'', dec_field dec_int ctr_TTLMinutes (\<lambda>x. ctr_TTLMinutes_update (\<lambda>_. x)))]"

definition decode_body :: "Request \<Rightarrow> createTokenRequest option" where
  "decode_body r =
     (case r_Body r of
        None \<Rightarrow> None
      | Some b \<Rightarrow>
          (case json_Decode (string_of_bytes b) of
             None \<Rightarrow> None
           | Some j \<Rightarrow> dec_createTokenRequest j zero_createTokenRequest))"

definition scope_list :: "string list option \<Rightarrow> string list" where
  "scope_list s = (case s of None \<Rightarrow> [] | Some xs \<Rightarrow> xs)"

definition enc_Token :: "(go_time \<Rightarrow> string) \<Rightarrow> string list option \<Rightarrow> Token \<Rightarrow> json" where
  "enc_Token tm scopes t =
     JObj [(''ID'', JStr (tok_ID t)), (''UserID'', JStr (tok_UserID t)),
           (''Scopes'', case scopes of None \<Rightarrow> JNull | Some xs \<Rightarrow> JArr (map JStr xs)),
           (''CreatedAt'', JStr (tm (tok_CreatedAt t))), (''ExpiresAt'', JStr (tm (tok_ExpiresAt t))),
           (''Revoked'', JBool (tok_Revoked t))]"

definition enc_Tunnel :: "(go_time \<Rightarrow> string) \<Rightarrow> Tunnel \<Rightarrow> json" where
  "enc_Tunnel tm t =
     JObj [(''id'', JStr (tun_ID t)), (''owner_id'', JStr (tun_OwnerID t)),
           (''subdomain'', JStr (tun_Subdomain t)), (''protocol'', JStr (tun_Protocol t)),
           (''target_port'', enc_int (tun_TargetPort t)),
           (''created_at'', JStr (tm (tun_CreatedAt t))),
           (''last_heartbeat_at'', JStr (tm (tun_LastHeartbeatAt t))),
           (''conn_id'', JStr (tun_ConnID t)), (''ttl_seconds'', enc_int (tun_TTL t)),
           (''bandwidth_limit_mbps'', enc_int (tun_BandwidthLimit t))]"

subsection \<open>Handlers\<close>

definition requireAdmin :: "admin_env \<Rightarrow> admin_handler \<Rightarrow> admin_handler" where
  "requireAdmin env next_handler a r w =
     (let header = header_Get ''Authorization'' (r_Header r)
      in if header = [] \<or> \<not> HasPrefix header ''Bearer '' then
           admin_reply 401 ''missing or invalid authorization header'' None a w
         else
           (let tokenStr = TrimPrefix header ''Bearer ''
            in case ts_ValidateToken (ae_mac env) (ae_now env) (adm_tokenStore a) tokenStr of
                 Inl e \<Rightarrow> admin_reply 401 (''invalid token: '' @ auth_error_string e) None a w
               | Inr token \<Rightarrow>
                   (if \<not> list_ex (\<lambda>s. s = ''admin'') (tok_Scopes token) then
                      admin_reply 403 ''insufficient scope: admin required'' None a w
                    else next_handler a r w)))"

definition adm_handleHealth :: admin_handler where
  "adm_handleHealth a r w =
     (if r_Method r \<noteq> ''GET'' then admin_reply 405 ''method not allowed'' None a w
      else admin_reply 200 ''ok'' (Some (JObj [(''status'', JStr ''ok'')])) a w)"

definition handleCreateToken :: "admin_env \<Rightarrow> admin_handler" where
  "handleCreateToken env a r w =
     (if r_Method r \<noteq> ''POST'' then admin_reply 405 ''method not allowed'' None a w
      else case decode_body r of
          None \<Rightarrow> admin_reply 400 (''invalid request body: '' @ ae_json_error env (r_Body r)) None a w
        | Some req \<Rightarrow>
            (if ctr_UserID req = [] then admin_reply 400 ''user_id is required'' None a w
             else
               (case ts_CreateToken (ae_mac env) (ae_rand env) (ae_now env) (adm_tokenStore a)
                       (ctr_UserID req) (scope_list (ctr_Scopes req)) (ctr_TTLMinutes req) of
                  (Inl e, ts) \<Rightarrow>
                    admin_reply 500 (''failed to create token: '' @ auth_error_string e) None
                      (a\<lparr>adm_tokenStore := ts\<rparr>) w
                | (Inr token, ts) \<Rightarrow>
                    admin_reply 201 ''token created'' (Some (enc_Token (ae_time env) (ctr_Scopes req) token))
                      (a\<lparr>adm_tokenStore := ts\<rparr>) w)))"

text \<open>\<open>GetByOwner\<close> returns a \<open>nil\<close> slice when it finds nothing, \<open>List\<close> an empty one.\<close>

definition handleTunnels :: "admin_env \<Rightarrow> admin_handler" where
  "handleTunnels env a r w =
     (if r_Method r \<noteq> ''GET'' then admin_reply 405 ''method not allowed'' None a w
      else
        (let userID = query_Get (r_RawQuery r) ''user_id''
         in if userID \<noteq> [] then
              (let ts = mr_GetByOwner (ae_order env) (adm_registry a) userID
               in admin_reply 200 ''tunnels listed''
                    (Some (if ts = [] then JNull else JArr (map (enc_Tunnel (ae_time env)) ts))) a w)
            else
              admin_reply 200 ''tunnels listed''
                (Some (JArr (map (enc_Tunnel (ae_time env)) (mr_List (ae_order env) (adm_registry a))))) a w))"

definition handleTunnelByID :: "admin_env \<Rightarrow> admin_handler" where
  "handleTunnelByID env a r w =
     (if r_Method r \<noteq> ''DELETE'' then admin_reply 405 ''method not allowed'' None a w
      else
        (let i = TrimPrefix (r_Path r) ''/api/v1/tunnels/''
         in if i = [] then admin_reply 400 ''tunnel id is required'' None a w
            else
              (case mr_Unregister (adm_registry a) i of
                 (Some e, reg) \<Rightarrow>
                   admin_reply 404 (''tunnel not found: '' @ registry_error_string e) None
                     (a\<lparr>adm_registry := reg\<rparr>) w
               | (None, reg) \<Rightarrow> admin_reply 200 ''tunnel deleted'' None (a\<lparr>adm_registry := reg\<rparr>) w)))"

subsection \<open>Routes\<close>

datatype admin_route = RHealth | RTokens | RTunnels | RTunnelByID

definition admin_mux :: "admin_route mux" where
  "admin_mux =
     [([''api'', ''v1'', ''health''], False, RHealth), ([''api'', ''v1'', ''tokens''], False, RTokens),
      ([''api'', ''v1'', ''tunnels''], False, RTunnels), ([''api'', ''v1'', ''tunnels''], True, RTunnelByID)]"

datatype served = Served "ResponseWriter outcome" | Redirected string

fun admin_dispatch :: "admin_env \<Rightarrow> admin_route \<Rightarrow> admin_handler" where
  "admin_dispatch env RHealth = adm_handleHealth"
| "admin_dispatch env RTokens = requireAdmin env (handleCreateToken env)"
| "admin_dispatch env RTunnels = requireAdmin env (handleTunnels env)"
| "admin_dispatch env RTunnelByID = requireAdmin env (handleTunnelByID env)"

definition admin_Handler ::
  "admin_env \<Rightarrow> AdminAPI \<Rightarrow> Request \<Rightarrow> ResponseWriter \<Rightarrow> served \<times> AdminAPI" where
  "admin_Handler env a r w =
     (case mux_route admin_mux r of
        Redirect u \<Rightarrow> (Redirected u, a)
      | NotFound \<Rightarrow> (Served (http_Error ''404 page not found'' 404 w), a)
      | Route h \<Rightarrow> (let (res, a') = admin_dispatch env h a r w in (Served res, a')))"

subsection \<open>Replies\<close>

definition reply_body :: "int \<Rightarrow> string \<Rightarrow> json option \<Rightarrow> bytes" where
  "reply_body status msg data =
     bytes_of_string (json_print (enc_APIResponse \<lparr>ar_Code = status, ar_Message = msg, ar_Data = data\<rparr>)
       @ [char_of (10 :: nat)])"

lemma admin_reply_fresh:
  assumes "w_status w = None" "200 \<le> status" "status \<le> 599" "body_allowed status"
  shows "\<exists>w'. admin_reply status msg data a w = (Returned w', a)
    \<and> w_status w' = Some status \<and> w_body w' = w_body w @ reply_body status msg data"
  using assms by (simp add: admin_reply_def writeJSON_def WriteHeader_def Write_def reply_body_def)

lemma admin_reply_snd [simp]: "snd (admin_reply status msg data a w) = a"
  by (simp add: admin_reply_def)

text \<open>Who may pass: a request with a bearer token that validates and has the scope \<open>admin\<close>.\<close>

definition admin_authorized :: "admin_env \<Rightarrow> AdminAPI \<Rightarrow> Request \<Rightarrow> bool" where
  "admin_authorized env a r \<longleftrightarrow>
     (\<exists>x t. header_Get ''Authorization'' (r_Header r) = ''Bearer '' @ x
        \<and> ts_ValidateToken (ae_mac env) (ae_now env) (adm_tokenStore a) x = Inr t
        \<and> ''admin'' \<in> set (tok_Scopes t))"

lemma requireAdmin_pass:
  assumes "admin_authorized env a r"
  shows "requireAdmin env h a r w = h a r w"
proof -
  obtain x t where x: "header_Get ''Authorization'' (r_Header r) = ''Bearer '' @ x"
    "ts_ValidateToken (ae_mac env) (ae_now env) (adm_tokenStore a) x = Inr t"
    "''admin'' \<in> set (tok_Scopes t)"
    using assms by (auto simp: admin_authorized_def)
  have "HasPrefix (''Bearer '' @ x) ''Bearer ''" "TrimPrefix (''Bearer '' @ x) ''Bearer '' = x"
    by (rule HasPrefix_append TrimPrefix_append)+
  with x(2,3) show ?thesis
    unfolding requireAdmin_def x(1) Let_def by (auto simp: list_ex_iff)
qed

lemma requireAdmin_block:
  assumes "\<not> admin_authorized env a r"
  shows "\<exists>status msg. requireAdmin env h a r w = admin_reply status msg None a w \<and> status \<in> {401, 403}"
proof -
  let ?h = "header_Get ''Authorization'' (r_Header r)"
  show ?thesis
  proof (cases "HasPrefix ?h ''Bearer ''")
    case False
    then show ?thesis by (auto simp: requireAdmin_def)
  next
    case True
    then obtain x where x: "?h = ''Bearer '' @ x" by (auto simp: HasPrefix_iff)
    have t: "TrimPrefix (''Bearer '' @ x) ''Bearer '' = x" "HasPrefix (''Bearer '' @ x) ''Bearer ''"
      by (rule TrimPrefix_append HasPrefix_append)+
    show ?thesis
    proof (cases "ts_ValidateToken (ae_mac env) (ae_now env) (adm_tokenStore a) x")
      case (Inl e)
      with t x show ?thesis by (auto simp: requireAdmin_def)
    next
      case (Inr tok)
      with assms x have "''admin'' \<notin> set (tok_Scopes tok)" by (auto simp: admin_authorized_def)
      with Inr t x show ?thesis by (auto simp: requireAdmin_def list_ex_iff)
    qed
  qed
qed

subsection \<open>An example\<close>

definition ex_env :: admin_env where
  "ex_env =
     \<lparr>ae_mac = ex_mac, ae_now = 2000, ae_seen = 1800, ae_taken = 1900, ae_rand = Some [1, 2], ae_order = [''c1-app''],
      ae_json_error = (\<lambda>_. ''EOF''), ae_time = FormatInt\<rparr>"

definition ex_admin :: AdminAPI where
  "ex_admin = NewAdminAPI ex_store ex_registry NewMetrics"

definition ex_auth_request :: "string \<Rightarrow> string \<Rightarrow> bytes option \<Rightarrow> Request" where
  "ex_auth_request meth path body =
     \<lparr>r_Method = meth, r_Host = ''gw'', r_Path = path, r_EscapedPath = path, r_RawQuery = [],
      r_RequestURI = path, r_Header = [''Authorization'' \<mapsto> [''Bearer '' @ tok_ID ex_token]],
      r_HeaderKeys = [''Authorization''], r_Body = body, r_RemoteAddr = ''10.0.0.1:99''\<rparr>"

lemma ex_authorized: "admin_authorized ex_env ex_admin (ex_auth_request meth path body)"
proof -
  have k: "CanonicalHeaderKey ''Authorization'' = ''Authorization''" by code_simp
  have "ts_ValidateToken ex_mac 2000 ex_store (tok_ID ex_token) = Inr ex_token"
    using mts.validate_iff [OF ex_store_inv] by (simp add: ex_store_def ex_token_def)
  then show ?thesis
    by (auto simp: admin_authorized_def ex_env_def ex_admin_def NewAdminAPI_def ex_auth_request_def
        header_Get_def k ex_token_def)
qed

subsection \<open>Properties\<close>

text \<open>C8. Every route of the API except the health check is closed to a request without a valid bearer
  token of scope \<open>admin\<close>: it is answered with 401 or 403 and neither the tokens nor the tunnels
  change.\<close>

theorem admin_gate:
  assumes "\<not> admin_authorized env a r" "w_status w = None" "mux_route admin_mux r = Route h" "h \<noteq> RHealth"
  shows "\<exists>w'. admin_Handler env a r w = (Served (Returned w'), a) \<and> w_status w' \<in> {Some 401, Some 403}"
proof -
  obtain g where "admin_dispatch env h = requireAdmin env g" using assms(4) by (cases h) auto
  moreover obtain status msg where "requireAdmin env g a r w = admin_reply status msg None a w"
    "status \<in> {401, 403}"
    using requireAdmin_block [OF assms(1)] by blast
  moreover from this(2) have "\<exists>w'. admin_reply status msg None a w = (Returned w', a)
      \<and> w_status w' = Some status"
    using admin_reply_fresh [OF assms(2), of status msg None a] by (auto simp: body_allowed_def)
  ultimately show ?thesis using assms(3) by (auto simp: admin_Handler_def)
qed

theorem admin_gate_witness:
  "\<exists>w'. admin_Handler ex_env ex_admin (ex_auth_request ''GET'' ''/api/v1/tunnels'' None\<lparr>r_Header := Map.empty\<rparr>)
      new_response = (Served (Returned w'), ex_admin) \<and> w_status w' \<in> {Some 401, Some 403}"
proof (rule admin_gate)
  let ?r = "ex_auth_request ''GET'' ''/api/v1/tunnels'' None\<lparr>r_Header := Map.empty\<rparr>"
  show "\<not> admin_authorized ex_env ex_admin ?r" by (simp add: admin_authorized_def header_Get_def)
  show "w_status new_response = None" by (simp add: new_response_def)
  have "cleanPath ''/api/v1/tunnels'' = ''/api/v1/tunnels''"
    "path_segments ''/api/v1/tunnels'' = [''api'', ''v1'', ''tunnels'']"
    by code_simp+
  then show "mux_route admin_mux ?r = Route RTunnels"
    by (simp add: mux_route_def ex_auth_request_def mux_find_def mux_exact_def admin_mux_def)
qed simp

text \<open>The body of a request to create a token, as JSON.\<close>

definition enc_createTokenRequest :: "createTokenRequest \<Rightarrow> json" where
  "enc_createTokenRequest q =
     JObj [(''user_id'', JStr (ctr_UserID q)),
           (''scopes'', case ctr_Scopes q of None \<Rightarrow> JNull | Some xs \<Rightarrow> JArr (map JStr xs)),
           (''ttl_minutes'', enc_int (ctr_TTLMinutes q))]"

lemma decode_body_enc:
  assumes "r_Body r = Some (bytes_of_string (json_print (enc_createTokenRequest q)))"
    and "valid_utf8 (ctr_UserID q)" "list_all valid_utf8 (scope_list (ctr_Scopes q))"
    and "int64_ok (ctr_TTLMinutes q)"
  shows "decode_body r = Some q"
proof -
  have f: "fold_name ''user_id'' = ''user_id''" "fold_name ''scopes'' = ''scopes''"
    "fold_name ''ttl_minutes'' = ''ttl_minutes''"
    by (rule fold_name_plain, simp add: plain_name_def lower_byte_def)+
  have v: "valid_utf8 ''user_id''" "valid_utf8 ''scopes''" "valid_utf8 ''ttl_minutes''"
    by (rule valid_utf8_ascii, simp add: is_ascii_def)+
  have "json_ok max_depth (enc_createTokenRequest q)"
    using assms(2,3) v
    by (auto simp: enc_createTokenRequest_def max_depth_def scope_list_def list_all_iff split: option.splits)
  from json_Decode_print [OF this num_end_punct(1)]
  have "json_Decode (json_print (enc_createTokenRequest q)) = Some (enc_createTokenRequest q)" by simp
  moreover have "dec_opt_slice dec_string []
      (case ctr_Scopes q of None \<Rightarrow> JNull | Some xs \<Rightarrow> JArr (map JStr xs)) x = Some (ctr_Scopes q)" for x
    by (simp add: dec_opt_slice_def dec_list_enc dec_string_enc split: option.split)
  then have "dec_createTokenRequest (enc_createTokenRequest q) zero_createTokenRequest = Some q"
    using assms(4) by (simp add: dec_createTokenRequest_def enc_createTokenRequest_def
        zero_createTokenRequest_def dec_struct_def dec_field_def f dec_int_enc dec_string_enc)
  ultimately show ?thesis using assms(1) by (simp add: decode_body_def)
qed

lemma handleCreateToken_ok:
  assumes "r_Method r = ''POST''" "decode_body r = Some req" "ctr_UserID req \<noteq> []"
    and "set (scope_list (ctr_Scopes req)) \<subseteq> validScopes" "ae_rand env = Some rnd"
    and "0 \<le> ctr_TTLMinutes req" "ctr_TTLMinutes req \<le> 153722867" "w_status w = None"
  shows "\<exists>w' ts t. handleCreateToken env a r w = (Returned w', a\<lparr>adm_tokenStore := ts\<rparr>) \<and> w_status w' = Some 201
    \<and> tokens ts = (tokens (adm_tokenStore a))(tok_ID t \<mapsto> t)
    \<and> tok_UserID t = ctr_UserID req \<and> tok_Scopes t = scope_list (ctr_Scopes req)
    \<and> (\<forall>now'. ts_ValidateToken (ae_mac env) now' ts (tok_ID t) =
         (if now' \<le> ae_now env + ctr_TTLMinutes req * 60000000000 then Inr t else Inl ErrTokenExpired))"
proof -
  let ?c = "ts_CreateToken (ae_mac env) (Some rnd) (ae_now env) (adm_tokenStore a) (ctr_UserID req)
      (scope_list (ctr_Scopes req)) (ctr_TTLMinutes req)"
  have "bad_scope (scope_list (ctr_Scopes req)) = None" using assms(4) by (simp add: bad_scope_None)
  then obtain t ts where c: "?c = (Inr t, ts)" by (auto simp: ts_CreateToken_def Let_def)
  note ok = ts_CreateToken_ok [OF c]
  have "well_signed (ae_mac env) (signingKey ts) (tok_ID t)"
    using ok(3,8) well_signed_token_string by auto
  moreover have "tok_ExpiresAt t = ae_now env + ctr_TTLMinutes req * 60000000000"
    using assms(6,7) ok(7) by (simp add: dur_mult_minutes)
  ultimately have val: "ts_ValidateToken (ae_mac env) now' ts (tok_ID t) =
      (if now' \<le> ae_now env + ctr_TTLMinutes req * 60000000000 then Inr t else Inl ErrTokenExpired)" for now'
    using ok by (simp add: ts_ValidateToken_eq)
  have "handleCreateToken env a r w = admin_reply 201 ''token created''
      (Some (enc_Token (ae_time env) (ctr_Scopes req) t)) (a\<lparr>adm_tokenStore := ts\<rparr>) w"
    using assms(1-3,5) c by (simp add: handleCreateToken_def)
  with admin_reply_fresh [OF assms(8), of 201 "''token created''"
      "Some (enc_Token (ae_time env) (ctr_Scopes req) t)" "a\<lparr>adm_tokenStore := ts\<rparr>"]
  obtain w' where "handleCreateToken env a r w = (Returned w', a\<lparr>adm_tokenStore := ts\<rparr>)"
    "w_status w' = Some 201"
    by (auto simp: body_allowed_def)
  with val ok(2,5,6) show ?thesis by (intro exI [of _ w'] exI [of _ ts] exI [of _ t]) simp
qed

lemma validScopes_utf8: "set xs \<subseteq> validScopes \<Longrightarrow> list_all valid_utf8 xs"
  by (auto simp: list_all_iff validScopes_def valid_utf8_ascii is_ascii_def)

text \<open>C29. A request to create a token that is authorized as an admin's and reaches the route for tokens,
  with the method POST and a JSON body naming a user (not empty, UTF-8), a list of known scopes and a
  TTL from 0 to 153722867 minutes, stores one new token for that user and those scopes, leaves the
  other tokens, the registry and the metrics alone, and answers 201, provided the random source does not fail. The token is accepted
  until the given number of minutes after its creation and reported as expired afterwards. (A larger
  TTL overflows the conversion to nanoseconds: \<open>CreateToken_ttl_overflow\<close>.)\<close>

theorem handleCreateToken_creates:
  assumes "admin_authorized env a r" "mux_route admin_mux r = Route RTokens" "r_Method r = ''POST''"
    and "r_Body r = Some (bytes_of_string (json_print
      (JObj [(''user_id'', JStr user), (''scopes'', JArr (map JStr scopes)),
             (''ttl_minutes'', JNum (FormatInt ttl))])))"
    and "user \<noteq> []" "valid_utf8 user" "set scopes \<subseteq> validScopes"
    and "0 \<le> ttl" "ttl \<le> 153722867" "ae_rand env = Some rnd" "w_status w = None"
  shows "\<exists>w' a' t. admin_Handler env a r w = (Served (Returned w'), a') \<and> w_status w' = Some 201
    \<and> adm_registry a' = adm_registry a \<and> adm_metrics a' = adm_metrics a
    \<and> tokens (adm_tokenStore a') = (tokens (adm_tokenStore a))(tok_ID t \<mapsto> t)
    \<and> tok_UserID t = user \<and> tok_Scopes t = scopes
    \<and> (\<forall>now'. ts_ValidateToken (ae_mac env) now' (adm_tokenStore a') (tok_ID t) =
         (if now' \<le> ae_now env + ttl * 60000000000 then Inr t else Inl ErrTokenExpired))"
proof -
  let ?q = "\<lparr>ctr_UserID = user, ctr_Scopes = Some scopes, ctr_TTLMinutes = ttl\<rparr>"
  have q: "decode_body r = Some ?q"
    by (rule decode_body_enc) (use assms(4,6-9) in \<open>simp_all add: enc_createTokenRequest_def enc_int_def
      scope_list_def validScopes_utf8 int64_ok_def min_int64_def max_int64_def\<close>)
  from handleCreateToken_ok [OF assms(3) q, of env rnd w a] assms(5,7-11)
  obtain w' ts t where h: "handleCreateToken env a r w = (Returned w', a\<lparr>adm_tokenStore := ts\<rparr>)"
    "w_status w' = Some 201" "tokens ts = (tokens (adm_tokenStore a))(tok_ID t \<mapsto> t)"
    "tok_UserID t = user" "tok_Scopes t = scopes"
    "\<forall>now'. ts_ValidateToken (ae_mac env) now' ts (tok_ID t) =
         (if now' \<le> ae_now env + ttl * 60000000000 then Inr t else Inl ErrTokenExpired)"
    by (auto simp: scope_list_def)
  have "admin_Handler env a r w = (Served (Returned w'), a\<lparr>adm_tokenStore := ts\<rparr>)"
    using assms(2) h(1) by (simp add: admin_Handler_def requireAdmin_pass [OF assms(1)])
  with h(2-6) show ?thesis
    by (intro exI [of _ w'] exI [of _ "a\<lparr>adm_tokenStore := ts\<rparr>"] exI [of _ t]) simp
qed

theorem handleCreateToken_creates_witness:
  "\<exists>w' a' t. admin_Handler ex_env ex_admin (ex_auth_request ''POST'' ''/api/v1/tokens''
      (Some (bytes_of_string (json_print (JObj [(''user_id'', JStr ''bob''), (''scopes'', JArr (map JStr [''list''])),
        (''ttl_minutes'', JNum (FormatInt 1))])))))
      new_response = (Served (Returned w'), a')
    \<and> w_status w' = Some 201 \<and> tok_UserID t = ''bob''
    \<and> ts_ValidateToken ex_mac 3000 (adm_tokenStore a') (tok_ID t) = Inr t
    \<and> ts_ValidateToken ex_mac 60000002001 (adm_tokenStore a') (tok_ID t) = Inl ErrTokenExpired"
proof -
  let ?r = "ex_auth_request ''POST'' ''/api/v1/tokens''
      (Some (bytes_of_string (json_print (JObj [(''user_id'', JStr ''bob''), (''scopes'', JArr (map JStr [''list''])),
        (''ttl_minutes'', JNum (FormatInt 1))]))))"
  have p: "cleanPath ''/api/v1/tokens'' = ''/api/v1/tokens''" "path_segments ''/api/v1/tokens'' = [''api'', ''v1'', ''tokens'']"
    by code_simp+
  then have m: "mux_route admin_mux ?r = Route RTokens"
    by (simp add: mux_route_def ex_auth_request_def mux_find_def mux_exact_def admin_mux_def)
  have v: "valid_utf8 ''bob''" "set [''list''] \<subseteq> validScopes" "ae_rand ex_env = Some [1, 2]" "w_status new_response = None"
    by (simp_all add: valid_utf8_ascii is_ascii_def validScopes_def ex_env_def new_response_def)
  have b: "r_Method ?r = ''POST''" "r_Body ?r = Some (bytes_of_string (json_print (JObj [(''user_id'', JStr ''bob''),
      (''scopes'', JArr (map JStr [''list''])), (''ttl_minutes'', JNum (FormatInt 1))])))"
    by (simp_all add: ex_auth_request_def)
  have e: "ae_mac ex_env = ex_mac" "ae_now ex_env = 2000" by (simp_all add: ex_env_def)
  from handleCreateToken_creates [OF ex_authorized m b _ v(1,2) _ _ v(3,4)]
  obtain w' a' t where "admin_Handler ex_env ex_admin ?r new_response = (Served (Returned w'), a')"
    "w_status w' = Some 201" "tok_UserID t = ''bob''"
    "\<And>now'. ts_ValidateToken ex_mac now' (adm_tokenStore a') (tok_ID t) =
       (if now' \<le> 2000 + 60000000000 then Inr t else Inl ErrTokenExpired)"
    unfolding e by auto
  then show ?thesis by (intro exI [of _ w'] exI [of _ a'] exI [of _ t]) simp
qed

text \<open>Deleting a tunnel by its ID answers 200 and removes exactly the tunnel with that ID when there is
  one, and answers 404 and changes nothing otherwise. The gauge of active tunnels is not touched.\<close>

theorem handleTunnelByID_deletes:
  assumes "registry_inv (adm_registry a)" "r_Method r = ''DELETE''" "w_status w = None"
    and "r_Path r = ''/api/v1/tunnels/'' @ i" "i \<noteq> []"
  shows "\<exists>w' a'. handleTunnelByID env a r w = (Returned w', a')
    \<and> w_status w' = Some (if \<exists>sub t. registry_view (adm_registry a) sub = Some t \<and> tun_ID t = i then 200 else 404)
    \<and> registry_view (adm_registry a') = without_id (registry_view (adm_registry a)) i
    \<and> adm_tokenStore a' = adm_tokenStore a \<and> adm_metrics a' = adm_metrics a"
proof -
  have t: "TrimPrefix (''/api/v1/tunnels/'' @ i) ''/api/v1/tunnels/'' = i" by (rule TrimPrefix_append)
  obtain err reg where u: "mr_Unregister (adm_registry a) i = (err, reg)" by (metis surj_pair)
  have res: "err = None \<longleftrightarrow> (\<exists>sub t. registry_view (adm_registry a) sub = Some t \<and> tun_ID t = i)"
    using mreg.unregister_result [OF assms(1), of i] u by simp
  have view: "registry_view reg = without_id (registry_view (adm_registry a)) i"
    using mreg.unregister_law [OF assms(1), of i] u by simp
  let ?st = "if err = None then 200 else 404 :: int"
  obtain msg where m: "handleTunnelByID env a r w = admin_reply ?st msg None (a\<lparr>adm_registry := reg\<rparr>) w"
    using assms(2,5) u t unfolding handleTunnelByID_def assms(4) by (cases err) auto
  have "200 \<le> ?st" "?st \<le> 599" "body_allowed ?st" by (simp_all add: body_allowed_def)
  with m obtain w' where "handleTunnelByID env a r w = (Returned w', a\<lparr>adm_registry := reg\<rparr>)"
    "w_status w' = Some ?st"
    using admin_reply_fresh [OF assms(3), of ?st msg None "a\<lparr>adm_registry := reg\<rparr>"] by auto
  with res view show ?thesis by auto
qed

theorem handleTunnelByID_deletes_witness:
  "\<exists>w' a'. handleTunnelByID ex_env ex_admin (ex_auth_request ''DELETE'' (''/api/v1/tunnels/'' @ ''c1-app'') None)
      new_response = (Returned w', a')
    \<and> w_status w' = Some 200 \<and> registry_view (adm_registry a') ''app'' = None"
proof -
  have "registry_view ex_registry ''app'' = Some (ex_tunnel\<lparr>tun_TTL := 60\<rparr>)"
    by (simp add: view_Some_iff [OF ex_registry_inv] ex_registry_tunnels ex_tunnel_def)
  moreover have "tun_ID (ex_tunnel\<lparr>tun_TTL := 60\<rparr>) = ''c1-app''" by (simp add: ex_tunnel_def)
  moreover note handleTunnelByID_deletes [of ex_admin "ex_auth_request ''DELETE'' (''/api/v1/tunnels/'' @ ''c1-app'')
      None" new_response "''c1-app''" ex_env]
  ultimately show ?thesis
    by (fastforce simp: ex_admin_def NewAdminAPI_def ex_registry_inv ex_auth_request_def new_response_def
        without_id_def)
qed

subsection \<open>Every reply is a JSON envelope\<close>

text \<open>What a handler may answer: a reply whose data the JSON encoder can write.\<close>

definition is_reply :: "ResponseWriter \<Rightarrow> ResponseWriter outcome \<times> AdminAPI \<Rightarrow> bool" where
  "is_reply w res \<longleftrightarrow>
     (\<exists>status msg data a'. res = admin_reply status msg data a' w
        \<and> status \<in> {200, 201, 400, 401, 403, 404, 405, 500}
        \<and> (\<forall>j. data = Some j \<longrightarrow> json_shape 100 j))"

lemma is_reply_intro:
  "status \<in> {200, 201, 400, 401, 403, 404, 405, 500} \<Longrightarrow> (\<And>j. data = Some j \<Longrightarrow> json_shape 100 j)
     \<Longrightarrow> is_reply w (admin_reply status msg data a w)"
  unfolding is_reply_def by blast

lemma json_shape_enc_int: "json_shape d (enc_int i)"
  by (auto simp: enc_int_def)

lemma json_shape_data:
  "json_shape 98 (enc_Tunnel tm t)" "json_shape 100 (enc_Token tm scopes tok)"
  by (auto simp: enc_Tunnel_def enc_Token_def json_shape_enc_int list_all_iff split: option.split)

lemma json_shape_tunnels: "json_shape 100 (JArr (map (enc_Tunnel tm) ts))"
  using json_shape_data(1) by (auto simp: list_all_iff enc_Tunnel_def json_shape_enc_int)

lemma admin_dispatch_reply: "is_reply w (admin_dispatch env h a r w)"
proof -
  have gate: "is_reply w (requireAdmin env g a r w)" if "is_reply w (g a r w)" for g
  proof (cases "admin_authorized env a r")
    case True
    with that show ?thesis by (simp add: requireAdmin_pass)
  next
    case False
    from requireAdmin_block [OF False, of g w] obtain status msg
      where "requireAdmin env g a r w = admin_reply status msg None a w" "status \<in> {401, 403}" by blast
    then show ?thesis by (auto intro!: is_reply_intro)
  qed
  show ?thesis
  proof (cases h)
    case RHealth
    then show ?thesis by (auto simp: adm_handleHealth_def intro!: is_reply_intro)
  next
    case RTokens
    have "is_reply w (handleCreateToken env a r w)"
      by (auto simp: handleCreateToken_def json_shape_data split: option.split prod.split sum.split
          intro!: is_reply_intro)
    with RTokens gate show ?thesis by simp
  next
    case RTunnels
    have "is_reply w (handleTunnels env a r w)"
      unfolding handleTunnels_def Let_def
      by (auto simp: json_shape_tunnels simp del: json_shape.simps(5) intro!: is_reply_intro)
    with RTunnels gate show ?thesis by simp
  next
    case RTunnelByID
    have "is_reply w (handleTunnelByID env a r w)"
      by (auto simp: handleTunnelByID_def Let_def split: option.split prod.split intro!: is_reply_intro)
    with RTunnelByID gate show ?thesis by simp
  qed
qed

text \<open>Every route of the API answers with one JSON object that a JSON decoder reads back, whose \<open>code\<close>
  is the HTTP status of the response; no handler panics.\<close>

theorem admin_replies_json:
  assumes "mux_route admin_mux r = Route h" "w_status w = None" "w_body w = []"
  shows "\<exists>w' a' status rest. admin_Handler env a r w = (Served (Returned w'), a')
    \<and> w_status w' = Some status
    \<and> json_Decode (string_of_bytes (w_body w')) = Some (JObj ((''code'', enc_int status) # rest))"
proof -
  obtain status msg data a' where d: "admin_dispatch env h a r w = admin_reply status msg data a' w"
    and st: "status \<in> {200, 201, 400, 401, 403, 404, 405, 500}"
    and data: "\<And>j. data = Some j \<Longrightarrow> json_shape 100 j"
    using admin_dispatch_reply [of w env h a r] by (auto simp: is_reply_def)
  let ?j = "enc_APIResponse \<lparr>ar_Code = status, ar_Message = msg, ar_Data = data\<rparr>"
  obtain w' where w': "admin_reply status msg data a' w = (Returned w', a')" "w_status w' = Some status"
    "w_body w' = reply_body status msg data"
    using admin_reply_fresh [OF assms(2), of status msg data a'] st assms(3)
    by (auto simp: body_allowed_def)
  have mono: "json_shape n j \<Longrightarrow> n \<le> m \<Longrightarrow> json_shape m j" for n m j
  proof (induction j arbitrary: n m rule: json_shape.induct)
  qed (fastforce simp: list_all_iff)+
  have shape: "json_shape max_depth ?j"
    using data mono [of 100] by (auto simp: enc_APIResponse_def json_shape_enc_int max_depth_def split: option.split)
  have "num_end [char_of (10 :: nat)]" by code_simp
  from parse_print(1) [OF shape this]
  have "json_Decode (json_print ?j @ [char_of (10 :: nat)]) = Some (sanitize_json ?j)"
    by (simp add: json_Decode_def parse_json_def)
  moreover have "sanitize_json ?j = JObj ((''code'', enc_int status) # (''message'', JStr (sanitize msg))
      # (case data of None \<Rightarrow> [] | Some x \<Rightarrow> [(''data'', sanitize_json x)]))"
    by (simp add: enc_APIResponse_def enc_int_def sanitize_valid valid_utf8_ascii is_ascii_def
        split: option.split)
  ultimately show ?thesis
    using assms(1) d w' by (simp add: admin_Handler_def reply_body_def)
qed

theorem admin_replies_json_witness:
  "\<exists>w' a' status rest. admin_Handler ex_env ex_admin (ex_auth_request ''GET'' ''/api/v1/tunnels'' None)
      new_response = (Served (Returned w'), a') \<and> w_status w' = Some status
    \<and> json_Decode (string_of_bytes (w_body w')) = Some (JObj ((''code'', enc_int status) # rest))"
proof (rule admin_replies_json)
  have "cleanPath ''/api/v1/tunnels'' = ''/api/v1/tunnels''"
    "path_segments ''/api/v1/tunnels'' = [''api'', ''v1'', ''tunnels'']"
    by code_simp+
  then show "mux_route admin_mux (ex_auth_request ''GET'' ''/api/v1/tunnels'' None) = Route RTunnels"
    by (simp add: mux_route_def ex_auth_request_def mux_find_def mux_exact_def admin_mux_def)
qed (simp_all add: new_response_def)

end
