(* ===== verification/Ratelimit.thy ===== *)
theory Ratelimit
  imports Http
begin

text \<open>
  \<open>internal/server/ratelimit.go\<close>. The token bucket itself is third-party code
  (\<open>golang.org/x/time/rate\<close>), so its state is a type parameter \<open>'lim\<close> with two operations as
  parameters: \<open>new_limiter\<close> is \<open>rate.NewLimiter\<close> for a limit (given as its requests per minute) and a
  burst, \<open>lim_allow\<close> is \<open>Limiter.Allow\<close> at a time. A visitor holds a pointer to its limiter, and
  \<open>Allow\<close> uses the limiter after it released the mutex, when the visitor may be gone: so the limiters
  ever made stand in a list and a pointer is an index into it. \<open>rl_visit\<close> is the critical section of
  \<open>Allow\<close>, \<open>rl_take\<close> the call after it; each reads the clock for itself. One tick of \<open>cleanupLoop\<close> is
  \<open>cleanup_tick\<close>; the order of its \<open>range\<close> loop is an argument.
\<close>

record visitor =
  v_limiter :: nat
  v_lastSeen :: go_time

record 'lim RateLimiter =
  rl_visitors :: "string \<rightharpoonup> visitor"
  rl_limiters :: "'lim list"
  rl_rps :: int
  rl_burst :: int

definition NewRateLimiter :: "int \<Rightarrow> 'lim RateLimiter" where
  "NewRateLimiter requestsPerMin =
     \<lparr>rl_visitors = Map.empty, rl_limiters = [], rl_rps = requestsPerMin, rl_burst = requestsPerMin\<rparr>"

definition rl_visit ::
  "(int \<Rightarrow> int \<Rightarrow> 'lim) \<Rightarrow> go_time \<Rightarrow> string \<Rightarrow> 'lim RateLimiter \<Rightarrow> nat \<times> 'lim RateLimiter"
where
  "rl_visit new_limiter now ip rl =
     (case rl_visitors rl ip of
        Some v \<Rightarrow> (v_limiter v, rl\<lparr>rl_visitors := (rl_visitors rl)(ip \<mapsto> v\<lparr>v_lastSeen := now\<rparr>)\<rparr>)
      | None \<Rightarrow>
          (let p = length (rl_limiters rl)
           in (p, rl\<lparr>rl_limiters := rl_limiters rl @ [new_limiter (rl_rps rl) (rl_burst rl)],
                     rl_visitors := (rl_visitors rl)(ip \<mapsto> \<lparr>v_limiter = p, v_lastSeen = now\<rparr>)\<rparr>)))"

definition rl_take ::
  "(go_time \<Rightarrow> 'lim \<Rightarrow> bool \<times> 'lim) \<Rightarrow> go_time \<Rightarrow> nat \<Rightarrow> 'lim RateLimiter \<Rightarrow> bool \<times> 'lim RateLimiter"
where
  "rl_take lim_allow now p rl =
     (let (ok, l) = lim_allow now (rl_limiters rl ! p)
      in (ok, rl\<lparr>rl_limiters := (rl_limiters rl)[p := l]\<rparr>))"

text \<open>\<open>seen\<close> is the time stored in \<open>lastSeen\<close>, \<open>now\<close> the one the limiter reads.\<close>

definition rl_Allow ::
  "(int \<Rightarrow> int \<Rightarrow> 'lim) \<Rightarrow> (go_time \<Rightarrow> 'lim \<Rightarrow> bool \<times> 'lim) \<Rightarrow> go_time \<Rightarrow> go_time \<Rightarrow> 'lim RateLimiter
     \<Rightarrow> string \<Rightarrow> bool \<times> 'lim RateLimiter"
where
  "rl_Allow new_limiter lim_allow seen now rl ip =
     (let (p, rl') = rl_visit new_limiter seen ip rl in rl_take lim_allow now p rl')"

definition remote_ip :: "Request \<Rightarrow> string" where
  "remote_ip r = (case SplitHostPort (r_RemoteAddr r) of Some (ip, port) \<Rightarrow> ip | None \<Rightarrow> r_RemoteAddr r)"

text \<open>\<open>Middleware\<close>: \<open>Inl\<close> is the response of a rejected request, \<open>Inr\<close> means \<open>next.ServeHTTP(w, r)\<close>.\<close>

definition rl_Middleware ::
  "(int \<Rightarrow> int \<Rightarrow> 'lim) \<Rightarrow> (go_time \<Rightarrow> 'lim \<Rightarrow> bool \<times> 'lim) \<Rightarrow> go_time \<Rightarrow> go_time \<Rightarrow> 'lim RateLimiter
     \<Rightarrow> Request \<Rightarrow> ResponseWriter \<Rightarrow> (ResponseWriter outcome + ResponseWriter) \<times> 'lim RateLimiter"
where
  "rl_Middleware new_limiter lim_allow seen now rl r w =
     (let (ok, rl') = rl_Allow new_limiter lim_allow seen now rl (remote_ip r)
      in if ok then (Inr w, rl') else (Inl (http_Error ''rate limit exceeded'' 429 w), rl'))"

definition visitor_stale :: "go_time \<Rightarrow> visitor \<Rightarrow> bool" where
  "visitor_stale now v \<longleftrightarrow> dur_mult 10 Minute < time_Sub now (v_lastSeen v)"

fun cleanup_tick :: "string list \<Rightarrow> go_time \<Rightarrow> 'lim RateLimiter \<Rightarrow> 'lim RateLimiter" where
  "cleanup_tick [] now rl = rl"
| "cleanup_tick (ip # ips) now rl =
     cleanup_tick ips now
       (case rl_visitors rl ip of
          Some v \<Rightarrow> (if visitor_stale now v then rl\<lparr>rl_visitors := (rl_visitors rl)(ip := None)\<rparr> else rl)
        | None \<Rightarrow> rl)"

subsection \<open>The cleanup\<close>

lemma cleanup_tick_visitors:
  "rl_visitors (cleanup_tick order now rl) ip =
     (case rl_visitors rl ip of
        Some v \<Rightarrow> (if visitor_stale now v \<and> ip \<in> set order then None else Some v)
      | None \<Rightarrow> None)"
  by (induction order arbitrary: rl) (auto split: option.splits)

lemma cleanup_tick_rest [simp]:
  "rl_limiters (cleanup_tick order now rl) = rl_limiters rl" "rl_rps (cleanup_tick order now rl) = rl_rps rl"
  "rl_burst (cleanup_tick order now rl) = rl_burst rl"
  by (induction order arbitrary: rl) (auto split: option.splits)

lemma visitor_stale_iff: "visitor_stale now v \<longleftrightarrow> v_lastSeen v + 600000000000 < now"
proof -
  have "dur_mult 10 Minute = 600000000000"
    by (simp add: dur_mult_def Minute_def wrap64_def)
  moreover have "600000000000 < time_Sub now (v_lastSeen v) \<longleftrightarrow> 600000000000 < now - v_lastSeen v"
    by (rule time_Sub_gt_iff) (simp_all add: min_int64_def max_int64_def)
  ultimately show ?thesis by (auto simp: visitor_stale_def)
qed

subsection \<open>Runs\<close>

text \<open>
  The steps of many goroutines and of the cleanup, in the order in which they happen: goroutine \<open>k\<close>
  enters \<open>Allow\<close> for an address, and later asks the limiter it found there. \<open>pend\<close> is what each
  goroutine holds in between; the result lists the decisions.
\<close>

datatype rl_event = Visit go_time nat string | Take go_time nat | Tick go_time "string list"

fun event_time :: "rl_event \<Rightarrow> go_time" where
  "event_time (Visit t k ip) = t"
| "event_time (Take t k) = t"
| "event_time (Tick t order) = t"

fun rl_run ::
  "(int \<Rightarrow> int \<Rightarrow> 'lim) \<Rightarrow> (go_time \<Rightarrow> 'lim \<Rightarrow> bool \<times> 'lim) \<Rightarrow> (nat \<rightharpoonup> nat) \<Rightarrow> 'lim RateLimiter
     \<Rightarrow> rl_event list \<Rightarrow> bool list"
where
  "rl_run new_limiter lim_allow pend rl [] = []"
| "rl_run new_limiter lim_allow pend rl (Visit t k ip # es) =
     (let (p, rl') = rl_visit new_limiter t ip rl
      in rl_run new_limiter lim_allow (pend(k \<mapsto> p)) rl' es)"
| "rl_run new_limiter lim_allow pend rl (Take t k # es) =
     (case pend k of
        None \<Rightarrow> rl_run new_limiter lim_allow pend rl es
      | Some p \<Rightarrow>
          (let (ok, rl') = rl_take lim_allow t p rl
           in ok # rl_run new_limiter lim_allow (pend(k := None)) rl' es))"
| "rl_run new_limiter lim_allow pend rl (Tick t order # es) =
     rl_run new_limiter lim_allow pend (cleanup_tick order t rl) es"

text \<open>The reference: every address has its own bucket, for ever, asked by its own requests.\<close>

fun bucket_run ::
  "(go_time \<Rightarrow> 'lim \<Rightarrow> bool \<times> 'lim) \<Rightarrow> (nat \<rightharpoonup> string) \<Rightarrow> (string \<Rightarrow> 'lim) \<Rightarrow> rl_event list \<Rightarrow> bool list"
where
  "bucket_run lim_allow addr b [] = []"
| "bucket_run lim_allow addr b (Visit t k ip # es) = bucket_run lim_allow (addr(k \<mapsto> ip)) b es"
| "bucket_run lim_allow addr b (Take t k # es) =
     (case addr k of
        None \<Rightarrow> bucket_run lim_allow addr b es
      | Some ip \<Rightarrow>
          (let (ok, l) = lim_allow t (b ip)
           in ok # bucket_run lim_allow (addr(k := None)) (b(ip := l)) es))"
| "bucket_run lim_allow addr b (Tick t order # es) = bucket_run lim_allow addr b es"

text \<open>No goroutine stays between the two parts of \<open>Allow\<close> for more than five minutes.\<close>

definition five_minutes :: int where "five_minutes = 300000000000"

fun waits_after :: "rl_event \<Rightarrow> (nat \<times> go_time) list \<Rightarrow> (nat \<times> go_time) list" where
  "waits_after (Visit t k ip) wait = (k, t) # filter (\<lambda>w. fst w \<noteq> k) wait"
| "waits_after (Take t k) wait = filter (\<lambda>w. fst w \<noteq> k) wait"
| "waits_after (Tick t order) wait = wait"

fun prompt :: "(nat \<times> go_time) list \<Rightarrow> rl_event list \<Rightarrow> bool" where
  "prompt wait [] \<longleftrightarrow> True"
| "prompt wait (e # es) \<longleftrightarrow>
     list_all (\<lambda>w. event_time e \<le> snd w + five_minutes) wait \<and> prompt (waits_after e wait) es"

text \<open>
  What the rate limiter relies on: a bucket that holds at most one minute's worth of requests and
  refills at that rate is full again, as a new one is, when nobody asked it for five minutes. The calls
  before may have been granted or denied; a denied call need not change the bucket.
\<close>

definition after_calls :: "(go_time \<Rightarrow> 'lim \<Rightarrow> bool \<times> 'lim) \<Rightarrow> go_time list \<Rightarrow> 'lim \<Rightarrow> 'lim" where
  "after_calls lim_allow ts l = foldl (\<lambda>l s. snd (lim_allow s l)) l ts"

definition refills :: "'lim \<Rightarrow> (go_time \<Rightarrow> 'lim \<Rightarrow> bool \<times> 'lim) \<Rightarrow> bool" where
  "refills fresh lim_allow \<longleftrightarrow>
     (\<forall>ts t. sorted ts \<longrightarrow> (\<forall>s\<in>set ts. s + five_minutes < t) \<longrightarrow>
        lim_allow t (after_calls lim_allow ts fresh) = lim_allow t fresh)"

lemma after_calls_snoc: "after_calls lim_allow (ts @ [t]) l = snd (lim_allow t (after_calls lim_allow ts l))"
  by (simp add: after_calls_def)

subsection \<open>Dropping a visitor cannot be observed\<close>

text \<open>
  The relation between the two runs. \<open>hist ip\<close> are the times at which the bucket of \<open>ip\<close> was asked; a
  listed visitor's limiter is in the state of the reference bucket, or it is new while the reference
  bucket has been idle; a goroutine between the two parts holds the limiter of the listed visitor.
\<close>

definition visitor_ok ::
  "'lim \<Rightarrow> (go_time \<Rightarrow> 'lim \<Rightarrow> bool \<times> 'lim) \<Rightarrow> 'lim list \<Rightarrow> go_time \<Rightarrow> visitor option \<Rightarrow> go_time list \<Rightarrow> bool"
where
  "visitor_ok fresh lim_allow lims now v ts \<longleftrightarrow>
     sorted ts \<and> (\<forall>s\<in>set ts. s \<le> now)
     \<and> (case v of
          None \<Rightarrow> \<forall>s\<in>set ts. s + five_minutes < now
        | Some v \<Rightarrow> v_limiter v < length lims \<and> (\<forall>s\<in>set ts. s \<le> v_lastSeen v + five_minutes)
            \<and> (lims ! v_limiter v = after_calls lim_allow ts fresh
               \<or> lims ! v_limiter v = fresh \<and> (\<forall>s\<in>set ts. s + five_minutes < now)))"

definition holder_ok ::
  "(string \<rightharpoonup> visitor) \<Rightarrow> (nat \<times> go_time) list \<Rightarrow> nat \<Rightarrow> nat option \<Rightarrow> string option \<Rightarrow> bool"
where
  "holder_ok vs wait k p a \<longleftrightarrow>
     (case (p, a) of
        (None, None) \<Rightarrow> True
      | (Some q, Some ip) \<Rightarrow> (\<exists>v s. vs ip = Some v \<and> v_limiter v = q \<and> (k, s) \<in> set wait \<and> s \<le> v_lastSeen v)
      | _ \<Rightarrow> False)"

definition rl_agrees ::
  "'lim \<Rightarrow> (go_time \<Rightarrow> 'lim \<Rightarrow> bool \<times> 'lim) \<Rightarrow> go_time \<Rightarrow> (nat \<times> go_time) list \<Rightarrow> (nat \<rightharpoonup> nat) \<Rightarrow> (nat \<rightharpoonup> string)
     \<Rightarrow> 'lim RateLimiter \<Rightarrow> (string \<Rightarrow> go_time list) \<Rightarrow> bool"
where
  "rl_agrees fresh lim_allow now wait pend addr rl hist \<longleftrightarrow>
     (\<forall>ip. visitor_ok fresh lim_allow (rl_limiters rl) now (rl_visitors rl ip) (hist ip))
     \<and> (\<forall>ip ip' v v'. rl_visitors rl ip = Some v \<longrightarrow> rl_visitors rl ip' = Some v' \<longrightarrow>
          v_limiter v = v_limiter v' \<longrightarrow> ip = ip')
     \<and> (\<forall>k. holder_ok (rl_visitors rl) wait k (pend k) (addr k))"

lemma visitor_ok_later:
  "visitor_ok fresh lim_allow lims now v ts \<Longrightarrow> now \<le> t \<Longrightarrow> visitor_ok fresh lim_allow lims t v ts"
  unfolding visitor_ok_def by (force split: option.splits)

lemma rl_agrees_later:
  "rl_agrees fresh lim_allow now wait pend addr rl hist \<Longrightarrow> now \<le> t \<Longrightarrow>
   rl_agrees fresh lim_allow t wait pend addr rl hist"
  unfolding rl_agrees_def by (blast intro: visitor_ok_later)

lemma visitor_ok_drop:
  assumes "visitor_ok fresh lim_allow lims now (Some v) ts" "visitor_stale now v"
  shows "visitor_ok fresh lim_allow lims now None ts"
proof -
  have "s + five_minutes < now" if "s \<in> set ts" for s
  proof -
    have "s \<le> v_lastSeen v + five_minutes" using assms(1) that by (simp add: visitor_ok_def)
    then show ?thesis using assms(2) by (simp add: visitor_stale_iff five_minutes_def)
  qed
  then show ?thesis using assms(1) by (simp add: visitor_ok_def)
qed

lemma holder_ok_tick:
  assumes "holder_ok (rl_visitors rl) wait k p a" "list_all (\<lambda>w. now \<le> snd w + five_minutes) wait"
  shows "holder_ok (rl_visitors (cleanup_tick order now rl)) wait k p a"
proof -
  have fresh: "\<not> visitor_stale now v" if "(k, s) \<in> set wait" "s \<le> v_lastSeen v" for v s
  proof -
    have "now \<le> s + five_minutes" using assms(2) that(1) by (auto simp: list_all_iff)
    then show ?thesis using that(2) by (simp add: visitor_stale_iff five_minutes_def)
  qed
  show ?thesis using assms(1) fresh
    by (force simp: holder_ok_def cleanup_tick_visitors split: option.splits)
qed

lemma rl_agrees_tick:
  assumes "rl_agrees fresh lim_allow now wait pend addr rl hist" "list_all (\<lambda>w. now \<le> snd w + five_minutes) wait"
  shows "rl_agrees fresh lim_allow now wait pend addr (cleanup_tick order now rl) hist"
proof -
  have "visitor_ok fresh lim_allow (rl_limiters rl) now (rl_visitors (cleanup_tick order now rl) ip) (hist ip)" for ip
    using assms(1) visitor_ok_drop [of fresh lim_allow "rl_limiters rl" now _ "hist ip"]
    by (auto simp: rl_agrees_def cleanup_tick_visitors split: option.splits) metis+
  moreover have "rl_visitors rl ip = Some v" if "rl_visitors (cleanup_tick order now rl) ip = Some v" for ip v
    using that by (auto simp: cleanup_tick_visitors split: option.splits if_splits)
  moreover have "holder_ok (rl_visitors (cleanup_tick order now rl)) wait k (pend k) (addr k)" for k
    by (rule holder_ok_tick [OF _ assms(2)]) (use assms(1) in \<open>simp add: rl_agrees_def\<close>)
  ultimately show ?thesis using assms(1) unfolding rl_agrees_def by auto
qed

lemma rl_visit_effect:
  assumes "rl_visit new_limiter now ip rl = (p, rl')"
  shows "rl_rps rl' = rl_rps rl" "rl_burst rl' = rl_burst rl"
    and "rl_visitors rl' = (rl_visitors rl)(ip \<mapsto> \<lparr>v_limiter = p, v_lastSeen = now\<rparr>)"
    and "rl_visitors rl ip = Some v \<Longrightarrow> p = v_limiter v \<and> rl_limiters rl' = rl_limiters rl"
    and "rl_visitors rl ip = None \<Longrightarrow> p = length (rl_limiters rl)
      \<and> rl_limiters rl' = rl_limiters rl @ [new_limiter (rl_rps rl) (rl_burst rl)]"
  using assms by (auto simp: rl_visit_def Let_def split: option.splits)

lemma visitor_ok_grow:
  "visitor_ok fresh lim_allow lims now v ts \<Longrightarrow> visitor_ok fresh lim_allow (lims @ [l]) now v ts"
  by (auto simp: visitor_ok_def nth_append split: option.splits)

lemma visitor_ok_seen:
  assumes "visitor_ok fresh lim_allow lims now (Some v) ts"
  shows "visitor_ok fresh lim_allow lims now (Some \<lparr>v_limiter = v_limiter v, v_lastSeen = now\<rparr>) ts"
proof -
  have "s \<le> now + five_minutes" if "s \<in> set ts" for s
    using assms that by (auto simp: visitor_ok_def five_minutes_def)
  with assms show ?thesis by (simp add: visitor_ok_def)
qed

lemma visitor_ok_new:
  assumes "visitor_ok fresh lim_allow lims now None ts"
  shows "visitor_ok fresh lim_allow (lims @ [fresh]) now (Some \<lparr>v_limiter = length lims, v_lastSeen = now\<rparr>) ts"
  using assms by (fastforce simp: visitor_ok_def five_minutes_def)

lemma rl_agrees_visit:
  assumes agr: "rl_agrees (new_limiter (rl_rps rl) (rl_burst rl)) lim_allow now wait pend addr rl hist"
    and visit: "rl_visit new_limiter now ip rl = (p, rl')"
    and prompt: "list_all (\<lambda>w. snd w \<le> now) wait"
  shows "rl_agrees (new_limiter (rl_rps rl) (rl_burst rl)) lim_allow now ((k, now) # filter (\<lambda>w. fst w \<noteq> k) wait)
    (pend(k \<mapsto> p)) (addr(k \<mapsto> ip)) rl' hist"
proof -
  let ?fresh = "new_limiter (rl_rps rl) (rl_burst rl)"
  note eff = rl_visit_effect [OF visit]
  have ok: "visitor_ok ?fresh lim_allow (rl_limiters rl) now (rl_visitors rl x) (hist x)" for x
    using agr by (simp add: rl_agrees_def)
  have old: "v_limiter v < length (rl_limiters rl)" if "rl_visitors rl x = Some v" for x v
    using ok [of x] that by (simp add: visitor_ok_def)
  have "visitor_ok ?fresh lim_allow (rl_limiters rl') now (rl_visitors rl' x) (hist x)" for x
  proof (cases "rl_visitors rl ip")
    case None
    with eff(5) ok [of x] show ?thesis
      by (auto simp: eff(3) intro: visitor_ok_grow visitor_ok_new)
  next
    case (Some v)
    with eff(4) [OF Some] ok [of x] show ?thesis by (auto simp: eff(3) intro: visitor_ok_seen)
  qed
  moreover have "x = x'" if "rl_visitors rl' x = Some v" "rl_visitors rl' x' = Some v'" "v_limiter v = v_limiter v'"
    for x x' v v'
  proof -
    have other: "y = ip" if "rl_visitors rl y = Some w" "v_limiter w = p" for y w
    proof (cases "rl_visitors rl ip")
      case None
      with eff(5) old [OF that(1)] that(2) show ?thesis by simp
    next
      case (Some v)
      with eff(4) [OF Some] that agr show ?thesis by (auto simp: rl_agrees_def)
    qed
    show ?thesis using that other [of x v] other [of x' v'] agr
      by (auto simp: eff(3) rl_agrees_def split: if_splits)
  qed
  moreover have "holder_ok (rl_visitors rl') ((k, now) # filter (\<lambda>w. fst w \<noteq> k) wait) j ((pend(k \<mapsto> p)) j) ((addr(k \<mapsto> ip)) j)"
    for j
  proof (cases "j = k")
    case True
    then show ?thesis by (auto simp: holder_ok_def eff(3))
  next
    case False
    have "holder_ok (rl_visitors rl) wait j (pend j) (addr j)" using agr by (simp add: rl_agrees_def)
    moreover have "s \<le> now" if "(j, s) \<in> set wait" for s using prompt that by (auto simp: list_all_iff)
    ultimately show ?thesis using False eff(4)
      by (fastforce simp: holder_ok_def eff(3) split: option.splits)
  qed
  ultimately show ?thesis by (simp add: rl_agrees_def)
qed

lemma visitor_ok_other:
  assumes "visitor_ok fresh lim_allow lims now v ts" "\<And>w. v = Some w \<Longrightarrow> v_limiter w \<noteq> p"
  shows "visitor_ok fresh lim_allow (lims[p := l]) now v ts"
  using assms by (auto simp: visitor_ok_def split: option.splits)

lemma limiter_answers:
  assumes "refills fresh lim_allow" "visitor_ok fresh lim_allow lims now (Some v) ts"
  shows "lim_allow now (lims ! v_limiter v) = lim_allow now (after_calls lim_allow ts fresh)"
  using assms by (auto simp: visitor_ok_def refills_def)

lemma holder_ok_forget:
  "holder_ok vs wait j p a \<Longrightarrow> j \<noteq> k \<Longrightarrow> holder_ok vs (filter (\<lambda>w. fst w \<noteq> k) wait) j p a"
  by (auto simp: holder_ok_def split: option.splits)

lemma rl_agrees_take:
  assumes ref: "refills fresh lim_allow"
    and agr: "rl_agrees fresh lim_allow now wait pend addr rl hist"
    and prompt: "list_all (\<lambda>w. now \<le> snd w + five_minutes) wait"
    and held: "pend k = Some p" "addr k = Some ip"
    and allow: "lim_allow now (after_calls lim_allow (hist ip) fresh) = (ok, l)"
  shows "rl_take lim_allow now p rl = (ok, rl\<lparr>rl_limiters := (rl_limiters rl)[p := l]\<rparr>)"
    and "rl_agrees fresh lim_allow now (filter (\<lambda>w. fst w \<noteq> k) wait) (pend(k := None)) (addr(k := None))
      (rl\<lparr>rl_limiters := (rl_limiters rl)[p := l]\<rparr>) (hist(ip := hist ip @ [now]))"
proof -
  let ?rl = "rl\<lparr>rl_limiters := (rl_limiters rl)[p := l]\<rparr>"
  have vok: "visitor_ok fresh lim_allow (rl_limiters rl) now (rl_visitors rl x) (hist x)" for x
    using agr by (simp add: rl_agrees_def)
  have "holder_ok (rl_visitors rl) wait k (pend k) (addr k)" using agr by (simp add: rl_agrees_def)
  then obtain v s where v: "rl_visitors rl ip = Some v" "v_limiter v = p" "(k, s) \<in> set wait" "s \<le> v_lastSeen v"
    using held by (auto simp: holder_ok_def)
  have seen: "now \<le> v_lastSeen v + five_minutes" using prompt v(3,4) by (auto simp: list_all_iff)
  have okv: "visitor_ok fresh lim_allow (rl_limiters rl) now (Some v) (hist ip)" using vok [of ip] v(1) by simp
  show "rl_take lim_allow now p rl = (ok, ?rl)"
    using limiter_answers [OF ref okv] v(2) allow by (simp add: rl_take_def)
  have "visitor_ok fresh lim_allow ((rl_limiters rl)[p := l]) now (rl_visitors rl x) ((hist(ip := hist ip @ [now])) x)" for x
  proof (cases "x = ip")
    case True
    then show ?thesis using okv v(1,2) seen allow
      by (auto simp: visitor_ok_def sorted_append after_calls_snoc)
  next
    case False
    then have "v_limiter w \<noteq> p" if "rl_visitors rl x = Some w" for w
      using agr that v(1,2) by (auto simp: rl_agrees_def)
    with False show ?thesis using visitor_ok_other [OF vok [of x]] by simp
  qed
  moreover have "holder_ok (rl_visitors rl) (filter (\<lambda>w. fst w \<noteq> k) wait) j ((pend(k := None)) j) ((addr(k := None)) j)" for j
  proof (cases "j = k")
    case True
    then show ?thesis by (simp add: holder_ok_def)
  next
    case False
    with agr show ?thesis using holder_ok_forget [of _ wait j _ _ k] by (simp add: rl_agrees_def)
  qed
  ultimately show "rl_agrees fresh lim_allow now (filter (\<lambda>w. fst w \<noteq> k) wait) (pend(k := None)) (addr(k := None))
      ?rl (hist(ip := hist ip @ [now]))"
    using agr by (simp add: rl_agrees_def)
qed

lemma rl_agrees_idle:
  assumes "rl_agrees fresh lim_allow now wait pend addr rl hist"
  shows "pend k = None \<longleftrightarrow> addr k = None"
proof -
  have "holder_ok (rl_visitors rl) wait k (pend k) (addr k)" using assms by (simp add: rl_agrees_def)
  then show ?thesis by (auto simp: holder_ok_def split: option.splits)
qed

lemma rl_agrees_forget:
  assumes "rl_agrees fresh lim_allow now wait pend addr rl hist" "pend k = None"
  shows "rl_agrees fresh lim_allow now (filter (\<lambda>w. fst w \<noteq> k) wait) pend addr rl hist"
proof -
  have "holder_ok (rl_visitors rl) (filter (\<lambda>w. fst w \<noteq> k) wait) j (pend j) (addr j)" for j
  proof (cases "j = k")
    case True
    then show ?thesis using assms(2) rl_agrees_idle [OF assms(1), of k] by (simp add: holder_ok_def)
  next
    case False
    with assms(1) show ?thesis using holder_ok_forget [of _ wait j _ _ k] by (simp add: rl_agrees_def)
  qed
  with assms(1) show ?thesis by (simp add: rl_agrees_def)
qed

lemma rl_run_buckets:
  assumes "refills (new_limiter (rl_rps rl) (rl_burst rl)) lim_allow"
    and "rl_agrees (new_limiter (rl_rps rl) (rl_burst rl)) lim_allow now wait pend addr rl hist"
    and "sorted (now # map event_time es)" "prompt wait es" "list_all (\<lambda>w. snd w \<le> now) wait"
  shows "rl_run new_limiter lim_allow pend rl es
    = bucket_run lim_allow addr (\<lambda>ip. after_calls lim_allow (hist ip) (new_limiter (rl_rps rl) (rl_burst rl))) es"
  using assms
proof (induction es arbitrary: rl now wait pend addr hist)
  case (Cons e es)
  let ?fresh = "new_limiter (rl_rps rl) (rl_burst rl)" and ?t = "event_time e"
  have agr: "rl_agrees ?fresh lim_allow ?t wait pend addr rl hist"
    using rl_agrees_later [OF Cons.prems(2)] Cons.prems(3) by simp
  have srt: "sorted (?t # map event_time es)" "now \<le> ?t" using Cons.prems(3) by simp_all
  have pr: "list_all (\<lambda>w. ?t \<le> snd w + five_minutes) wait" "prompt (waits_after e wait) es"
    using Cons.prems(4) by simp_all
  have past: "list_all (\<lambda>w. snd w \<le> ?t) wait" using Cons.prems(5) srt(2) by (auto simp: list_all_iff)
  then have past': "list_all (\<lambda>w. snd w \<le> ?t) (waits_after e wait)"
    by (cases e) (auto simp: list_all_iff)
  show ?case
  proof (cases e)
    case (Visit t k ip)
    obtain p rl' where visit: "rl_visit new_limiter t ip rl = (p, rl')" by fastforce
    note eff = rl_visit_effect(1,2) [OF visit]
    have agr': "rl_agrees ?fresh lim_allow t (waits_after e wait) (pend(k \<mapsto> p)) (addr(k \<mapsto> ip)) rl' hist"
      using rl_agrees_visit [OF _ visit] agr past Visit by simp
    have "rl_run new_limiter lim_allow (pend(k \<mapsto> p)) rl' es
        = bucket_run lim_allow (addr(k \<mapsto> ip))
            (\<lambda>ip. after_calls lim_allow (hist ip) (new_limiter (rl_rps rl') (rl_burst rl'))) es"
      by (rule Cons.IH [of rl' t "waits_after e wait"])
        (use agr' Cons.prems(1) srt(1) pr(2) past' Visit in \<open>simp_all add: eff fun_upd_def\<close>)
    with Visit visit show ?thesis by (simp add: eff)
  next
    case (Take t k)
    show ?thesis
    proof (cases "pend k")
      case None
      then have "addr k = None" using rl_agrees_idle [OF agr] by simp
      moreover have "rl_agrees ?fresh lim_allow t (waits_after e wait) pend addr rl hist"
        using rl_agrees_forget [OF agr None] Take by simp
      ultimately show ?thesis
        using Cons.IH [of rl t "waits_after e wait" pend addr hist] Cons.prems(1) srt(1) pr(2) past' Take None by simp
    next
      case (Some p)
      then obtain ip where ip: "addr k = Some ip" using rl_agrees_idle [OF agr, of k] by auto
      obtain ok l where l: "lim_allow t (after_calls lim_allow (hist ip) ?fresh) = (ok, l)" by fastforce
      let ?rl = "rl\<lparr>rl_limiters := (rl_limiters rl)[p := l]\<rparr>" and ?hist = "hist(ip := hist ip @ [t])"
      have tk: "rl_take lim_allow t p rl = (ok, ?rl)"
        "rl_agrees ?fresh lim_allow t (waits_after e wait) (pend(k := None)) (addr(k := None)) ?rl ?hist"
        using rl_agrees_take [of ?fresh lim_allow t wait pend addr rl hist k p ip ok l] Cons.prems(1) Some ip l
          agr pr(1) Take by simp_all
      have "(\<lambda>x. after_calls lim_allow (?hist x) ?fresh) = (\<lambda>x. after_calls lim_allow (hist x) ?fresh)(ip := l)"
        using l by (auto simp: after_calls_snoc)
      moreover have "rl_run new_limiter lim_allow (pend(k := None)) ?rl es
          = bucket_run lim_allow (addr(k := None))
              (\<lambda>x. after_calls lim_allow (?hist x) (new_limiter (rl_rps ?rl) (rl_burst ?rl))) es"
        by (rule Cons.IH [of ?rl t "waits_after e wait"])
          (use tk(2) Cons.prems(1) srt(1) pr(2) past' Take in \<open>simp_all add: fun_upd_def\<close>)
      ultimately show ?thesis using tk(1) Take Some ip l by simp
    qed
  next
    case (Tick t order)
    have "rl_agrees ?fresh lim_allow t (waits_after e wait) pend addr (cleanup_tick order t rl) hist"
      using rl_agrees_tick [OF agr] pr(1) Tick by simp
    then show ?thesis
      using Cons.IH [of "cleanup_tick order t rl" t "waits_after e wait" pend addr hist] Cons.prems(1) srt(1) pr(2) past' Tick
      by simp
  qed
qed simp

subsection \<open>A token bucket\<close>

text \<open>
  A bucket as the package documents it: at most \<open>burst\<close> tokens, refilled at the limit, full at first;
  a granted call takes a token, a denied one changes nothing. The level is kept in parts of a token,
  \<open>60000000000\<close> (the nanoseconds of a minute) to each, so that \<open>n\<close> tokens a minute are \<open>n\<close> parts a
  nanosecond.
\<close>

record token_bucket =
  tb_limit :: int
  tb_burst :: int
  tb_level :: int
  tb_last :: "go_time option"

definition ex_new :: "int \<Rightarrow> int \<Rightarrow> token_bucket" where
  "ex_new rps burst = \<lparr>tb_limit = rps, tb_burst = burst, tb_level = burst * 60000000000, tb_last = None\<rparr>"

definition tb_advance :: "go_time \<Rightarrow> token_bucket \<Rightarrow> int" where
  "tb_advance t l =
     (case tb_last l of
        None \<Rightarrow> tb_burst l * 60000000000
      | Some s \<Rightarrow> min (tb_burst l * 60000000000) (tb_level l + tb_limit l * max 0 (t - s)))"

definition ex_allow :: "go_time \<Rightarrow> token_bucket \<Rightarrow> bool \<times> token_bucket" where
  "ex_allow t l =
     (if 60000000000 \<le> tb_advance t l
      then (True, l\<lparr>tb_level := tb_advance t l - 60000000000, tb_last := Some t\<rparr>)
      else (False, l))"

definition bucket_ok :: "int \<Rightarrow> go_time \<Rightarrow> token_bucket \<Rightarrow> bool" where
  "bucket_ok n t l \<longleftrightarrow>
     tb_limit l = n \<and> tb_burst l = n \<and> 0 \<le> tb_level l
     \<and> (case tb_last l of None \<Rightarrow> l = ex_new n n | Some s \<Rightarrow> 0 < n \<and> s + five_minutes < t)"

lemma bucket_ok_allow:
  assumes "bucket_ok n t l" "s + five_minutes < t"
  shows "bucket_ok n t (snd (ex_allow s l))"
proof (cases "60000000000 \<le> tb_advance s l")
  case True
  moreover have "tb_advance s l \<le> n * 60000000000"
    using assms(1) by (auto simp: tb_advance_def bucket_ok_def split: option.splits)
  ultimately have "0 < n" by linarith
  with True assms show ?thesis by (simp add: bucket_ok_def ex_allow_def)
next
  case False
  with assms(1) show ?thesis by (simp add: ex_allow_def)
qed

lemma bucket_ok_calls:
  assumes "0 \<le> n" "\<forall>s\<in>set ts. s + five_minutes < t"
  shows "bucket_ok n t (after_calls ex_allow ts (ex_new n n))"
  using assms(2)
proof (induction ts rule: rev_induct)
  case Nil
  show ?case using assms(1) by (simp add: after_calls_def bucket_ok_def ex_new_def)
next
  case (snoc s ts)
  then show ?case by (simp add: after_calls_snoc bucket_ok_allow)
qed

lemma bucket_ok_full:
  assumes "bucket_ok n t l"
  shows "ex_allow t l = ex_allow t (ex_new n n)"
proof (cases "tb_last l")
  case None
  with assms show ?thesis by (simp add: bucket_ok_def)
next
  case (Some s)
  with assms have b: "tb_limit l = n" "tb_burst l = n" "0 \<le> tb_level l" "0 < n" "s + five_minutes < t"
    by (simp_all add: bucket_ok_def)
  have "n * 60000000000 \<le> n * max 0 (t - s)"
    using b(4,5) by (intro mult_left_mono) (simp_all add: five_minutes_def)
  then have "tb_advance t l = n * 60000000000"
    unfolding tb_advance_def Some b(1,2) option.case using b(3) by (intro min_absorb1) linarith
  with b show ?thesis by (simp add: ex_allow_def tb_advance_def ex_new_def)
qed

lemma token_bucket_refills: "0 \<le> n \<Longrightarrow> refills (ex_new n n) ex_allow"
  by (simp add: refills_def bucket_ok_full bucket_ok_calls)

subsection \<open>Properties\<close>

text \<open>C20. Rate limiting is per address and the cleanup of idle visitors is invisible: on any sequence of
  steps of any number of requests and of cleanup ticks, in order of time, each request is decided as if
  every address had a bucket of its own that is never dropped. The two parts of a call of \<open>Allow\<close> (finding
  the visitor under the mutex, asking its limiter afterwards) are separate steps and may be interleaved
  with those of other requests and with the cleanup. Assumed are that no request takes more than five
  minutes between the two parts, and that a bucket which nobody asked for more than five minutes
  answers as a new one does, as a bucket does that refills within a minute.\<close>

theorem rate_limit_per_address:
  assumes "refills (new_limiter n n) lim_allow" "sorted (map event_time es)" "prompt [] es"
  shows "rl_run new_limiter lim_allow Map.empty (NewRateLimiter n) es
    = bucket_run lim_allow Map.empty (\<lambda>ip. new_limiter n n) es"
proof (cases es)
  case (Cons e es')
  have "rl_agrees (new_limiter n n) lim_allow (event_time e) [] Map.empty Map.empty (NewRateLimiter n) (\<lambda>_. [])"
    by (simp add: rl_agrees_def visitor_ok_def holder_ok_def NewRateLimiter_def)
  then show ?thesis
    using rl_run_buckets [of new_limiter "NewRateLimiter n" lim_allow "event_time e" "[]" Map.empty Map.empty "\<lambda>_. []" es]
      assms Cons
    by (simp add: NewRateLimiter_def after_calls_def)
qed simp

definition ex_limited :: "rl_event list" where
  "ex_limited =
     [Visit 0 0 ''a'', Visit 1 1 ''a'', Take 2 1, Take 3 0, Visit 4 2 ''a'', Visit 5 3 ''b'', Take 6 2, Take 7 3,
      Tick 700000000000 [''a'', ''b''], Visit 700000000001 4 ''a'', Take 700000000002 4]"

theorem rate_limit_per_address_witness:
  "rl_run ex_new ex_allow Map.empty (NewRateLimiter 2) ex_limited = [True, True, False, True, True]
   \<and> bucket_run ex_allow Map.empty (\<lambda>ip. ex_new 2 2) ex_limited = [True, True, False, True, True]"
proof -
  have "bucket_run ex_allow Map.empty (\<lambda>ip. ex_new 2 2) ex_limited = [True, True, False, True, True]"
    by (simp add: ex_limited_def ex_allow_def tb_advance_def ex_new_def)
  moreover have "sorted (map event_time ex_limited)" "prompt [] ex_limited"
    by (simp_all add: ex_limited_def five_minutes_def)
  ultimately show ?thesis
    using rate_limit_per_address [of ex_new 2 ex_allow ex_limited] token_bucket_refills [of 2] by simp
qed

text \<open>A rejected request is answered with 429 and reaches no handler.\<close>

lemma rl_Middleware_reject:
  assumes "w_status w = None" "rl_Middleware new_limiter lim_allow seen now rl r w = (Inl res, rl')"
  shows "\<exists>w'. res = Returned w' \<and> w_status w' = Some 429"
proof -
  have "res = http_Error ''rate limit exceeded'' 429 w"
    using assms(2) by (auto simp: rl_Middleware_def Let_def split: prod.splits if_splits)
  with http_Error_fresh [OF assms(1), of 429 "''rate limit exceeded''"] show ?thesis by auto
qed

end
