(* ===== verification/Config.thy ===== *)
theory Config
  imports Go_Strings
begin

text \<open>
  \<open>internal/config/config.go\<close>: the configuration records, their defaults, and loading. Parameters:
  \<open>getenv\<close> is \<open>os.Getenv\<close> (\<open>[]\<close> when the variable is unset), \<open>read_file\<close> is \<open>os.ReadFile\<close>, \<open>yaml\<close> is
  \<open>yaml.Unmarshal\<close>, which stores into the configuration it is given; \<open>None\<close> is an error.
\<close>

subsection \<open>Server configuration\<close>

record ACMEConfig =
  acme_Email :: string
  acme_Staging :: bool

record TLSConfig =
  tls_Enabled :: bool
  tls_AutoLetsEncrypt :: bool
  tls_CertDir :: string
  tls_ACME :: ACMEConfig

record ServerConfig =
  srv_ListenHTTP :: string
  srv_ListenHTTPS :: string
  srv_GatewayHost :: string
  srv_PublicHostname :: string
  srv_AllowedDomains :: "string list"
  srv_TLS :: TLSConfig

record AuthConfig =
  auth_TokenSigningKey :: string
  auth_TokenTTLMinutes :: int
  auth_EnableJWT :: bool
  auth_JWTIssuer :: string
  auth_JWTAudience :: string

record RedisConfig =
  redis_Addr :: string
  redis_DB :: int
  redis_Password :: string

record PostgresConfig =
  pg_DSN :: string

record StorageConfig =
  sto_Type :: string
  sto_Redis :: RedisConfig
  sto_Postgres :: PostgresConfig

record RegistryConfig =
  rgc_ReservedSubdomains :: "string list"
  rgc_DefaultTTLSeconds :: int
  rgc_MaxSubdomainLength :: int

record LimitsConfig =
  lim_MaxTunnelsPerUser :: int
  lim_MaxBandwidthPerTunnelMbps :: int
  lim_MaxConcurrentStreamsPerTunnel :: int
  lim_RequestRatePerIPPerMin :: int

record LoggingConfig =
  log_Level :: string
  log_Format :: string
  log_File :: string

record MetricsConfig =
  mc_Enabled :: bool
  mc_BindAddr :: string

record MTLSConfig =
  mtls_CACertFile :: string

record SecurityConfig =
  sec_IPBlacklist :: "string list"
  sec_IPWhitelist :: "string list"
  sec_EnableMTLS :: bool
  sec_MTLS :: MTLSConfig

record Config =
  cfg_Server :: ServerConfig
  cfg_Auth :: AuthConfig
  cfg_Storage :: StorageConfig
  cfg_Registry :: RegistryConfig
  cfg_Limits :: LimitsConfig
  cfg_Logging :: LoggingConfig
  cfg_Metrics :: MetricsConfig
  cfg_Security :: SecurityConfig

subsection \<open>Client configuration\<close>

record ClientTunnel =
  ct_Name :: string
  ct_Port :: int
  ct_Protocol :: string
  ct_Subdomain :: string

record ReconnectConfig =
  rc_MaxRetries :: int
  rc_BackoffMs :: int

record ClientTLSConfig =
  ctls_SkipVerify :: bool
  ctls_CAFile :: string

record ClientSettings =
  cl_GatewayURL :: string
  cl_Token :: string
  cl_LocalBind :: string
  cl_Tunnels :: "ClientTunnel list"
  cl_Reconnect :: ReconnectConfig
  cl_HeartbeatSeconds :: int
  cl_TLS :: ClientTLSConfig

record ClientConfig =
  ccfg_Client :: ClientSettings

subsection \<open>Defaults\<close>

definition defaults :: Config where
  "defaults =
     \<lparr>cfg_Server =
        \<lparr>srv_ListenHTTP = '':80'', srv_ListenHTTPS = '':443'', srv_GatewayHost = ''0.0.0.0'',
         srv_PublicHostname = [], srv_AllowedDomains = [],
         srv_TLS =
           \<lparr>tls_Enabled = True, tls_AutoLetsEncrypt = False, tls_CertDir = ''/var/lib/gotunnel/certs'',
            tls_ACME = \<lparr>acme_Email = [], acme_Staging = False\<rparr>\<rparr>\<rparr>,
      cfg_Auth =
        \<lparr>auth_TokenSigningKey = [], auth_TokenTTLMinutes = 525600, auth_EnableJWT = True,
         auth_JWTIssuer = ''gotunnel'', auth_JWTAudience = ''gotunnel-clients''\<rparr>,
      cfg_Storage =
        \<lparr>sto_Type = ''memory'',
         sto_Redis = \<lparr>redis_Addr = ''127.0.0.1:6379'', redis_DB = 0, redis_Password = []\<rparr>,
         sto_Postgres = \<lparr>pg_DSN = []\<rparr>\<rparr>,
      cfg_Registry =
        \<lparr>rgc_ReservedSubdomains = [], rgc_DefaultTTLSeconds = 3600, rgc_MaxSubdomainLength = 32\<rparr>,
      cfg_Limits =
        \<lparr>lim_MaxTunnelsPerUser = 10, lim_MaxBandwidthPerTunnelMbps = 100,
         lim_MaxConcurrentStreamsPerTunnel = 256, lim_RequestRatePerIPPerMin = 600\<rparr>,
      cfg_Logging = \<lparr>log_Level = ''info'', log_Format = ''json'', log_File = []\<rparr>,
      cfg_Metrics = \<lparr>mc_Enabled = True, mc_BindAddr = '':9090''\<rparr>,
      cfg_Security =
        \<lparr>sec_IPBlacklist = [], sec_IPWhitelist = [], sec_EnableMTLS = False,
         sec_MTLS = \<lparr>mtls_CACertFile = []\<rparr>\<rparr>\<rparr>"

definition clientDefaults :: ClientConfig where
  "clientDefaults =
     \<lparr>ccfg_Client =
        \<lparr>cl_GatewayURL = [], cl_Token = [], cl_LocalBind = ''127.0.0.1'', cl_Tunnels = [],
         cl_Reconnect = \<lparr>rc_MaxRetries = 0, rc_BackoffMs = 1000\<rparr>,
         cl_HeartbeatSeconds = 10,
         cl_TLS = \<lparr>ctls_SkipVerify = False, ctls_CAFile = ''/etc/ssl/certs/ca-certificates.crt''\<rparr>\<rparr>\<rparr>"

subsection \<open>Loading\<close>

datatype config_error = ReadFileError string | ParseYamlError

definition applyServerEnv :: "(string \<Rightarrow> string) \<Rightarrow> Config \<Rightarrow> Config" where
  "applyServerEnv getenv cfg0 =
     (let v = getenv ''GOTUNNEL_LOG_LEVEL'';
          cfg1 = (if v \<noteq> [] then cfg0\<lparr>cfg_Logging := (cfg_Logging cfg0)\<lparr>log_Level := v\<rparr>\<rparr> else cfg0);
          v = getenv ''GOTUNNEL_STORAGE_TYPE'';
          cfg2 = (if v \<noteq> [] then cfg1\<lparr>cfg_Storage := (cfg_Storage cfg1)\<lparr>sto_Type := v\<rparr>\<rparr> else cfg1);
          v = getenv ''GOTUNNEL_REDIS_ADDR'';
          cfg3 = (if v \<noteq> []
                  then cfg2\<lparr>cfg_Storage := (cfg_Storage cfg2)
                              \<lparr>sto_Redis := (sto_Redis (cfg_Storage cfg2))\<lparr>redis_Addr := v\<rparr>\<rparr>\<rparr>
                  else cfg2);
          v = getenv ''GOTUNNEL_AUTH_KEY'';
          cfg4 = (if v \<noteq> [] then cfg3\<lparr>cfg_Auth := (cfg_Auth cfg3)\<lparr>auth_TokenSigningKey := v\<rparr>\<rparr> else cfg3);
          v = getenv ''PORT''
      in if v \<noteq> [] then
           (case Atoi v of
              Some p \<Rightarrow>
                (if 0 < p \<and> p \<le> 65535
                 then cfg4\<lparr>cfg_Server := (cfg_Server cfg4)\<lparr>srv_ListenHTTPS := '':'' @ v\<rparr>\<rparr>
                 else cfg4)
            | None \<Rightarrow> cfg4)
         else cfg4)"

definition Load ::
  "(string \<Rightarrow> string) \<Rightarrow> (string \<Rightarrow> bytes option) \<Rightarrow> (bytes \<Rightarrow> Config \<Rightarrow> Config option) \<Rightarrow> string
     \<Rightarrow> config_error + Config"
where
  "Load getenv read_file yaml path0 =
     (let cfg = defaults; path = (if path0 = [] then getenv ''GOTUNNEL_CONFIG'' else path0)
      in if path \<noteq> [] then
           (case read_file path of
              None \<Rightarrow> Inl (ReadFileError path)
            | Some data \<Rightarrow>
                (case yaml data cfg of
                   None \<Rightarrow> Inl ParseYamlError
                 | Some cfg' \<Rightarrow> Inr (applyServerEnv getenv cfg')))
         else Inr (applyServerEnv getenv cfg))"

definition LoadClientConfig ::
  "(string \<Rightarrow> string) \<Rightarrow> (string \<Rightarrow> bytes option) \<Rightarrow> (bytes \<Rightarrow> ClientConfig \<Rightarrow> ClientConfig option)
     \<Rightarrow> string \<Rightarrow> config_error + ClientConfig"
where
  "LoadClientConfig getenv read_file yaml path0 =
     (let cfg = clientDefaults; path = (if path0 = [] then getenv ''GOTUNNEL_CONFIG'' else path0)
      in if path \<noteq> [] then
           (case read_file path of
              None \<Rightarrow> Inl (ReadFileError path)
            | Some data \<Rightarrow>
                (case yaml data cfg of None \<Rightarrow> Inl ParseYamlError | Some cfg' \<Rightarrow> Inr cfg'))
         else Inr cfg)"

subsection \<open>Properties\<close>

text \<open>The value of a setting that an environment variable overrides.\<close>

definition env_or :: "(string \<Rightarrow> string) \<Rightarrow> string \<Rightarrow> string \<Rightarrow> string" where
  "env_or getenv name old = (if getenv name = [] then old else getenv name)"

definition port_or :: "(string \<Rightarrow> string) \<Rightarrow> string \<Rightarrow> string" where
  "port_or getenv old =
     (case Atoi (getenv ''PORT'') of
        Some p \<Rightarrow> (if 0 < p \<and> p \<le> 65535 then '':'' @ getenv ''PORT'' else old)
      | None \<Rightarrow> old)"

lemma Atoi_Nil: "Atoi [] = None"
  by (simp add: Atoi_def)

lemma applyServerEnv_eq:
  "applyServerEnv getenv cfg =
     cfg\<lparr>cfg_Server := (cfg_Server cfg)\<lparr>srv_ListenHTTPS := port_or getenv (srv_ListenHTTPS (cfg_Server cfg))\<rparr>,
         cfg_Auth := (cfg_Auth cfg)\<lparr>auth_TokenSigningKey :=
           env_or getenv ''GOTUNNEL_AUTH_KEY'' (auth_TokenSigningKey (cfg_Auth cfg))\<rparr>,
         cfg_Storage := (cfg_Storage cfg)
           \<lparr>sto_Type := env_or getenv ''GOTUNNEL_STORAGE_TYPE'' (sto_Type (cfg_Storage cfg)),
            sto_Redis := (sto_Redis (cfg_Storage cfg))\<lparr>redis_Addr :=
              env_or getenv ''GOTUNNEL_REDIS_ADDR'' (redis_Addr (sto_Redis (cfg_Storage cfg)))\<rparr>\<rparr>,
         cfg_Logging := (cfg_Logging cfg)\<lparr>log_Level :=
           env_or getenv ''GOTUNNEL_LOG_LEVEL'' (log_Level (cfg_Logging cfg))\<rparr>\<rparr>"
proof -
  have "(if getenv ''PORT'' \<noteq> [] then
           (case Atoi (getenv ''PORT'') of
              Some p \<Rightarrow> (if 0 < p \<and> p \<le> 65535
                then c\<lparr>cfg_Server := (cfg_Server c)\<lparr>srv_ListenHTTPS := '':'' @ getenv ''PORT''\<rparr>\<rparr> else c)
            | None \<Rightarrow> c) else c)
      = c\<lparr>cfg_Server := (cfg_Server c)\<lparr>srv_ListenHTTPS := port_or getenv (srv_ListenHTTPS (cfg_Server c))\<rparr>\<rparr>"
    for c :: Config
    by (auto simp: port_or_def Atoi_Nil split: option.split)
  then show ?thesis
    by (simp add: applyServerEnv_def env_or_def Let_def)
qed

text \<open>A loaded server configuration is the defaults, overlaid by the YAML file (the path given, else
  \<open>GOTUNNEL_CONFIG\<close>, else none), with exactly five settings then overridden by non-empty environment
  variables; \<open>PORT\<close> counts only as a number between 1 and 65535. An unreadable or malformed file is
  an error and yields no configuration.\<close>

theorem Load_precedence:
  "Load getenv read_file yaml path =
     (let p = env_or (\<lambda>_. path) [] (getenv ''GOTUNNEL_CONFIG'');
          base = (if p = [] then Inr defaults
                  else case read_file p of
                      None \<Rightarrow> Inl (ReadFileError p)
                    | Some d \<Rightarrow> (case yaml d defaults of None \<Rightarrow> Inl ParseYamlError | Some c \<Rightarrow> Inr c))
      in case base of
           Inl e \<Rightarrow> Inl e
         | Inr cfg \<Rightarrow>
             Inr (cfg\<lparr>cfg_Server := (cfg_Server cfg)
                        \<lparr>srv_ListenHTTPS := port_or getenv (srv_ListenHTTPS (cfg_Server cfg))\<rparr>,
                      cfg_Auth := (cfg_Auth cfg)\<lparr>auth_TokenSigningKey :=
                        env_or getenv ''GOTUNNEL_AUTH_KEY'' (auth_TokenSigningKey (cfg_Auth cfg))\<rparr>,
                      cfg_Storage := (cfg_Storage cfg)
                        \<lparr>sto_Type := env_or getenv ''GOTUNNEL_STORAGE_TYPE'' (sto_Type (cfg_Storage cfg)),
                         sto_Redis := (sto_Redis (cfg_Storage cfg))\<lparr>redis_Addr :=
                           env_or getenv ''GOTUNNEL_REDIS_ADDR'' (redis_Addr (sto_Redis (cfg_Storage cfg)))\<rparr>\<rparr>,
                      cfg_Logging := (cfg_Logging cfg)\<lparr>log_Level :=
                        env_or getenv ''GOTUNNEL_LOG_LEVEL'' (log_Level (cfg_Logging cfg))\<rparr>\<rparr>))"
  by (simp add: Load_def applyServerEnv_eq env_or_def Let_def split: option.split)

text \<open>The listener the server opens does not depend on \<open>PORT\<close>.\<close>

lemma applyServerEnv_ListenHTTP:
  "srv_ListenHTTP (cfg_Server (applyServerEnv getenv cfg)) = srv_ListenHTTP (cfg_Server cfg)"
  by (simp add: applyServerEnv_eq)

lemma Load_explicit_path:
  assumes "path \<noteq> []"
  shows "Load getenv read_file yaml path =
    (case read_file path of
       None \<Rightarrow> Inl (ReadFileError path)
     | Some d \<Rightarrow> (case yaml d defaults of
                    None \<Rightarrow> Inl ParseYamlError | Some c \<Rightarrow> Inr (applyServerEnv getenv c)))"
  using assms by (simp add: Load_def)

end
