(* ===== verification/Logging.thy ===== *)
theory Logging
  imports Go_Strings
begin

text \<open>
  \<open>internal/logging/logging.go\<close> on top of \<open>log/slog\<close>. A logger is its level, its format, the
  file it writes to (\<open>[]\<close> is standard output) and its attributes. Parameters: \<open>uni\<close> lower-cases
  strings that are not ASCII, \<open>open_file\<close> says whether the operating system opens a file for appending. \<open>New\<close>
  returns the files it opened, which nothing closes. A logging call returns the records it writes.
\<close>

datatype slog_level = LevelDebug | LevelInfo | LevelWarn | LevelError

fun level_int :: "slog_level \<Rightarrow> int" where
  "level_int LevelDebug = - 4"
| "level_int LevelInfo = 0"
| "level_int LevelWarn = 4"
| "level_int LevelError = 8"

text \<open>Levels are compared by their numbers.\<close>

instantiation slog_level :: linorder
begin

definition less_eq_slog_level :: "slog_level \<Rightarrow> slog_level \<Rightarrow> bool" where
  "less_eq_slog_level l m \<longleftrightarrow> level_int l \<le> level_int m"

definition less_slog_level :: "slog_level \<Rightarrow> slog_level \<Rightarrow> bool" where
  "less_slog_level l m \<longleftrightarrow> level_int l < level_int m"

instance
proof
  fix l m :: slog_level
  show "l \<le> m \<Longrightarrow> m \<le> l \<Longrightarrow> l = m" by (cases l; cases m) (simp_all add: less_eq_slog_level_def)
qed (auto simp: less_eq_slog_level_def less_slog_level_def)

end

datatype slog_format = JSONHandler | TextHandler

record Logger =
  lg_level :: slog_level
  lg_format :: slog_format
  lg_file :: string
  lg_attrs :: "(string \<times> string) list"

datatype log_error = UnsupportedLevel string | OpenLogFile string | UnsupportedFormat string

definition parseLevel :: "(string \<Rightarrow> string) \<Rightarrow> string \<Rightarrow> log_error + slog_level" where
  "parseLevel uni s =
     (let l = ToLower uni s
      in if l = ''debug'' then Inr LevelDebug
         else if l = ''info'' \<or> l = [] then Inr LevelInfo
         else if l = ''warn'' \<or> l = ''warning'' then Inr LevelWarn
         else if l = ''error'' then Inr LevelError
         else Inl (UnsupportedLevel s))"

definition logging_New ::
  "(string \<Rightarrow> string) \<Rightarrow> (string \<Rightarrow> bool) \<Rightarrow> string \<Rightarrow> string \<Rightarrow> string \<Rightarrow> (log_error + Logger) \<times> string list"
where
  "logging_New uni open_file level format file =
     (case parseLevel uni level of
        Inl e \<Rightarrow> (Inl e, [])
      | Inr lvl \<Rightarrow>
          (if file \<noteq> [] \<and> \<not> open_file file then (Inl (OpenLogFile file), [])
           else
             (let opened = (if file \<noteq> [] then [file] else []); f = ToLower uni format
              in if f = ''json'' \<or> f = [] then
                   (Inr \<lparr>lg_level = lvl, lg_format = JSONHandler, lg_file = file, lg_attrs = []\<rparr>, opened)
                 else if f = ''text'' then
                   (Inr \<lparr>lg_level = lvl, lg_format = TextHandler, lg_file = file, lg_attrs = []\<rparr>, opened)
                 else (Inl (UnsupportedFormat format), opened))))"

text \<open>The package variable \<open>defaultLogger\<close>: \<open>None\<close> is \<open>nil\<close>.\<close>

definition logging_Init ::
  "(string \<Rightarrow> string) \<Rightarrow> (string \<Rightarrow> bool) \<Rightarrow> Logger option \<Rightarrow> string \<Rightarrow> string \<Rightarrow> string
     \<Rightarrow> log_error option \<times> Logger option"
where
  "logging_Init uni open_file defaultLogger level format file =
     (case fst (logging_New uni open_file level format file) of
        Inl e \<Rightarrow> (Some e, defaultLogger)
      | Inr l \<Rightarrow> (None, Some l))"

definition logging_Default :: "Logger option \<Rightarrow> Logger \<times> Logger option" where
  "logging_Default defaultLogger =
     (case defaultLogger of
        Some l \<Rightarrow> (l, defaultLogger)
      | None \<Rightarrow>
          (let l = \<lparr>lg_level = LevelInfo, lg_format = JSONHandler, lg_file = [], lg_attrs = []\<rparr>
           in (l, Some l)))"

definition WithFields :: "Logger \<Rightarrow> (string \<times> string) list \<Rightarrow> Logger" where
  "WithFields l kvs = l\<lparr>lg_attrs := lg_attrs l @ kvs\<rparr>"

definition WithComponent :: "Logger \<Rightarrow> string \<Rightarrow> Logger" where
  "WithComponent l component = l\<lparr>lg_attrs := lg_attrs l @ [(''component'', component)]\<rparr>"

record log_record =
  rec_level :: slog_level
  rec_msg :: string
  rec_attrs :: "(string \<times> string) list"

definition log_at :: "slog_level \<Rightarrow> Logger \<Rightarrow> string \<Rightarrow> (string \<times> string) list \<Rightarrow> log_record list" where
  "log_at lvl l msg args =
     (if lg_level l \<le> lvl
      then [\<lparr>rec_level = lvl, rec_msg = msg, rec_attrs = lg_attrs l @ args\<rparr>] else [])"

definition Info :: "Logger \<Rightarrow> string \<Rightarrow> (string \<times> string) list \<Rightarrow> log_record list" where
  "Info l msg args = log_at LevelInfo l msg args"

definition Warn :: "Logger \<Rightarrow> string \<Rightarrow> (string \<times> string) list \<Rightarrow> log_record list" where
  "Warn l msg args = log_at LevelWarn l msg args"

definition Error :: "Logger \<Rightarrow> string \<Rightarrow> (string \<times> string) list \<Rightarrow> log_record list" where
  "Error l msg args = log_at LevelError l msg args"

definition Debug :: "Logger \<Rightarrow> string \<Rightarrow> (string \<times> string) list \<Rightarrow> log_record list" where
  "Debug l msg args = log_at LevelDebug l msg args"

subsection \<open>Properties\<close>

lemma parseLevel_ascii:
  assumes "is_ascii s"
  shows "parseLevel uni s = Inr lvl \<longleftrightarrow>
    (case lvl of
       LevelDebug \<Rightarrow> map lower_byte s = ''debug''
     | LevelInfo \<Rightarrow> map lower_byte s \<in> {''info'', []}
     | LevelWarn \<Rightarrow> map lower_byte s \<in> {''warn'', ''warning''}
     | LevelError \<Rightarrow> map lower_byte s = ''error'')"
  using assms by (cases lvl) (auto simp: parseLevel_def ToLower_def Let_def)

text \<open>\<open>New\<close> succeeds exactly when the level and the format are among the documented names, up to
  case, and the log file, if one is named, can be opened; the logger then has that level and writes
  to that file. Each failure names its cause, in this order: level, file, format.\<close>

theorem logging_New_cases:
  assumes "is_ascii level" "is_ascii format"
  shows "fst (logging_New uni open_file level format file) =
    (let l = map lower_byte level; f = map lower_byte format;
         lvl = (if l = ''debug'' then LevelDebug else if l \<in> {''info'', []} then LevelInfo
                else if l \<in> {''warn'', ''warning''} then LevelWarn else LevelError)
     in if l \<notin> {''debug'', ''info'', [], ''warn'', ''warning'', ''error''}
        then Inl (UnsupportedLevel level)
        else if file \<noteq> [] \<and> \<not> open_file file then Inl (OpenLogFile file)
        else if f \<notin> {''json'', [], ''text''} then Inl (UnsupportedFormat format)
        else Inr \<lparr>lg_level = lvl, lg_format = (if f = ''text'' then TextHandler else JSONHandler),
                   lg_file = file, lg_attrs = []\<rparr>)"
  using assms by (simp add: logging_New_def parseLevel_def ToLower_def Let_def)

theorem logging_New_cases_witness:
  "fst (logging_New id (\<lambda>_. True) ''WARN'' ''text'' ''/tmp/l'')
     = Inr \<lparr>lg_level = LevelWarn, lg_format = TextHandler, lg_file = ''/tmp/l'', lg_attrs = []\<rparr>"
proof -
  have "map lower_byte ''WARN'' = ''warn''" "map lower_byte ''text'' = ''text''" by code_simp+
  then show ?thesis
    using logging_New_cases [of "''WARN''" "''text''" id "\<lambda>_. True" "''/tmp/l''"]
    by (simp add: is_ascii_def Let_def)
qed

text \<open>A child logger keeps the level: it writes a record exactly when its parent does, with the
  component added to the attributes.\<close>

lemma WithComponent_log_at:
  "log_at lvl (WithComponent l c) msg args =
     map (\<lambda>r. r\<lparr>rec_attrs := lg_attrs l @ (''component'', c) # args\<rparr>) (log_at lvl l msg args)"
  by (simp add: log_at_def WithComponent_def)

text \<open>A logger with a higher threshold writes no record that one with a lower threshold leaves out.\<close>

lemma log_at_antimono:
  "k \<le> lg_level l \<Longrightarrow> set (log_at lvl l msg args) \<subseteq> set (log_at lvl (l\<lparr>lg_level := k\<rparr>) msg args)"
  by (auto simp: log_at_def)

end
