(* ===== verification/Server.thy ===== *)
theory Server
  imports Proxy Admin Ratelimit Config Logging
begin

text \<open>
  \<open>internal/server/server.go\<close>: the gateway server, which owns the components and connects them.

  The handler of \<open>/connect\<close> lives as long as its WebSocket connection and waits for messages in
  between, while other handlers run. It is therefore three functions: \<open>connect_begin\<close> from the first
  message to the answer, \<open>server_read\<close> for each message of the read loop, and \<open>cleanupConnection\<close> when
  reading fails. The state of a handler in its read loop is a \<open>session\<close>. \<open>clock\<close> gives the results of
  the successive calls of \<open>time.Now\<close>; the upgrade of the connection is third-party code, and the
  handlers start after it.
\<close>

subsection \<open>State\<close>

record 'lim Server =
  sv_cfg :: Config
  sv_gateway :: Gateway
  sv_proxy :: Proxy
  sv_auth :: MemoryTokenStore
  sv_logger :: Logger
  sv_rateLimiter :: "'lim RateLimiter"

definition NewServer ::
  "(string \<Rightarrow> string) \<Rightarrow> (string \<Rightarrow> bool) \<Rightarrow> Config \<Rightarrow> log_error + 'lim Server" where
  "NewServer uni open_file cfg =
     (case fst (logging_New uni open_file (log_Level (cfg_Logging cfg)) (log_Format (cfg_Logging cfg))
                  (log_File (cfg_Logging cfg))) of
        Inl e \<Rightarrow> Inl e
      | Inr log \<Rightarrow>
          (let m = NewMetrics;
               tokenStore = NewMemoryTokenStore (auth_TokenSigningKey (cfg_Auth cfg));
               reg = NewMemoryRegistry (rgc_ReservedSubdomains (cfg_Registry cfg))
                       (rgc_MaxSubdomainLength (cfg_Registry cfg)) (rgc_DefaultTTLSeconds (cfg_Registry cfg));
               b = NewBroker;
               p = SetPublicHostname NewProxy (srv_PublicHostname (cfg_Server cfg));
               rl = NewRateLimiter (lim_RequestRatePerIPPerMin (cfg_Limits cfg))
           in Inr \<lparr>sv_cfg = cfg,
                   sv_gateway = \<lparr>gw_registry = reg, gw_broker = b, gw_metrics = m, gw_ws = (\<lambda>_. [])\<rparr>,
                   sv_proxy = p, sv_auth = tokenStore, sv_logger = WithComponent log ''server'',
                   sv_rateLimiter = rl\<rparr>))"

subsection \<open>Routes\<close>

datatype server_route = ToConnect | ToAdmin | ToHealth | ToMetrics | ToProxy

definition server_mux :: "server_route mux" where
  "server_mux =
     [([''connect''], False, ToConnect), ([''api'', ''v1''], True, ToAdmin),
      ([''health''], False, ToHealth), ([''metrics''], False, ToMetrics), ([], True, ToProxy)]"

definition handleHealth :: "Request \<Rightarrow> ResponseWriter \<Rightarrow> ResponseWriter outcome" where
  "handleHealth r w =
     (if r_Method r \<noteq> ''GET'' then http_Error ''method not allowed'' 405 w
      else
        outcome_bind
          (WriteHeader 200
            (w\<lparr>w_header := header_Set ''Content-Type'' ''application/json'' (w_header w)\<rparr>))
          (Write (bytes_of_string
            (json_print (JObj [(''status'', JStr ''ok'')]) @ [char_of (10 :: nat)]))))"

text \<open>
  What the handler of the HTTP server does with a request: the rate limiter, then the routes. The
  health check and the admin API answer at once; the other routes continue elsewhere.
\<close>

datatype server_action = Respond "ResponseWriter outcome" | RedirectTo string | Continue server_route

definition server_handle ::
  "(int \<Rightarrow> int \<Rightarrow> 'lim) \<Rightarrow> (go_time \<Rightarrow> 'lim \<Rightarrow> bool \<times> 'lim) \<Rightarrow> admin_env \<Rightarrow> 'lim Server \<Rightarrow> Request
     \<Rightarrow> ResponseWriter \<Rightarrow> server_action \<times> 'lim Server"
where
  "server_handle new_limiter lim_allow env s r w =
     (let (gate, rl) = rl_Middleware new_limiter lim_allow (ae_seen env) (ae_taken env) (sv_rateLimiter s) r w;
          s1 = s\<lparr>sv_rateLimiter := rl\<rparr>;
          g = sv_gateway s
      in case gate of
           Inl res \<Rightarrow> (Respond res, s1)
         | Inr w' \<Rightarrow>
             (case mux_route server_mux r of
                Redirect u \<Rightarrow> (RedirectTo u, s1)
              | NotFound \<Rightarrow> (Respond (http_Error ''404 page not found'' 404 w'), s1)
              | Route ToHealth \<Rightarrow> (Respond (handleHealth r w'), s1)
              | Route ToAdmin \<Rightarrow>
                  (let (res, a) = admin_Handler env (NewAdminAPI (sv_auth s) (gw_registry g) (gw_metrics g)) r w';
                       s2 = s1\<lparr>sv_auth := adm_tokenStore a,
                               sv_gateway := g\<lparr>gw_registry := adm_registry a, gw_metrics := adm_metrics a\<rparr>\<rparr>
                   in (case res of Served out \<Rightarrow> Respond out | Redirected u \<Rightarrow> RedirectTo u, s2))
              | Route h \<Rightarrow> (Continue h, s1)))"

text \<open>
  \<open>Start\<close> after the routes: it listens on \<open>ListenHTTP\<close> only and returns on the first of a signal and a
  failure of the listener. \<open>shutdown_ok\<close> is whether \<open>Shutdown\<close> ends within its 15 seconds.
\<close>

datatype start_event = SignalReceived | ListenFailed

datatype start_error = HTTPServerError | GracefulShutdownError

definition listen_addr :: "'lim Server \<Rightarrow> string" where
  "listen_addr s = srv_ListenHTTP (cfg_Server (sv_cfg s))"

definition server_Start :: "start_event \<Rightarrow> bool \<Rightarrow> start_error option" where
  "server_Start ev shutdown_ok =
     (case ev of
        ListenFailed \<Rightarrow> Some HTTPServerError
      | SignalReceived \<Rightarrow> (if shutdown_ok then None else Some GracefulShutdownError))"

subsection \<open>Control responses\<close>

definition sendControlResponse :: "write_ok \<Rightarrow> ws_id \<Rightarrow> 32 word \<Rightarrow> string \<Rightarrow> Gateway \<Rightarrow> Gateway" where
  "sendControlResponse wok ws code message g =
     (case EncodeControlMessage FrameControlResponse
             (enc_ControlResponse \<lparr>cr_Code = code, cr_Message = message, cr_Data = None\<rparr>) of
        Inl e \<Rightarrow> g
      | Inr data \<Rightarrow> g\<lparr>gw_ws := snd (ws_WriteMessage wok ws data (gw_ws g))\<rparr>)"

subsection \<open>Cleaning up\<close>

definition cleanup_tunnel :: "string \<Rightarrow> Gateway \<Rightarrow> Gateway" where
  "cleanup_tunnel i g0 =
     (let g = (case mr_GetByID (gw_registry g0) i of
                 Inr t \<Rightarrow> g0\<lparr>gw_broker := br_UnmapSubdomain (gw_broker g0) (tun_Subdomain t)\<rparr>
               | Inl e \<Rightarrow> g0)
      in case mr_Unregister (gw_registry g) i of
           (None, reg) \<Rightarrow> g\<lparr>gw_registry := reg, gw_metrics := DecActiveTunnels (gw_metrics g)\<rparr>
         | (Some e, reg) \<Rightarrow> g\<lparr>gw_registry := reg\<rparr>)"

definition cleanupConnection :: "32 word list \<Rightarrow> string \<Rightarrow> string list \<Rightarrow> Gateway \<Rightarrow> Gateway" where
  "cleanupConnection order connID tunnelIDs g0 =
     (let g = foldl (\<lambda>g i. cleanup_tunnel i g) g0 tunnelIDs
      in g\<lparr>gw_broker := br_RemoveConnection order (gw_broker g) connID\<rparr>)"

subsection \<open>Connecting\<close>

record session =
  ss_ws :: ws_id
  ss_conn :: conn_ref
  ss_connID :: string
  ss_tunnelIDs :: "string list"

datatype connect_result = Rejected | Connected session

definition new_tunnel :: "go_time \<Rightarrow> go_time \<Rightarrow> string \<Rightarrow> string \<Rightarrow> TunnelConfig \<Rightarrow> Tunnel" where
  "new_tunnel created heartbeat connID userID tc =
     \<lparr>tun_ID = connID @ ''-'' @ tc_Subdomain tc, tun_OwnerID = userID, tun_Subdomain = tc_Subdomain tc,
      tun_Protocol = tc_Protocol tc, tun_TargetPort = tc_Port tc, tun_CreatedAt = created,
      tun_LastHeartbeatAt = heartbeat, tun_ConnID = connID, tun_TTL = 0, tun_BandwidthLimit = 0\<rparr>"

text \<open>The loop over \<open>reg.Tunnels\<close>: the error of the first refused tunnel, the state, and \<open>tunnelIDs\<close>.\<close>

fun register_tunnels ::
  "(nat \<Rightarrow> go_time) \<Rightarrow> nat \<Rightarrow> string \<Rightarrow> string \<Rightarrow> TunnelConfig list \<Rightarrow> Gateway
     \<Rightarrow> registry_error option \<times> Gateway \<times> string list"
where
  "register_tunnels clock n connID userID [] g = (None, g, [])"
| "register_tunnels clock n connID userID (tc # tcs) g =
     (let t = new_tunnel (clock n) (clock (n + 1)) connID userID tc
      in case mr_Register (gw_registry g) t of
           (Some e, reg) \<Rightarrow> (Some e, g\<lparr>gw_registry := reg\<rparr>, [])
         | (None, reg) \<Rightarrow>
             (case register_tunnels clock (n + 2) connID userID tcs
                     (g\<lparr>gw_registry := reg,
                        gw_broker := br_MapSubdomain (gw_broker g) (tc_Subdomain tc) connID,
                        gw_metrics := IncActiveTunnels (gw_metrics g)\<rparr>) of
                (err, g', ids) \<Rightarrow> (err, g', tun_ID t # ids)))"

definition set_tunnels :: "conn_ref \<Rightarrow> string list \<Rightarrow> Broker \<Rightarrow> Broker" where
  "set_tunnels c ids b =
     b\<lparr>conn_heap := (conn_heap b)(c :=
        map_option (\<lambda>conn. conn\<lparr>cc_Tunnels := ids\<rparr>) (conn_heap b c))\<rparr>"

definition connection_id :: "(nat \<Rightarrow> go_time) \<Rightarrow> Register \<Rightarrow> string" where
  "connection_id clock reg =
     (if reg_ClientID reg = [] then ''conn-'' @ FormatInt (clock 1) else reg_ClientID reg)"

definition connect_register ::
  "write_ok \<Rightarrow> (nat \<Rightarrow> go_time) \<Rightarrow> 32 word list \<Rightarrow> ws_id \<Rightarrow> Register \<Rightarrow> Token \<Rightarrow> Gateway
     \<Rightarrow> connect_result \<times> Gateway"
where
  "connect_register wok clock order ws reg token g0 =
     (let connID = connection_id clock reg;
          (c, b) = br_AddConnection (gw_broker g0) connID (tok_UserID token) ws
      in case register_tunnels clock 2 connID (tok_UserID token) (reg_Tunnels reg) (g0\<lparr>gw_broker := b\<rparr>) of
           (Some e, g, tunnelIDs) \<Rightarrow>
             (Rejected,
              cleanupConnection order connID tunnelIDs
                (sendControlResponse wok ws CodeInvalidRequest
                  (''register tunnel failed: '' @ registry_error_string e) g))
         | (None, g, tunnelIDs) \<Rightarrow>
             (Connected \<lparr>ss_ws = ws, ss_conn = c, ss_connID = connID, ss_tunnelIDs = tunnelIDs\<rparr>,
              sendControlResponse wok ws CodeOK ''registered''
                (g\<lparr>gw_broker := set_tunnels c tunnelIDs (gw_broker g)\<rparr>)))"

text \<open>\<open>raw\<close> is the first message of the client, \<open>None\<close> when reading it fails.\<close>

definition connect_begin ::
  "write_ok \<Rightarrow> mac \<Rightarrow> (nat \<Rightarrow> go_time) \<Rightarrow> 32 word list \<Rightarrow> MemoryTokenStore \<Rightarrow> ws_id \<Rightarrow> bytes option \<Rightarrow> Gateway
     \<Rightarrow> connect_result \<times> Gateway"
where
  "connect_begin wok mac clock order auth ws raw g =
     (case raw of
        None \<Rightarrow> (Rejected, g)
      | Some msg \<Rightarrow>
          (case decode_msg msg of
             Inl e \<Rightarrow> (Rejected, sendControlResponse wok ws CodeInvalidRequest ''expected register frame'' g)
           | Inr (frameType, payload) \<Rightarrow>
               (if frameType \<noteq> FrameRegister then
                  (Rejected, sendControlResponse wok ws CodeInvalidRequest ''expected register frame'' g)
                else case DecodeControlMessage dec_Register payload zero_Register of
                    Inl e \<Rightarrow>
                      (Rejected, sendControlResponse wok ws CodeInvalidRequest ''invalid register payload'' g)
                  | Inr reg \<Rightarrow>
                      (case ts_ValidateToken mac (clock 0) auth (reg_Token reg) of
                         Inl e \<Rightarrow>
                           (Rejected,
                            sendControlResponse wok ws CodeUnauthorized
                              (''authentication failed: '' @ auth_error_string e)
                              (g\<lparr>gw_metrics := IncTokenAuthFailures (gw_metrics g)\<rparr>))
                       | Inr token \<Rightarrow> connect_register wok clock order ws reg token g))))"

subsection \<open>The read loop\<close>

text \<open>\<open>UpdateHeartbeat\<close> reads the clock only for a tunnel it finds; \<open>n\<close> counts the readings.\<close>

definition beat_tunnel :: "(nat \<Rightarrow> go_time) \<Rightarrow> nat \<times> MemoryRegistry \<Rightarrow> string \<Rightarrow> nat \<times> MemoryRegistry" where
  "beat_tunnel clock s i =
     (case s of (n, reg) \<Rightarrow>
        (case mr_UpdateHeartbeat (clock n) reg i of
           (None, reg') \<Rightarrow> (Suc n, reg')
         | (Some e, reg') \<Rightarrow> (n, reg')))"

definition handleHeartbeat :: "(nat \<Rightarrow> go_time) \<Rightarrow> string list \<Rightarrow> Gateway \<Rightarrow> Gateway" where
  "handleHeartbeat clock tunnelIDs g =
     g\<lparr>gw_registry := snd (foldl (beat_tunnel clock) (0, gw_registry g) tunnelIDs)\<rparr>"

definition getStream :: "Broker \<Rightarrow> conn_ref \<Rightarrow> 32 word \<Rightarrow> stream_ref option" where
  "getStream b c streamID =
     (case conn_heap b c of None \<Rightarrow> None | Some conn \<Rightarrow> cc_Streams conn streamID)"

text \<open>
  The \<open>select\<close> of \<open>deliverStreamData\<close>: the response goes into the channel when its buffer of one has
  room, it is dropped when the stream is closed, and when neither holds the read loop waits.
\<close>

datatype deliver = Deliver | Discard

definition deliver_ready :: "Stream \<Rightarrow> deliver \<Rightarrow> bool" where
  "deliver_ready s d = (case d of Deliver \<Rightarrow> st_Response s = [] | Discard \<Rightarrow> st_Done s)"

definition put_response :: "stream_ref \<Rightarrow> bytes \<Rightarrow> Broker \<Rightarrow> Broker" where
  "put_response ref data b =
     b\<lparr>stream_heap := (stream_heap b)(ref :=
        map_option (\<lambda>s. s\<lparr>st_Response := st_Response s @ [data]\<rparr>) (stream_heap b ref))\<rparr>"

text \<open>\<open>None\<close>: the chosen case of the \<open>select\<close> is not ready.\<close>

definition deliverStreamData ::
  "deliver \<Rightarrow> conn_ref \<Rightarrow> 32 word \<Rightarrow> bytes \<Rightarrow> Gateway \<Rightarrow> Gateway option" where
  "deliverStreamData d c streamID data g =
     (case getStream (gw_broker g) c streamID of
        None \<Rightarrow> Some g
      | Some ref \<Rightarrow>
          (case stream_heap (gw_broker g) ref of
             None \<Rightarrow> None
           | Some s \<Rightarrow>
               (if \<not> deliver_ready s d then None
                else case d of
                    Deliver \<Rightarrow> Some (g\<lparr>gw_broker := put_response ref data (gw_broker g)\<rparr>)
                  | Discard \<Rightarrow> Some g)))"

definition handleStreamData :: "deliver \<Rightarrow> conn_ref \<Rightarrow> bytes \<Rightarrow> Gateway \<Rightarrow> Gateway option" where
  "handleStreamData d c payload g =
     (case DecodeControlMessage dec_StreamData payload zero_StreamData of
        Inl e \<Rightarrow> Some g
      | Inr sd \<Rightarrow>
          (case ParseUint32 (sd_StreamID sd) of
             None \<Rightarrow> Some g
           | Some streamID \<Rightarrow> deliverStreamData d c (word_of_nat streamID) (sd_Data sd) g))"

definition handleCloseStream :: "conn_ref \<Rightarrow> bytes \<Rightarrow> Gateway \<Rightarrow> Gateway" where
  "handleCloseStream c payload g =
     (case DecodeControlMessage dec_CloseStream payload zero_CloseStream of
        Inl e \<Rightarrow> g
      | Inr cs \<Rightarrow>
          (case ParseUint32 (cs_StreamID cs) of
             None \<Rightarrow> g
           | Some streamID \<Rightarrow> g\<lparr>gw_broker := br_CloseStream (gw_broker g) c (word_of_nat streamID)\<rparr>))"

definition server_read ::
  "(nat \<Rightarrow> go_time) \<Rightarrow> deliver \<Rightarrow> session \<Rightarrow> bytes \<Rightarrow> Gateway \<Rightarrow> Gateway option" where
  "server_read clock d ss raw g =
     (case decode_msg raw of
        Inl e \<Rightarrow> Some g
      | Inr (frameType, payload) \<Rightarrow>
          (if frameType = FrameHeartbeat then Some (handleHeartbeat clock (ss_tunnelIDs ss) g)
           else if frameType = FrameStreamData then handleStreamData d (ss_conn ss) payload g
           else if frameType = FrameCloseStream then Some (handleCloseStream (ss_conn ss) payload g)
           else Some g))"

text \<open>The deferred cleanup of the read loop.\<close>

definition server_disconnect :: "32 word list \<Rightarrow> session \<Rightarrow> Gateway \<Rightarrow> Gateway" where
  "server_disconnect order ss g = cleanupConnection order (ss_connID ss) (ss_tunnelIDs ss) g"

subsection \<open>Registering and cleaning up\<close>

fun new_tunnels :: "(nat \<Rightarrow> go_time) \<Rightarrow> nat \<Rightarrow> string \<Rightarrow> string \<Rightarrow> TunnelConfig list \<Rightarrow> Tunnel list" where
  "new_tunnels clock n connID userID [] = []"
| "new_tunnels clock n connID userID (tc # tcs) =
     new_tunnel (clock n) (clock (n + 1)) connID userID tc # new_tunnels clock (n + 2) connID userID tcs"

lemma new_tunnels_fields:
  "map tun_ID (new_tunnels clock n connID userID tcs) = map (\<lambda>tc. connID @ ''-'' @ tc_Subdomain tc) tcs"
  "map tun_Subdomain (new_tunnels clock n connID userID tcs) = map tc_Subdomain tcs"
  "t \<in> set (new_tunnels clock n connID userID tcs) \<Longrightarrow>
     tun_ID t = connID @ ''-'' @ tun_Subdomain t \<and> tun_ConnID t = connID \<and> tun_OwnerID t = userID"
  by (induction tcs arbitrary: n) (auto simp: new_tunnel_def)

lemma length_new_tunnels [simp]: "length (new_tunnels clock n connID userID tcs) = length tcs"
  by (induction tcs arbitrary: n) simp_all

text \<open>The loop is the registry's, with the routing and the gauge beside it.\<close>

lemma register_tunnels_list:
  assumes "register_tunnels clock n cid u tcs g = (err, g', ids)"
  shows "mreg.register_list (gw_registry g) (new_tunnels clock n cid u tcs) = (err, gw_registry g', ids)
    \<and> active_tunnels (gw_metrics g') = active_tunnels (gw_metrics g) + int (length ids)
    \<and> gw_ws g' = gw_ws g
    \<and> gw_broker g' = foldl (\<lambda>b sub. br_MapSubdomain b sub cid) (gw_broker g)
        (map tc_Subdomain (take (length ids) tcs))"
  using assms
proof (induction tcs arbitrary: n g ids)
  case (Cons tc tcs)
  let ?t = "new_tunnel (clock n) (clock (n + 1)) cid u tc"
  obtain r reg where reg: "mr_Register (gw_registry g) ?t = (r, reg)" by (metis surj_pair)
  show ?case
  proof (cases r)
    case (Some e)
    with Cons.prems reg show ?thesis by auto
  next
    case None
    let ?g = "g\<lparr>gw_registry := reg, gw_broker := br_MapSubdomain (gw_broker g) (tc_Subdomain tc) cid,
                gw_metrics := IncActiveTunnels (gw_metrics g)\<rparr>"
    obtain ids' where rest: "register_tunnels clock (n + 2) cid u tcs ?g = (err, g', ids')"
      "ids = tun_ID ?t # ids'"
      using Cons.prems reg None by (auto split: prod.splits)
    from Cons.IH [OF rest(1)] reg None rest(2) show ?thesis by simp
  qed
qed simp

lemma foldl_Map_effect:
  "connections (foldl (\<lambda>b sub. br_MapSubdomain b sub cid) b subs) = connections b"
  "conn_heap (foldl (\<lambda>b sub. br_MapSubdomain b sub cid) b subs) = conn_heap b"
  "stream_heap (foldl (\<lambda>b sub. br_MapSubdomain b sub cid) b subs) = stream_heap b"
  "subdomainToConn (foldl (\<lambda>b sub. br_MapSubdomain b sub cid) b subs) x =
     (if x \<in> set subs then Some cid else subdomainToConn b x)"
  by (induction subs arbitrary: b) (auto simp: br_MapSubdomain_def)

lemma foldl_Map_inv:
  "broker_inv b \<Longrightarrow> broker_inv (foldl (\<lambda>b sub. br_MapSubdomain b sub cid) b subs)"
  by (induction subs arbitrary: b) (simp_all add: broker_inv_Map)

lemma cleanup_tunnel_effect:
  "gw_registry (cleanup_tunnel i g) = snd (mr_Unregister (gw_registry g) i)"
  "gw_ws (cleanup_tunnel i g) = gw_ws g"
  "gw_broker (cleanup_tunnel i g) =
     (case tunnels (gw_registry g) i of
        Some t \<Rightarrow> br_UnmapSubdomain (gw_broker g) (tun_Subdomain t) | None \<Rightarrow> gw_broker g)"
  "active_tunnels (gw_metrics (cleanup_tunnel i g)) =
     active_tunnels (gw_metrics g) - (if tunnels (gw_registry g) i = None then 0 else 1)"
  by (cases "tunnels (gw_registry g) i";
      simp add: cleanup_tunnel_def mr_GetByID_def mr_Unregister_def Let_def)+

lemma cleanup_tunnels_registry:
  "gw_registry (foldl (\<lambda>g i. cleanup_tunnel i g) g ids) = mreg.unregister_all (gw_registry g) ids"
  "gw_ws (foldl (\<lambda>g i. cleanup_tunnel i g) g ids) = gw_ws g"
  by (induction ids arbitrary: g) (simp_all add: cleanup_tunnel_effect)

text \<open>The subdomains of the tunnels with these IDs are unmapped, the others are kept.\<close>

definition subs_of :: "MemoryRegistry \<Rightarrow> string list \<Rightarrow> string set" where
  "subs_of r ids = {sub. \<exists>t. registry_view r sub = Some t \<and> tun_ID t \<in> set ids}"

lemma subs_of_Cons:
  assumes "registry_inv r"
  shows "subs_of r (i # ids) = (case tunnels r i of Some t \<Rightarrow> {tun_Subdomain t} | None \<Rightarrow> {})
    \<union> subs_of (snd (mr_Unregister r i)) ids"
proof -
  have v: "registry_view (snd (mr_Unregister r i)) sub = Some t \<longleftrightarrow> registry_view r sub = Some t \<and> tun_ID t \<noteq> i"
    for sub t
    using view_Unregister [OF assms, of i] by (simp add: without_id_Some)
  show ?thesis
  proof (rule set_eqI)
    fix sub
    have "sub \<in> subs_of r (i # ids) \<longleftrightarrow>
        (\<exists>t. registry_view r sub = Some t \<and> tun_ID t = i) \<or>
        (\<exists>t. registry_view r sub = Some t \<and> tun_ID t \<noteq> i \<and> tun_ID t \<in> set ids)"
      by (auto simp: subs_of_def)
    moreover have "(\<exists>t. registry_view r sub = Some t \<and> tun_ID t = i) \<longleftrightarrow>
        (\<exists>t. tunnels r i = Some t \<and> tun_Subdomain t = sub)"
      using view_Some_iff [OF assms, of sub] inv_tunnel [OF assms, of i] by metis
    moreover have "sub \<in> subs_of (snd (mr_Unregister r i)) ids \<longleftrightarrow>
        (\<exists>t. registry_view r sub = Some t \<and> tun_ID t \<noteq> i \<and> tun_ID t \<in> set ids)"
      by (simp add: subs_of_def v conj_assoc)
    ultimately show "sub \<in> subs_of r (i # ids) \<longleftrightarrow> sub \<in> (case tunnels r i of
        Some t \<Rightarrow> {tun_Subdomain t} | None \<Rightarrow> {}) \<union> subs_of (snd (mr_Unregister r i)) ids"
      by (cases "tunnels r i") auto
  qed
qed

lemma cleanup_tunnel_broker:
  "connections (gw_broker (cleanup_tunnel i g)) = connections (gw_broker g)"
  "conn_heap (gw_broker (cleanup_tunnel i g)) = conn_heap (gw_broker g)"
  "stream_heap (gw_broker (cleanup_tunnel i g)) = stream_heap (gw_broker g)"
  by (simp_all add: cleanup_tunnel_effect br_UnmapSubdomain_def split: option.split)

lemma cleanup_tunnel_inv:
  "registry_inv (gw_registry g) \<Longrightarrow> registry_inv (gw_registry (cleanup_tunnel i g))"
  by (simp add: cleanup_tunnel_effect inv_Unregister)

lemma cleanup_tunnels_broker:
  assumes "registry_inv (gw_registry g)"
  shows "connections (gw_broker (foldl (\<lambda>g i. cleanup_tunnel i g) g ids)) = connections (gw_broker g)"
    and "conn_heap (gw_broker (foldl (\<lambda>g i. cleanup_tunnel i g) g ids)) = conn_heap (gw_broker g)"
    and "stream_heap (gw_broker (foldl (\<lambda>g i. cleanup_tunnel i g) g ids)) = stream_heap (gw_broker g)"
    and "subdomainToConn (gw_broker (foldl (\<lambda>g i. cleanup_tunnel i g) g ids)) sub =
      (if sub \<in> subs_of (gw_registry g) ids then None else subdomainToConn (gw_broker g) sub)"
  using assms
proof (induction ids arbitrary: g)
  case Nil
  {
    case 4
    then show ?case by (simp add: subs_of_def)
  }
next
  case (Cons i ids)
  note inv = cleanup_tunnel_inv
  {
    case 1
    from Cons(1) [OF inv [OF 1]] show ?case by (simp add: cleanup_tunnel_broker)
  next
    case 2
    from Cons(2) [OF inv [OF 2]] show ?case by (simp add: cleanup_tunnel_broker)
  next
    case 3
    from Cons(3) [OF inv [OF 3]] show ?case by (simp add: cleanup_tunnel_broker)
  next
    case 4
    from Cons(4) [OF inv [OF 4]] show ?case
      by (auto simp: cleanup_tunnel_effect br_UnmapSubdomain_def subs_of_Cons [OF 4] split: option.split)
  }
qed simp_all

lemma cleanup_tunnels_gauge:
  assumes "registry_inv (gw_registry g)" "distinct ids"
    and "\<And>i. i \<in> set ids \<Longrightarrow> tunnels (gw_registry g) i \<noteq> None"
  shows "active_tunnels (gw_metrics (foldl (\<lambda>g i. cleanup_tunnel i g) g ids)) =
    active_tunnels (gw_metrics g) - int (length ids)"
  using assms
proof (induction ids arbitrary: g)
  case (Cons i ids)
  have "tunnels (gw_registry (cleanup_tunnel i g)) j = tunnels (gw_registry g) j" if "j \<noteq> i" for j
    using that by (simp add: cleanup_tunnel_effect mr_Unregister_def split: option.split)
  with Cons.prems have "tunnels (gw_registry (cleanup_tunnel i g)) j \<noteq> None" if "j \<in> set ids" for j
    using that by (metis distinct.simps(2) list.set_intros(2))
  moreover have "registry_inv (gw_registry (cleanup_tunnel i g))"
    using Cons.prems(1) by (rule cleanup_tunnel_inv)
  ultimately show ?case
    using Cons.IH [of "cleanup_tunnel i g"] Cons.prems(2,3) by (auto simp: cleanup_tunnel_effect)
qed simp

subsection \<open>Answers to the client\<close>

definition answered :: "write_ok \<Rightarrow> ws_id \<Rightarrow> 32 word \<Rightarrow> string \<Rightarrow> Gateway \<Rightarrow> Gateway \<Rightarrow> bool" where
  "answered wok ws code msg g g' \<longleftrightarrow>
     (\<exists>frame. gw_ws g' = (gw_ws g)(ws := gw_ws g ws @ [(frame, wok ws (length (gw_ws g ws)))])
        \<and> read_message frame = Some (MControlResponse \<lparr>cr_Code = code, cr_Message = msg, cr_Data = None\<rparr>))"

lemma sendControlResponse_fields [simp]:
  "gw_registry (sendControlResponse wok ws code msg g) = gw_registry g"
  "gw_broker (sendControlResponse wok ws code msg g) = gw_broker g"
  "gw_metrics (sendControlResponse wok ws code msg g) = gw_metrics g"
  by (simp_all add: sendControlResponse_def EncodeControlMessage_frame)

lemma sendControlResponse_answered:
  assumes "valid_utf8 msg" "length msg \<le> 1000000" "unat code \<le> 10000"
  shows "answered wok ws code msg g (sendControlResponse wok ws code msg g)"
proof -
  let ?m = "\<lparr>cr_Code = code, cr_Message = msg, cr_Data = None\<rparr>"
  have "length (escape msg) \<le> 6 * length msg" by (rule length_escape)
  moreover have "length (FormatUint (unat code)) \<le> Suc (unat code)" by (rule length_FormatUint)
  moreover have "length (escape ''code'') \<le> 24" "length (escape ''message'') \<le> 42"
    using length_escape [of "''code''"] length_escape [of "''message''"] by simp_all
  ultimately have "length (json_print (enc_ControlResponse ?m)) < 2 ^ 32"
    using assms(2,3) by (simp add: enc_ControlResponse_def enc_uint32_def)
  moreover have "msg_valid (MControlResponse ?m)" using assms(1) by (simp add: valid_ControlResponse_def)
  ultimately have "read_message (EncodeFrame FrameControlResponse (bytes_of_string (json_print
      (enc_ControlResponse ?m)))) = Some (MControlResponse ?m)"
    using read_wire [of "MControlResponse ?m"] by simp
  then show ?thesis
    by (auto simp: answered_def sendControlResponse_def EncodeControlMessage_frame ws_WriteMessage_def Let_def)
qed

lemma registry_error_ascii:
  "valid_utf8 (''register tunnel failed: '' @ registry_error_string e)"
  "length (''register tunnel failed: '' @ registry_error_string e) \<le> 1000000"
  by (cases e; simp add: valid_utf8_ascii is_ascii_def)+

lemma control_codes_small: "unat CodeInvalidRequest \<le> 10000" "unat CodeOK \<le> 10000"
  "unat CodeUnauthorized \<le> 10000"
  by (simp_all add: control_codes)

subsection \<open>Accepting and refusing a client\<close>

text \<open>An ID of the form \<open>cid-s\<close> is only used for the tunnel with subdomain \<open>s\<close>.\<close>

definition ids_separate :: "string \<Rightarrow> MemoryRegistry \<Rightarrow> bool" where
  "ids_separate cid r \<longleftrightarrow>
     (\<forall>sub t s. registry_view r sub = Some t \<longrightarrow> tun_ID t = cid @ ''-'' @ s \<longrightarrow> sub = s)"

lemma ids_separate_list:
  assumes "ids_separate cid r"
  shows "mreg.separate r (new_tunnels clock n cid u tcs)"
  unfolding mreg.separate_def
proof (intro ballI conjI allI impI)
  fix t a v assume t: "t \<in> set (new_tunnels clock n cid u tcs)" "registry_view r a = Some v" "tun_ID v = tun_ID t"
  from new_tunnels_fields(3) [OF t(1)] t(3) have "tun_ID v = cid @ ''-'' @ tun_Subdomain t" by simp
  with assms t(2) show "a = tun_Subdomain t" unfolding ids_separate_def by blast
next
  fix t v assume "t \<in> set (new_tunnels clock n cid u tcs)" "v \<in> set (new_tunnels clock n cid u tcs)"
    "tun_ID v = tun_ID t"
  with new_tunnels_fields(3) [of t clock n cid u tcs] new_tunnels_fields(3) [of v clock n cid u tcs]
  show "tun_Subdomain v = tun_Subdomain t" by simp
qed

text \<open>What the loop over the tunnels of a register message has done when it stops.\<close>

lemma register_tunnels_law:
  assumes "registry_inv (gw_registry g)" "ids_separate cid (gw_registry g)"
    and "register_tunnels clock n cid u tcs g = (err, g', ids)"
  defines "done \<equiv> take (length ids) tcs"
  shows "registry_inv (gw_registry g')"
    and "ids = map (\<lambda>tc. cid @ ''-'' @ tc_Subdomain tc) done" "err = None \<Longrightarrow> done = tcs"
    and "distinct (map tc_Subdomain done)"
    and "tc \<in> set done \<Longrightarrow> registry_view (gw_registry g) (tc_Subdomain tc) = None
      \<and> (\<exists>t. registry_view (gw_registry g') (tc_Subdomain tc) = Some t
          \<and> tun_ID t = cid @ ''-'' @ tc_Subdomain tc \<and> tun_ConnID t = cid \<and> tun_OwnerID t = u)"
    and "sub \<notin> set (map tc_Subdomain done) \<Longrightarrow> registry_view (gw_registry g') sub = registry_view (gw_registry g) sub"
    and "registry_view (mreg.unregister_all (gw_registry g') ids) = registry_view (gw_registry g)"
proof -
  let ?ts = "new_tunnels clock n cid u tcs"
  note list = register_tunnels_list [OF assms(3), THEN conjunct1]
  note sep = ids_separate_list [OF assms(2)]
  show roll: "registry_view (mreg.unregister_all (gw_registry g') ids) = registry_view (gw_registry g)"
    by (rule mreg.register_rollback [OF assms(1) sep list])
  from mreg.register_list_law [OF assms(1) sep list] obtain pre where pre: "registry_inv (gw_registry g')"
    "ids = map tun_ID pre" "pre = take (length ids) ?ts" "err = None \<longrightarrow> pre = ?ts"
    "distinct (map tun_Subdomain pre)"
    "\<forall>t \<in> set pre. registry_view (gw_registry g) (tun_Subdomain t) = None \<and>
       (\<exists>t'. registry_view (gw_registry g') (tun_Subdomain t) = Some t' \<and> tun_ID t' = tun_ID t \<and>
          tun_ConnID t' = tun_ConnID t \<and> tun_OwnerID t' = tun_OwnerID t)"
    "\<forall>a. a \<notin> tun_Subdomain ` set pre \<longrightarrow> registry_view (gw_registry g') a = registry_view (gw_registry g) a"
    by (elim conjE exE)
  show "registry_inv (gw_registry g')" by (rule pre(1))
  have subs: "map tun_Subdomain pre = map tc_Subdomain done"
    by (subst pre(3)) (simp add: done_def take_map [symmetric] new_tunnels_fields(2))
  have "map tun_ID (take (length ids) ?ts) = map (\<lambda>tc. cid @ ''-'' @ tc_Subdomain tc) done"
    by (simp add: done_def take_map [symmetric] new_tunnels_fields(1))
  then show "ids = map (\<lambda>tc. cid @ ''-'' @ tc_Subdomain tc) done"
    unfolding pre(3) [symmetric] pre(2) [symmetric] .
  show "done = tcs" if "err = None"
  proof -
    have "length ids = length tcs" using pre(2,4) that by simp
    then show ?thesis by (simp add: done_def)
  qed
  show "distinct (map tc_Subdomain done)" using pre(5) subs by simp
  show "registry_view (gw_registry g') sub = registry_view (gw_registry g) sub"
    if "sub \<notin> set (map tc_Subdomain done)"
  proof -
    have "sub \<notin> tun_Subdomain ` set pre" using that unfolding subs [symmetric] by simp
    then show ?thesis using pre(7) by simp
  qed
  assume "tc \<in> set done"
  then have "tc_Subdomain tc \<in> set (map tun_Subdomain pre)" unfolding subs by simp
  then obtain t where t: "t \<in> set pre" "tc_Subdomain tc = tun_Subdomain t"
    unfolding set_map by (elim imageE)
  from t(1) have "t \<in> set ?ts" unfolding pre(3) by (rule in_set_takeD)
  from new_tunnels_fields(3) [OF this] t(2)
  have f: "tun_ID t = cid @ ''-'' @ tc_Subdomain tc" "tun_ConnID t = cid" "tun_OwnerID t = u" by simp_all
  from bspec [OF pre(6) t(1)]
  show "registry_view (gw_registry g) (tc_Subdomain tc) = None
      \<and> (\<exists>t. registry_view (gw_registry g') (tc_Subdomain tc) = Some t
          \<and> tun_ID t = cid @ ''-'' @ tc_Subdomain tc \<and> tun_ConnID t = cid \<and> tun_OwnerID t = u)"
    unfolding t(2) f .
qed

text \<open>What \<open>cleanupConnection\<close> leaves.\<close>

lemma cleanupConnection_law:
  assumes "registry_inv (gw_registry g)" "cleanupConnection order cid ids g = g'"
  shows "registry_inv (gw_registry g')"
    and "gw_registry g' = mreg.unregister_all (gw_registry g) ids"
    and "registry_view (gw_registry g') sub =
      (if sub \<in> subs_of (gw_registry g) ids then None else registry_view (gw_registry g) sub)"
    and "connections (gw_broker g') = (connections (gw_broker g))(cid := None)"
    and "br_GetConnectionBySubdomain (gw_broker g') sub =
      (if sub \<in> subs_of (gw_registry g) ids \<or> subdomainToConn (gw_broker g) sub = Some cid then None
       else br_GetConnectionBySubdomain (gw_broker g) sub)"
    and "gw_ws g' = gw_ws g"
    and "gw_metrics g' = gw_metrics (foldl (\<lambda>g i. cleanup_tunnel i g) g ids)"
proof -
  let ?f = "foldl (\<lambda>g i. cleanup_tunnel i g) g ids"
  have g': "g' = ?f\<lparr>gw_broker := br_RemoveConnection order (gw_broker ?f) cid\<rparr>"
    using assms(2) by (simp add: cleanupConnection_def Let_def)
  show reg: "gw_registry g' = mreg.unregister_all (gw_registry g) ids"
    by (simp add: g' cleanup_tunnels_registry)
  note all = mreg.unregister_all_law [OF assms(1), of ids]
  show "registry_inv (gw_registry g')" using all by (simp add: reg)
  show "registry_view (gw_registry g') sub =
      (if sub \<in> subs_of (gw_registry g) ids then None else registry_view (gw_registry g) sub)"
    using all by (cases "registry_view (gw_registry g) sub") (simp_all add: reg subs_of_def)
  show "gw_ws g' = gw_ws g" by (simp add: g' cleanup_tunnels_registry)
  show "gw_metrics g' = gw_metrics ?f" by (simp add: g')
  note b = cleanup_tunnels_broker [OF assms(1), of ids]
  show "connections (gw_broker g') = (connections (gw_broker g))(cid := None)"
    by (simp add: g' Remove_effect b)
  have "br_GetConnectionBySubdomain (gw_broker ?f) sub =
      (if sub \<in> subs_of (gw_registry g) ids then None else br_GetConnectionBySubdomain (gw_broker g) sub)"
    by (simp add: br_GetConnectionBySubdomain_def b split: option.split)
  then show "br_GetConnectionBySubdomain (gw_broker g') sub =
      (if sub \<in> subs_of (gw_registry g) ids \<or> subdomainToConn (gw_broker g) sub = Some cid then None
       else br_GetConnectionBySubdomain (gw_broker g) sub)"
    by (simp add: g' GetConnectionBySubdomain_Remove b)
qed

text \<open>
  Registering under a client ID that is not in use and cleaning up again restores what can be seen of
  the gateway; \<open>g1\<close> differs from the state after the loop only in what was sent and in \<open>cc_Tunnels\<close>.
\<close>

definition same_gateway :: "Gateway \<Rightarrow> Gateway \<Rightarrow> bool" where
  "same_gateway g g' \<longleftrightarrow>
     registry_view (gw_registry g') = registry_view (gw_registry g) \<and>
     active_tunnels (gw_metrics g') = active_tunnels (gw_metrics g) \<and>
     br_GetConnection (gw_broker g') = br_GetConnection (gw_broker g) \<and>
     (\<forall>sub t. registry_view (gw_registry g) sub = Some t \<longrightarrow>
        br_GetConnectionBySubdomain (gw_broker g') sub = br_GetConnectionBySubdomain (gw_broker g) sub)"

lemma register_cleanup:
  assumes "registry_inv (gw_registry g)" "ids_separate cid (gw_registry g)"
    and "connections (gw_broker g) cid = None"
    and "br_AddConnection (gw_broker g) cid u ws = (c, b)"
    and "register_tunnels clock n cid u tcs (g\<lparr>gw_broker := b\<rparr>) = (err, g1, ids)"
    and "gw_registry g2 = gw_registry g1" "gw_metrics g2 = gw_metrics g1"
    and "connections (gw_broker g2) = connections (gw_broker g1)"
    and "subdomainToConn (gw_broker g2) = subdomainToConn (gw_broker g1)"
  shows "same_gateway g (cleanupConnection order cid ids g2)"
proof -
  let ?g = "g\<lparr>gw_broker := b\<rparr>" and ?g' = "cleanupConnection order cid ids g2"
  have pre: "registry_inv (gw_registry ?g)" "ids_separate cid (gw_registry ?g)" using assms(1,2) by simp_all
  note law = register_tunnels_law [OF pre assms(5)]
  have inv2: "registry_inv (gw_registry g2)" using law(1) assms(6) by simp
  note clean = cleanupConnection_law [OF inv2 refl, of order cid ids]
  note list = register_tunnels_list [OF assms(5)]
  have view: "registry_view (gw_registry ?g') = registry_view (gw_registry g)"
    using law(7) by (simp add: clean(2) assms(6))
  let ?done = "take (length ids) tcs"
  have "inj (\<lambda>tc. cid @ ''-'' @ tc) \<and> ids = map (\<lambda>s. cid @ ''-'' @ s) (map tc_Subdomain ?done)"
    using law(2) by (simp add: o_def inj_def)
  then have dist: "distinct ids" using law(4) by (metis distinct_map inj_on_subset subset_UNIV)
  have reg: "tunnels (gw_registry g2) i \<noteq> None" if "i \<in> set ids" for i
  proof -
    have "i \<in> (\<lambda>tc. cid @ ''-'' @ tc_Subdomain tc) ` set ?done"
      using that arg_cong [OF law(2), of set] by simp
    then obtain tc where tc: "tc \<in> set ?done" "i = cid @ ''-'' @ tc_Subdomain tc" by (elim imageE)
    from law(5) [OF tc(1)] obtain t where "registry_view (gw_registry g1) (tc_Subdomain tc) = Some t"
      "tun_ID t = i" unfolding tc(2) by (elim conjE exE)
    then show ?thesis using view_Some_iff [OF inv2] assms(6) by simp
  qed
  have gauge: "active_tunnels (gw_metrics ?g') = active_tunnels (gw_metrics g)"
    using cleanup_tunnels_gauge [OF inv2 dist reg] list assms(7) by (simp add: clean(7))
  note add = Add_effect [OF assms(4)]
  have conn2: "connections (gw_broker g2) = (connections (gw_broker g))(cid \<mapsto> c)"
    using list by (simp add: assms(8) foldl_Map_effect add(4))
  then have conns: "connections (gw_broker ?g') = connections (gw_broker g)"
    using assms(3) by (simp add: clean(4) conn2 fun_eq_iff)
  have "br_GetConnectionBySubdomain (gw_broker ?g') sub = br_GetConnectionBySubdomain (gw_broker g) sub"
    if s: "registry_view (gw_registry g) sub = Some t" for sub t
  proof -
    have new: "sub \<notin> set (map tc_Subdomain ?done)"
    proof
      assume "sub \<in> set (map tc_Subdomain ?done)"
      then obtain tc where "tc \<in> set ?done" "sub = tc_Subdomain tc" unfolding set_map by (elim imageE)
      with law(5) [of tc] s show False by simp
    qed
    have kept: "sub \<notin> subs_of (gw_registry g2) ids"
      using view s by (metis clean(3) option.distinct(1))
    have to: "subdomainToConn (gw_broker g2) sub = subdomainToConn (gw_broker g) sub"
      using list new by (simp add: assms(9) foldl_Map_effect add(7))
    show ?thesis
      unfolding clean(5) using kept to assms(3) conn2
      by (simp add: br_GetConnectionBySubdomain_def split: option.split)
  qed
  with view gauge conns show ?thesis by (simp add: same_gateway_def br_GetConnection_def fun_eq_iff)
qed

text \<open>A readable register message with a good token is what \<open>connect_register\<close> works on.\<close>

lemma connect_begin_register:
  assumes "read_message raw = Some (MRegister reg)"
    and "ts_ValidateToken mac (clock 0) auth (reg_Token reg) = Inr token"
  shows "connect_begin wok mac clock order auth ws (Some raw) g = connect_register wok clock order ws reg token g"
  using assms
  by (auto simp: read_message_def connect_begin_def to_option_def split: sum.splits if_splits)

lemma connect_begin_unauthorized:
  assumes "read_message raw = Some (MRegister reg)"
    and "ts_ValidateToken mac (clock 0) auth (reg_Token reg) = Inl e"
  shows "connect_begin wok mac clock order auth ws (Some raw) g =
    (Rejected, sendControlResponse wok ws CodeUnauthorized (''authentication failed: '' @ auth_error_string e)
       (g\<lparr>gw_metrics := IncTokenAuthFailures (gw_metrics g)\<rparr>))"
  using assms
  by (auto simp: read_message_def connect_begin_def to_option_def split: sum.splits if_splits)

lemma answered_cong: "gw_ws g = gw_ws h \<Longrightarrow> gw_ws g' = gw_ws h' \<Longrightarrow>
    answered wok ws code msg g g' = answered wok ws code msg h h'"
  by (simp add: answered_def)

lemma set_tunnels_fields [simp]:
  "connections (set_tunnels c ids b) = connections b" "subdomainToConn (set_tunnels c ids b) = subdomainToConn b"
  "stream_heap (set_tunnels c ids b) = stream_heap b" "nextStreamID (set_tunnels c ids b) = nextStreamID b"
  by (simp_all add: set_tunnels_def)

text \<open>The two ways a registration ends.\<close>

lemma connect_register_cases:
  assumes "connect_register wok clock order ws reg token g = (res, g')"
  obtains c b e g1 ids where "br_AddConnection (gw_broker g) (connection_id clock reg) (tok_UserID token) ws = (c, b)"
    and "register_tunnels clock 2 (connection_id clock reg) (tok_UserID token) (reg_Tunnels reg)
        (g\<lparr>gw_broker := b\<rparr>) = (Some e, g1, ids)"
    and "res = Rejected" "g' = cleanupConnection order (connection_id clock reg) ids
        (sendControlResponse wok ws CodeInvalidRequest (''register tunnel failed: '' @ registry_error_string e) g1)"
  | c b g1 ids where "br_AddConnection (gw_broker g) (connection_id clock reg) (tok_UserID token) ws = (c, b)"
    and "register_tunnels clock 2 (connection_id clock reg) (tok_UserID token) (reg_Tunnels reg)
        (g\<lparr>gw_broker := b\<rparr>) = (None, g1, ids)"
    and "res = Connected \<lparr>ss_ws = ws, ss_conn = c, ss_connID = connection_id clock reg, ss_tunnelIDs = ids\<rparr>"
      "g' = sendControlResponse wok ws CodeOK ''registered''
         (g1\<lparr>gw_broker := set_tunnels c ids (gw_broker g1)\<rparr>)"
proof -
  obtain c b where add: "br_AddConnection (gw_broker g) (connection_id clock reg) (tok_UserID token) ws = (c, b)"
    by (metis surj_pair)
  obtain err g1 ids where reg: "register_tunnels clock 2 (connection_id clock reg) (tok_UserID token)
      (reg_Tunnels reg) (g\<lparr>gw_broker := b\<rparr>) = (err, g1, ids)" by (metis surj_pair)
  show thesis
  proof (cases err)
    case None
    with assms add reg show thesis by (intro that(2)) (auto simp: connect_register_def Let_def)
  next
    case (Some e)
    with assms add reg show thesis by (intro that(1)) (auto simp: connect_register_def Let_def)
  qed
qed

subsection \<open>An example\<close>

definition ex_client :: "string \<Rightarrow> string list \<Rightarrow> Register" where
  "ex_client cid subs =
     \<lparr>reg_Type = ''register'', reg_Token = tok_ID ex_token,
      reg_Tunnels = map (\<lambda>s. \<lparr>tc_Name = ''web'', tc_Protocol = ''http'', tc_Port = 3000, tc_Subdomain = s\<rparr>) subs,
      reg_ClientID = cid, reg_Metadata = \<lparr>cm_OS = ''linux'', cm_Version = ''1.0.0''\<rparr>\<rparr>"

definition ex_frame :: "string \<Rightarrow> string list \<Rightarrow> bytes" where
  "ex_frame cid subs = EncodeFrame FrameRegister (bytes_of_string (json_print (enc_Register (ex_client cid subs))))"

definition ex_clock :: "nat \<Rightarrow> go_time" where
  "ex_clock n = 2000 + int n"

lemma ex_token_ID: "tok_ID ex_token = ''1102.6b65793131''"
  by code_simp

lemma ex_frame_read:
  assumes "(cid, subs) \<in> {(''c2'', [''blog'', ''app'']), (''c2'', [''blog'']), (''c1'', [''app''])}"
  shows "read_message (ex_frame cid subs) = Some (MRegister (ex_client cid subs))"
  unfolding ex_frame_def
  using assms
  by (intro read_wire [of "MRegister (ex_client cid subs)", simplified])
    (auto simp: ex_client_def ex_token_ID valid_Register_def valid_TunnelConfig_def int64_ok_def
      min_int64_def max_int64_def valid_utf8_ascii is_ascii_def enc_Register_def enc_TunnelConfig_def
      enc_ClientMetadata_def enc_int_def FormatInt_def FormatUint.simps escape_plain escape_free_def
      escape_ascii_def)

lemma ex_token_valid: "ts_ValidateToken ex_mac (ex_clock 0) ex_store (reg_Token (ex_client cid subs)) = Inr ex_token"
  by (simp add: ex_client_def) code_simp

lemma ex_gateway_registry: "registry_inv (gw_registry ex_gateway)"
  using inv_Register [OF inv_New, of ex_tunnel "[''admin'', ''api'']" 32 60] ex_register_ok
  by (simp add: ex_gateway_def ex_empty_def NewMemoryRegistry_def)

lemma ex_gateway_view: "registry_view (gw_registry ex_gateway) = [''app'' \<mapsto> ex_tunnel\<lparr>tun_TTL := 60\<rparr>]"
  by (simp add: ex_gateway_def ex_registry_def registry_view_def fun_eq_iff)

lemma ex_separate: "ids_separate ''c2'' (gw_registry ex_gateway)"
  unfolding ids_separate_def ex_gateway_view by (simp add: ex_tunnel_def)

lemma ex_unused: "connections (gw_broker ex_gateway) ''c2'' = None"
  by (simp add: ex_gateway_def ex_broker_def broker_eval)

lemma ex_unrouted: "\<forall>sub. subdomainToConn (gw_broker ex_gateway) sub \<noteq> Some ''c2''"
  by (simp add: ex_gateway_def ex_broker_def broker_eval)

subsection \<open>Properties\<close>

text \<open>C6. A client whose registration is refused is rolled back: whatever tunnels were registered before the
  one that failed, the tunnels found under each subdomain, the gauge, the connections found under each
  ID and the routes of the registered subdomains are as before, and the client gets the reason as a
  control response. This assumes a consistent registry, a connection ID under which no connection is
  found, and that no tunnel registered for another subdomain has one of the tunnel IDs that belong to
  this connection ID; \<open>duplicate_client_id_unroutes\<close> shows what happens when the ID is in use.\<close>

theorem connect_refusal_rolls_back:
  assumes "registry_inv (gw_registry g)" "ids_separate (connection_id clock reg) (gw_registry g)"
    and "connections (gw_broker g) (connection_id clock reg) = None"
    and "read_message raw = Some (MRegister reg)"
    and "ts_ValidateToken mac (clock 0) auth (reg_Token reg) = Inr token"
    and "connect_begin wok mac clock order auth ws (Some raw) g = (Rejected, g')"
  shows "same_gateway g g' \<and>
    (\<exists>e. answered wok ws CodeInvalidRequest (''register tunnel failed: '' @ registry_error_string e) g g')"
proof -
  have "connect_register wok clock order ws reg token g = (Rejected, g')"
    using assms(6) connect_begin_register [of raw reg mac clock auth token wok order ws g, OF assms(4,5)] by simp
  then show ?thesis
  proof (cases rule: connect_register_cases)
    case (1 c b e g1 ids)
    let ?g2 = "sendControlResponse wok ws CodeInvalidRequest (''register tunnel failed: '' @ registry_error_string e) g1"
    have "same_gateway g g'"
      unfolding 1(4) by (rule register_cleanup [OF assms(1,2,3) 1(1,2)]) simp_all
    moreover have "answered wok ws CodeInvalidRequest (''register tunnel failed: '' @ registry_error_string e) g1 ?g2"
      by (intro sendControlResponse_answered registry_error_ascii control_codes_small)
    moreover have "gw_ws g' = gw_ws ?g2" "gw_ws g1 = gw_ws g"
      using register_tunnels_list [OF 1(2)] by (simp_all add: 1(4) cleanupConnection_def cleanup_tunnels_registry Let_def)
    ultimately show ?thesis by (auto simp: answered_def)
  qed simp
qed

lemma ex_blog:
  "register_tunnels ex_clock 2 ''c2'' ''user1'' (reg_Tunnels (ex_client ''c2'' [''blog'', ''app'']))
     (ex_gateway\<lparr>gw_broker := b\<rparr>) = (err, g1, ids) \<Longrightarrow> err \<noteq> None"
  by (auto simp: ex_client_def ex_gateway_def ex_registry_def mr_Register_def new_tunnel_def
      with_default_ttl_def split: prod.splits if_splits)

theorem connect_refusal_rolls_back_witness:
  "\<exists>g'. connect_begin (\<lambda>_ _. True) ex_mac ex_clock [] ex_store 9 (Some (ex_frame ''c2'' [''blog'', ''app''])) ex_gateway
      = (Rejected, g') \<and> same_gateway ex_gateway g'"
proof -
  let ?reg = "ex_client ''c2'' [''blog'', ''app'']" and ?raw = "ex_frame ''c2'' [''blog'', ''app'']"
  have cid: "connection_id ex_clock ?reg = ''c2''" by (simp add: connection_id_def ex_client_def)
  have read: "read_message ?raw = Some (MRegister ?reg)" by (rule ex_frame_read) simp
  obtain res g' where b: "connect_begin (\<lambda>_ _. True) ex_mac ex_clock [] ex_store 9 (Some ?raw) ex_gateway = (res, g')"
    by (metis surj_pair)
  then have "connect_register (\<lambda>_ _. True) ex_clock [] 9 ?reg ex_token ex_gateway = (res, g')"
    unfolding connect_begin_register [where clock = ex_clock, OF read ex_token_valid] .
  then have "res = Rejected"
  proof (cases rule: connect_register_cases)
    case (2 c b g1 ids)
    have "tok_UserID ex_token = ''user1''" by (simp add: ex_token_def)
    with ex_blog 2(2) cid show ?thesis by metis
  qed simp
  with b have "connect_begin (\<lambda>_ _. True) ex_mac ex_clock [] ex_store 9 (Some ?raw) ex_gateway = (Rejected, g')" by simp
  from connect_refusal_rolls_back [of ex_gateway ex_clock ?reg, unfolded cid, OF ex_gateway_registry
      ex_separate ex_unused read ex_token_valid this] this
  show ?thesis by blast
qed

lemma GetConnectionBySubdomain_set_tunnels:
  "br_GetConnectionBySubdomain (set_tunnels c ids b) sub = br_GetConnectionBySubdomain b sub"
  by (simp add: br_GetConnectionBySubdomain_def set_tunnels_def split: option.split)

lemma registered_tunnel:
  assumes "registry_inv (gw_registry g)" "ids_separate cid (gw_registry g)"
    and "register_tunnels clock n cid u tcs g = (None, g', ids)" "connections (gw_broker g) cid = Some c" "tc \<in> set tcs"
  shows "\<exists>t. mr_GetBySubdomain (gw_registry g') (tc_Subdomain tc) = Inr (Some t) \<and> tun_OwnerID t = u \<and> tun_ID t \<in> set ids"
    and "br_GetConnectionBySubdomain (gw_broker g') (tc_Subdomain tc) = Some c"
proof -
  note law = register_tunnels_law [OF assms(1-3)] and list = register_tunnels_list [OF assms(3)]
  have all: "take (length ids) tcs = tcs" by (rule law(3)) simp
  from law(5) [unfolded all, OF assms(5)] obtain t where t:
    "registry_view (gw_registry g') (tc_Subdomain tc) = Some t" "tun_ID t = cid @ ''-'' @ tc_Subdomain tc"
    "tun_OwnerID t = u" by (elim conjE exE)
  have "tun_ID t \<in> set ids" using law(2) t(2) assms(5) unfolding all by simp
  with t show "\<exists>t. mr_GetBySubdomain (gw_registry g') (tc_Subdomain tc) = Inr (Some t) \<and> tun_OwnerID t = u \<and> tun_ID t \<in> set ids"
    using law(1) by (simp add: mr_GetBySubdomain_view)
  show "br_GetConnectionBySubdomain (gw_broker g') (tc_Subdomain tc) = Some c"
    using list assms(4,5) by (simp add: all br_GetConnectionBySubdomain_def foldl_Map_effect)
qed

text \<open>C5. When a client is accepted, every tunnel it asked for is in the registry under its subdomain, owned
  by the user of the token, and requests for that subdomain are routed to this client's socket; its
  connection ID finds its connection and every other ID the connection it found before; the gauge has
  gone up by the number of tunnels; the other subdomains are registered and routed as before; and the
  client is told. This assumes a consistent registry, that no tunnel registered for another subdomain
  has one of the tunnel IDs that belong to this connection ID, and that no route leads to this
  connection ID yet: the gateway checks neither of the last two, and a client that names an ID in use
  takes over its routes.\<close>

theorem connect_accepts:
  assumes "registry_inv (gw_registry g)" "ids_separate (connection_id clock reg) (gw_registry g)"
    and "\<forall>sub. subdomainToConn (gw_broker g) sub \<noteq> Some (connection_id clock reg)"
    and "read_message raw = Some (MRegister reg)"
    and "ts_ValidateToken mac (clock 0) auth (reg_Token reg) = Inr token"
    and "connect_begin wok mac clock order auth ws (Some raw) g = (Connected ss, g')"
  shows "(\<forall>tc \<in> set (reg_Tunnels reg).
       (\<exists>t. mr_GetBySubdomain (gw_registry g') (tc_Subdomain tc) = Inr (Some t) \<and>
            tun_OwnerID t = tok_UserID token \<and> tun_ID t \<in> set (ss_tunnelIDs ss)) \<and>
       br_GetConnectionBySubdomain (gw_broker g') (tc_Subdomain tc) = Some (ss_conn ss))
    \<and> map_option cc_WS (conn_heap (gw_broker g') (ss_conn ss)) = Some ws
    \<and> (\<forall>i. br_GetConnection (gw_broker g') i =
         (if i = connection_id clock reg then Some (ss_conn ss) else br_GetConnection (gw_broker g) i))
    \<and> active_tunnels (gw_metrics g') = active_tunnels (gw_metrics g) + int (length (reg_Tunnels reg))
    \<and> (\<forall>sub. sub \<notin> tc_Subdomain ` set (reg_Tunnels reg) \<longrightarrow>
         registry_view (gw_registry g') sub = registry_view (gw_registry g) sub \<and>
         br_GetConnectionBySubdomain (gw_broker g') sub = br_GetConnectionBySubdomain (gw_broker g) sub)
    \<and> answered wok ws CodeOK ''registered'' g g'"
proof -
  have "connect_register wok clock order ws reg token g = (Connected ss, g')"
    using assms(6) connect_begin_register [of raw reg mac clock auth token wok order ws g, OF assms(4,5)] by simp
  then show ?thesis
  proof (cases rule: connect_register_cases)
    case (2 c b g1 ids)
    let ?cid = "connection_id clock reg" and ?g = "g\<lparr>gw_broker := b\<rparr>"
    have pre: "registry_inv (gw_registry ?g)" "ids_separate ?cid (gw_registry ?g)" using assms(1,2) by simp_all
    note law = register_tunnels_law [OF pre 2(2)] and list = register_tunnels_list [OF 2(2)]
    note add = Add_effect [OF 2(1)]
    have all: "take (length ids) (reg_Tunnels reg) = reg_Tunnels reg" by (rule law(3)) simp
    have ss: "ss_conn ss = c" "ss_tunnelIDs ss = ids" using 2(3) by simp_all
    have ids: "ids = map (\<lambda>tc. ?cid @ ''-'' @ tc_Subdomain tc) (reg_Tunnels reg)"
      using law(2) unfolding all .
    have tun: "(\<exists>t. mr_GetBySubdomain (gw_registry g') (tc_Subdomain tc) = Inr (Some t) \<and>
         tun_OwnerID t = tok_UserID token \<and> tun_ID t \<in> set (ss_tunnelIDs ss)) \<and>
       br_GetConnectionBySubdomain (gw_broker g') (tc_Subdomain tc) = Some (ss_conn ss)"
      if "tc \<in> set (reg_Tunnels reg)" for tc
      using registered_tunnel [OF pre 2(2) _ that] add(4)
      by (simp add: 2(4) ss GetConnectionBySubdomain_set_tunnels)
    have ws: "map_option cc_WS (conn_heap (gw_broker g') (ss_conn ss)) = Some ws"
      using list 2(1) by (auto simp: 2(4) ss set_tunnels_def foldl_Map_effect br_AddConnection_def Let_def)
    have "length ids = length (reg_Tunnels reg)" unfolding ids by simp
    then have gauge: "active_tunnels (gw_metrics g') = active_tunnels (gw_metrics g) + int (length (reg_Tunnels reg))"
      using list by (simp add: 2(4))
    have conns: "connections (gw_broker g') = (connections (gw_broker g))(?cid \<mapsto> c)"
      using list by (simp add: 2(4) foldl_Map_effect add(4))
    have other: "registry_view (gw_registry g') sub = registry_view (gw_registry g) sub \<and>
         br_GetConnectionBySubdomain (gw_broker g') sub = br_GetConnectionBySubdomain (gw_broker g) sub"
      if "sub \<notin> tc_Subdomain ` set (reg_Tunnels reg)" for sub
    proof -
      have "subdomainToConn (gw_broker g') sub = subdomainToConn (gw_broker g) sub"
        using list that by (simp add: 2(4) all foldl_Map_effect add(7))
      then have "br_GetConnectionBySubdomain (gw_broker g') sub = br_GetConnectionBySubdomain (gw_broker g) sub"
        using assms(3) by (auto simp: br_GetConnectionBySubdomain_def conns split: option.split)
      then show ?thesis using law(6) [unfolded all, of sub] that by (simp add: 2(4))
    qed
    have found: "br_GetConnection (gw_broker g') i =
        (if i = ?cid then Some (ss_conn ss) else br_GetConnection (gw_broker g) i)" for i
      by (simp add: br_GetConnection_def conns ss)
    have "answered wok ws CodeOK ''registered'' (g1\<lparr>gw_broker := set_tunnels c ids (gw_broker g1)\<rparr>) g'"
      unfolding 2(4)
      by (intro sendControlResponse_answered control_codes_small) (simp_all add: valid_utf8_ascii is_ascii_def)
    then have "answered wok ws CodeOK ''registered'' g g'" using list by (simp add: answered_def)
    with tun ws found gauge other show ?thesis by (intro conjI ballI allI impI) simp_all
  qed simp
qed

lemma ex_blog_read: "read_message (ex_frame ''c2'' [''blog'']) = Some (MRegister (ex_client ''c2'' [''blog'']))"
  by (rule ex_frame_read) simp

lemma ex_blog_id: "connection_id ex_clock (ex_client ''c2'' [''blog'']) = ''c2''"
  by (simp add: connection_id_def ex_client_def)

lemma ex_accept:
  "\<exists>ss g'. connect_begin (\<lambda>_ _. True) ex_mac ex_clock [] ex_store 9 (Some (ex_frame ''c2'' [''blog''])) ex_gateway
      = (Connected ss, g') \<and> ss_connID ss = ''c2'' \<and> ss_tunnelIDs ss = [''c2-blog'']"
proof -
  let ?reg = "ex_client ''c2'' [''blog'']"
  note cid = ex_blog_id and read = ex_blog_read
  obtain res g' where b: "connect_register (\<lambda>_ _. True) ex_clock [] 9 ?reg ex_token ex_gateway = (res, g')"
    by (metis surj_pair)
  then have "\<exists>ss. res = Connected ss \<and> ss_connID ss = ''c2'' \<and> ss_tunnelIDs ss = [''c2-blog'']"
  proof (cases rule: connect_register_cases)
    case (1 c b e g1 ids)
    then show ?thesis unfolding cid
      by (simp add: ex_client_def ex_gateway_def ex_registry_def mr_Register_def new_tunnel_def
        with_default_ttl_def)
  next
    case (2 c b g1 ids)
    have "ids = [''c2-blog'']" using 2(2) unfolding cid
      by (simp add: ex_client_def ex_gateway_def ex_registry_def mr_Register_def new_tunnel_def
        with_default_ttl_def)
    with 2(3) cid show ?thesis by simp
  qed
  with b show ?thesis unfolding connect_begin_register [where clock = ex_clock, OF read ex_token_valid] by blast
qed

theorem connect_accepts_witness:
  "\<exists>ss g' t. connect_begin (\<lambda>_ _. True) ex_mac ex_clock [] ex_store 9 (Some (ex_frame ''c2'' [''blog''])) ex_gateway
      = (Connected ss, g') \<and> mr_GetBySubdomain (gw_registry g') ''blog'' = Inr (Some t) \<and> tun_OwnerID t = ''user1''"
proof -
  obtain ss g' where b: "connect_begin (\<lambda>_ _. True) ex_mac ex_clock [] ex_store 9
      (Some (ex_frame ''c2'' [''blog''])) ex_gateway = (Connected ss, g')" using ex_accept by (elim exE conjE)
  have "tok_UserID ex_token = ''user1''" "reg_Tunnels (ex_client ''c2'' [''blog'']) =
      [\<lparr>tc_Name = ''web'', tc_Protocol = ''http'', tc_Port = 3000, tc_Subdomain = ''blog''\<rparr>]"
    by (simp_all add: ex_token_def ex_client_def)
  with connect_accepts [where clock = ex_clock and reg = "ex_client ''c2'' [''blog'']", unfolded ex_blog_id,
      OF ex_gateway_registry ex_separate ex_unrouted ex_blog_read ex_token_valid b] b
  show ?thesis by auto
qed

text \<open>A client that connects and disconnects again leaves the gateway as it was before.\<close>

theorem disconnect_undoes_connect:
  assumes "registry_inv (gw_registry g)" "ids_separate (connection_id clock reg) (gw_registry g)"
    and "connections (gw_broker g) (connection_id clock reg) = None"
    and "read_message raw = Some (MRegister reg)"
    and "ts_ValidateToken mac (clock 0) auth (reg_Token reg) = Inr token"
    and "connect_begin wok mac clock order auth ws (Some raw) g = (Connected ss, g')"
  shows "same_gateway g (server_disconnect order' ss g')"
proof -
  have "connect_register wok clock order ws reg token g = (Connected ss, g')"
    using assms(6) connect_begin_register [of raw reg mac clock auth token wok order ws g, OF assms(4,5)] by simp
  then show ?thesis
  proof (cases rule: connect_register_cases)
    case (2 c b g1 ids)
    have "ss_connID ss = connection_id clock reg" "ss_tunnelIDs ss = ids" using 2(3) by simp_all
    then show ?thesis unfolding server_disconnect_def
      using register_cleanup [OF assms(1,2,3) 2(1,2), of g' order'] by (simp add: 2(4))
  qed simp
qed

theorem disconnect_undoes_connect_witness:
  "\<exists>ss g'. connect_begin (\<lambda>_ _. True) ex_mac ex_clock [] ex_store 9 (Some (ex_frame ''c2'' [''blog''])) ex_gateway
      = (Connected ss, g') \<and> same_gateway ex_gateway (server_disconnect [] ss g')"
proof -
  obtain ss g' where b: "connect_begin (\<lambda>_ _. True) ex_mac ex_clock [] ex_store 9
      (Some (ex_frame ''c2'' [''blog''])) ex_gateway = (Connected ss, g')" using ex_accept by (elim exE conjE)
  with disconnect_undoes_connect [where clock = ex_clock and reg = "ex_client ''c2'' [''blog'']", unfolded ex_blog_id,
      OF ex_gateway_registry ex_separate ex_unused ex_blog_read ex_token_valid b]
  show ?thesis by blast
qed

text \<open>C7. In any state with a consistent registry, the disconnection of a session removes the connection found
  under its connection ID and no other, and every tunnel of the session that is still registered, from
  the registry and from the routes. Every other registered tunnel stays registered; its route stays as
  it is unless it leads to the session's connection ID, which another session may share: then the route
  is removed too. The registry stays consistent.\<close>

theorem disconnect_clears_session:
  assumes "registry_inv (gw_registry g)" "server_disconnect order ss g = g'"
  shows "registry_inv (gw_registry g') \<and>
    (\<forall>i. br_GetConnection (gw_broker g') i = (if i = ss_connID ss then None else br_GetConnection (gw_broker g) i)) \<and>
    (\<forall>sub t. registry_view (gw_registry g) sub = Some t \<longrightarrow>
       (if tun_ID t \<in> set (ss_tunnelIDs ss)
        then registry_view (gw_registry g') sub = None \<and> br_GetConnectionBySubdomain (gw_broker g') sub = None
        else registry_view (gw_registry g') sub = Some t \<and>
          br_GetConnectionBySubdomain (gw_broker g') sub =
            (if subdomainToConn (gw_broker g) sub = Some (ss_connID ss) then None
             else br_GetConnectionBySubdomain (gw_broker g) sub)))"
proof -
  note clean = cleanupConnection_law [OF assms(1) assms(2) [unfolded server_disconnect_def]]
  have "sub \<in> subs_of (gw_registry g) (ss_tunnelIDs ss) \<longleftrightarrow> tun_ID t \<in> set (ss_tunnelIDs ss)"
    if "registry_view (gw_registry g) sub = Some t" for sub t using that by (simp add: subs_of_def)
  then show ?thesis by (simp add: clean(1,3,4,5) br_GetConnection_def)
qed

theorem disconnect_clears_session_witness:
  "registry_view (gw_registry (server_disconnect [1] \<lparr>ss_ws = 7, ss_conn = 0, ss_connID = ''c1'',
      ss_tunnelIDs = [''c1-app'']\<rparr> ex_gateway)) ''app'' = None"
proof -
  have "tun_ID (ex_tunnel\<lparr>tun_TTL := 60\<rparr>) = ''c1-app''" by (simp add: ex_tunnel_def)
  with disconnect_clears_session [OF ex_gateway_registry refl, of "[1]" "\<lparr>ss_ws = 7, ss_conn = 0,
      ss_connID = ''c1'', ss_tunnelIDs = [''c1-app'']\<rparr>"] ex_gateway_view
  show ?thesis by simp
qed

lemma ts_ValidateToken_error: "ts_ValidateToken mac now s x = Inl e \<Longrightarrow>
    e \<in> {ErrInvalidToken, ErrTokenNotFound, ErrTokenRevoked, ErrTokenExpired}"
  by (auto simp: ts_ValidateToken_def Let_def split: list.splits option.splits if_splits)

text \<open>C30. A client whose token was not issued by this gateway, is revoked or has expired is refused: the
  registry and the broker are untouched, the failure is counted, and the client is told that it is
  unauthorized.\<close>

theorem connect_unauthorized:
  assumes "token_inv mac auth" "read_message raw = Some (MRegister reg)"
    and "\<forall>t. tokens auth (reg_Token reg) = Some t \<longrightarrow> tok_Revoked t \<or> tok_ExpiresAt t < clock 0"
    and "connect_begin wok mac clock order auth ws (Some raw) g = (res, g')"
  shows "res = Rejected \<and> gw_registry g' = gw_registry g \<and> gw_broker g' = gw_broker g \<and>
    gw_metrics g' = IncTokenAuthFailures (gw_metrics g) \<and>
    mt_calls (gw_metrics g') = mt_calls (gw_metrics g) @ [CounterInc TokenAuthFailures] \<and>
    (\<exists>e. answered wok ws CodeUnauthorized (''authentication failed: '' @ auth_error_string e) g g')"
proof -
  have "ts_ValidateToken mac (clock 0) auth (reg_Token reg) \<noteq> Inr t" for t
    using assms(3) unfolding mts.validate_iff [OF assms(1)] by auto
  then obtain e where e: "ts_ValidateToken mac (clock 0) auth (reg_Token reg) = Inl e"
    by (cases "ts_ValidateToken mac (clock 0) auth (reg_Token reg)") auto
  let ?g = "g\<lparr>gw_metrics := IncTokenAuthFailures (gw_metrics g)\<rparr>"
  have "valid_utf8 (''authentication failed: '' @ auth_error_string e) \<and>
      length (''authentication failed: '' @ auth_error_string e) \<le> 1000000"
    using ts_ValidateToken_error [OF e] by (auto simp: valid_utf8_ascii is_ascii_def)
  then have "answered wok ws CodeUnauthorized (''authentication failed: '' @ auth_error_string e) ?g
      (sendControlResponse wok ws CodeUnauthorized (''authentication failed: '' @ auth_error_string e) ?g)"
    by (intro sendControlResponse_answered control_codes_small) simp_all
  moreover have "res = Rejected \<and> g' = sendControlResponse wok ws CodeUnauthorized
      (''authentication failed: '' @ auth_error_string e) ?g"
    using assms(4) connect_begin_unauthorized [of raw reg mac clock auth e wok order ws g, OF assms(2) e] by simp
  ultimately show ?thesis by (auto simp: answered_def metric_ops)
qed

theorem connect_unauthorized_witness:
  "\<exists>g'. connect_begin (\<lambda>_ _. True) ex_mac ex_clock [] (NewMemoryTokenStore ''key'') 9
      (Some (ex_frame ''c2'' [''blog''])) ex_gateway = (Rejected, g') \<and> gw_registry g' = gw_registry ex_gateway"
proof -
  obtain res g' where b: "connect_begin (\<lambda>_ _. True) ex_mac ex_clock [] (NewMemoryTokenStore ''key'') 9
      (Some (ex_frame ''c2'' [''blog''])) ex_gateway = (res, g')" by (metis surj_pair)
  have "tokens (NewMemoryTokenStore ''key'') (reg_Token (ex_client ''c2'' [''blog''])) = None"
    by (simp add: NewMemoryTokenStore_def)
  with connect_unauthorized [where clock = ex_clock, OF token_inv_New ex_blog_read _ b] b show ?thesis by auto
qed

text \<open>C33. The client chooses its connection ID, and the IDs are shared by all users. When a client with any
  valid token names the ID of a connection that is in use and its own registration then fails, the
  rollback takes the routes of the other connection with it: its subdomains are still registered but
  no longer routed.\<close>

theorem duplicate_client_id_unroutes:
  assumes "registry_inv (gw_registry g)" "ids_separate (connection_id clock reg) (gw_registry g)"
    and "subdomainToConn (gw_broker g) sub = Some (connection_id clock reg)"
    and "registry_view (gw_registry g) sub = Some t"
    and "read_message raw = Some (MRegister reg)"
    and "ts_ValidateToken mac (clock 0) auth (reg_Token reg) = Inr token"
    and "connect_begin wok mac clock order auth ws (Some raw) g = (Rejected, g')"
  shows "registry_view (gw_registry g') sub = Some t \<and>
    br_GetConnectionBySubdomain (gw_broker g') sub = None \<and>
    br_GetConnection (gw_broker g') (connection_id clock reg) = None"
proof -
  have "connect_register wok clock order ws reg token g = (Rejected, g')"
    using assms(7) connect_begin_register [of raw reg mac clock auth token wok order ws g, OF assms(5,6)] by simp
  then show ?thesis
  proof (cases rule: connect_register_cases)
    case (1 c b e g1 ids)
    let ?cid = "connection_id clock reg" and ?g = "g\<lparr>gw_broker := b\<rparr>"
    have pre: "registry_inv (gw_registry ?g)" "ids_separate ?cid (gw_registry ?g)" using assms(1,2) by simp_all
    note law = register_tunnels_law [OF pre 1(2)] and list = register_tunnels_list [OF 1(2)]
    let ?g2 = "sendControlResponse wok ws CodeInvalidRequest (''register tunnel failed: '' @ registry_error_string e) g1"
    have inv: "registry_inv (gw_registry ?g2)" using law(1) by simp
    note clean = cleanupConnection_law [OF inv 1(4) [symmetric]]
    have "registry_view (gw_registry g') sub = Some t" using law(7) assms(4) by (simp add: clean(2))
    moreover have "subdomainToConn (gw_broker g1) sub = Some ?cid"
      using list assms(3) by (simp add: foldl_Map_effect Add_effect [OF 1(1)])
    ultimately show ?thesis by (simp add: clean(4,5) br_GetConnection_def)
  qed simp
qed

text \<open>The second client belongs to the same example user here; it names the first client's ID \<open>c1\<close> and
  asks for a subdomain that is taken.\<close>

lemma ex_dup_read: "read_message (ex_frame ''c1'' [''app'']) = Some (MRegister (ex_client ''c1'' [''app'']))"
  by (rule ex_frame_read) simp

lemma ex_dup_rejected:
  "\<exists>g'. connect_begin (\<lambda>_ _. True) ex_mac ex_clock [] ex_store 9 (Some (ex_frame ''c1'' [''app''])) ex_gateway
      = (Rejected, g')"
proof -
  let ?reg = "ex_client ''c1'' [''app'']"
  have cid: "connection_id ex_clock ?reg = ''c1''" by (simp add: connection_id_def ex_client_def)
  obtain res g' where b: "connect_register (\<lambda>_ _. True) ex_clock [] 9 ?reg ex_token ex_gateway = (res, g')"
    by (metis surj_pair)
  then have "res = Rejected"
  proof (cases rule: connect_register_cases)
    case (2 c b g1 ids)
    then show ?thesis unfolding cid
      by (simp add: ex_client_def ex_gateway_def ex_registry_def mr_Register_def new_tunnel_def
          with_default_ttl_def)
  qed simp
  with b show ?thesis unfolding connect_begin_register [where clock = ex_clock, OF ex_dup_read ex_token_valid] by blast
qed

theorem duplicate_client_id_unroutes_witness:
  "\<exists>g'. connect_begin (\<lambda>_ _. True) ex_mac ex_clock [] ex_store 9 (Some (ex_frame ''c1'' [''app''])) ex_gateway
      = (Rejected, g') \<and> br_GetConnectionBySubdomain (gw_broker ex_gateway) ''app'' = Some 0 \<and>
      br_GetConnectionBySubdomain (gw_broker g') ''app'' = None"
proof -
  let ?reg = "ex_client ''c1'' [''app'']"
  have cid: "connection_id ex_clock ?reg = ''c1''" by (simp add: connection_id_def ex_client_def)
  obtain g' where b: "connect_begin (\<lambda>_ _. True) ex_mac ex_clock [] ex_store 9
      (Some (ex_frame ''c1'' [''app''])) ex_gateway = (Rejected, g')" using ex_dup_rejected by (elim exE)
  have sep: "ids_separate ''c1'' (gw_registry ex_gateway)"
    unfolding ids_separate_def ex_gateway_view by (simp add: ex_tunnel_def)
  have to: "subdomainToConn (gw_broker ex_gateway) ''app'' = Some ''c1''"
    and was: "br_GetConnectionBySubdomain (gw_broker ex_gateway) ''app'' = Some 0"
    by (simp_all add: ex_gateway_def ex_broker_def broker_eval br_GetConnectionBySubdomain_def)
  have v: "registry_view (gw_registry ex_gateway) ''app'' = Some (ex_tunnel\<lparr>tun_TTL := 60\<rparr>)"
    by (simp add: ex_gateway_view)
  from duplicate_client_id_unroutes [where clock = ex_clock and reg = ?reg, unfolded cid,
      OF ex_gateway_registry sep to v ex_dup_read ex_token_valid b] b was
  show ?thesis by blast
qed

text \<open>Reading a message of a stream, when the message is readable.\<close>

lemma server_read_data:
  assumes "read_message raw = Some (MStreamData sd)" "sd_StreamID sd = FormatUint (unat (sid :: 32 word))"
  shows "server_read clock d ss raw g = deliverStreamData d (ss_conn ss) sid (sd_Data sd) g"
proof -
  have "ParseUint32 (sd_StreamID sd) = Some (unat sid)" unfolding assms(2) by (rule ParseUint32_word)
  with assms(1) show ?thesis
    by (auto simp: read_message_def server_read_def handleStreamData_def to_option_def frame_types
        split: sum.splits if_splits)
qed

lemma server_read_close:
  assumes "read_message raw = Some (MCloseStream cs)" "cs_StreamID cs = FormatUint (unat (sid :: 32 word))"
  shows "server_read clock d ss raw g = Some (g\<lparr>gw_broker := br_CloseStream (gw_broker g) (ss_conn ss) sid\<rparr>)"
proof -
  have "ParseUint32 (cs_StreamID cs) = Some (unat sid)" unfolding assms(2) by (rule ParseUint32_word)
  with assms(1) show ?thesis
    by (auto simp: read_message_def server_read_def handleCloseStream_def to_option_def frame_types
        split: sum.splits if_splits)
qed

lemma open_on_stream:
  assumes "broker_inv b" "open_on b c sid = Some ref"
  obtains s conn where "stream_heap b ref = Some s" "st_ID s = sid" "conn_heap b c = Some conn"
    "cc_Streams conn sid = Some ref"
proof -
  obtain conn where conn: "conn_heap b c = Some conn" "cc_Streams conn sid = Some ref"
    using assms(2) by (auto simp: open_on_def split: option.splits)
  from broker_invD(4) [OF assms] obtain s where "stream_heap b ref = Some s" "st_ID s = sid"
    unfolding stream_id_def by (elim map_option_eq_Some [THEN iffD1, THEN exE] conjE)
  with conn that show thesis by blast
qed

lemma deliver_effect:
  assumes "broker_inv (gw_broker g)" "open_on (gw_broker g) c sid = Some ref"
    and "stream_heap (gw_broker g) ref = Some s" "st_Response s = []"
  shows "deliverStreamData Deliver c sid data g = Some (g\<lparr>gw_broker := put_response ref data (gw_broker g)\<rparr>)"
  using assms
  by (simp add: deliverStreamData_def getStream_def open_on_def deliver_ready_def split: option.splits)

text \<open>The data a client sends on a stream reaches the request that waits for it: the read loop does
  not wait when the stream's buffer is free, the waiting handler can then take exactly this data, and
  no other stream, connection or route changes.\<close>

theorem stream_data_reaches_waiter:
  assumes "broker_inv (gw_broker g)" "open_on (gw_broker g) (ss_conn ss) sid = Some ref"
    and "stream_heap (gw_broker g) ref = Some s" "st_Response s = []"
    and "read_message raw = Some (MStreamData sd)" "sd_StreamID sd = FormatUint (unat sid)"
  shows "\<exists>g'. server_read clock Deliver ss raw g = Some g' \<and>
    select_ready (gw_broker g') ref (GotResponse (sd_Data sd)) \<and>
    (\<forall>d. select_ready (gw_broker g') ref (GotResponse d) \<longrightarrow> d = sd_Data sd) \<and>
    (\<forall>q. q \<noteq> ref \<longrightarrow> stream_heap (gw_broker g') q = stream_heap (gw_broker g) q) \<and>
    conn_heap (gw_broker g') = conn_heap (gw_broker g) \<and>
    subdomainToConn (gw_broker g') = subdomainToConn (gw_broker g) \<and> gw_registry g' = gw_registry g"
  unfolding server_read_data [OF assms(5,6)] deliver_effect [OF assms(1-4)]
  using assms(3,4) by (simp add: select_ready_def put_response_def)

text \<open>C37. The data and the closing of a stream race: once the read loop has read both, as the client sends
  them one after the other, the waiting handler may take the response or answer 502 for the closed
  stream, and the language may choose either.\<close>

theorem response_and_close_race:
  assumes "broker_inv (gw_broker g)" "open_on (gw_broker g) (ss_conn ss) sid = Some ref"
    and "stream_heap (gw_broker g) ref = Some s" "st_Response s = []"
    and "read_message raw = Some (MStreamData sd)" "sd_StreamID sd = FormatUint (unat sid)"
    and "read_message raw' = Some (MCloseStream cs)" "cs_StreamID cs = FormatUint (unat sid)"
  shows "\<exists>g1 g2. server_read clock Deliver ss raw g = Some g1 \<and> server_read clock' d ss raw' g1 = Some g2 \<and>
    select_ready (gw_broker g2) ref (GotResponse (sd_Data sd)) \<and> select_ready (gw_broker g2) ref StreamDone"
proof -
  obtain conn where conn: "conn_heap (gw_broker g) (ss_conn ss) = Some conn" "cc_Streams conn sid = Some ref"
    using assms(1,2) by (rule open_on_stream)
  let ?g1 = "g\<lparr>gw_broker := put_response ref (sd_Data sd) (gw_broker g)\<rparr>"
  have "server_read clock Deliver ss raw g = Some ?g1"
    unfolding server_read_data [OF assms(5,6)] deliver_effect [OF assms(1-4)] by simp
  moreover have "server_read clock' d ss raw' ?g1 = Some (?g1\<lparr>gw_broker :=
      br_CloseStream (gw_broker ?g1) (ss_conn ss) sid\<rparr>)" by (rule server_read_close [OF assms(7,8)])
  moreover have "stream_heap (br_CloseStream (gw_broker ?g1) (ss_conn ss) sid) ref =
      Some (close_done (s\<lparr>st_Response := [sd_Data sd]\<rparr>))"
    using conn assms(3,4) by (simp add: br_CloseStream_def put_response_def close_refs_def)
  ultimately show ?thesis by (simp add: select_ready_def)
qed

text \<open>The stream of the example: number 1 of connection 0.\<close>

definition ex_session :: session where
  "ex_session = \<lparr>ss_ws = 7, ss_conn = 0, ss_connID = ''c1'', ss_tunnelIDs = [''c1-app'']\<rparr>"

definition ex_data :: StreamData where
  "ex_data = \<lparr>sd_StreamID = ''1'', sd_Data = [1, 2]\<rparr>"

definition ex_close :: CloseStream where
  "ex_close = \<lparr>cs_StreamID = ''1''\<rparr>"

lemma ex_one: "FormatUint (unat (1 :: 32 word)) = ''1''"
  by code_simp

lemma ex_data_read:
  "read_message (EncodeFrame FrameStreamData (bytes_of_string (json_print (enc_StreamData ex_data))))
     = Some (MStreamData ex_data)"
  using length_escape [of "b64_EncodeToString [1, 2]"]
  by (intro read_wire [of "MStreamData ex_data", simplified])
    (simp_all add: ex_data_def valid_StreamData_def valid_utf8_ascii is_ascii_def enc_StreamData_def
      enc_bytes_def escape_plain [of "''1''"] escape_plain [of "''data''"] escape_plain [of "''stream_id''"]
      escape_free_def escape_ascii_def)

lemma ex_close_read:
  "read_message (EncodeFrame FrameCloseStream (bytes_of_string (json_print (enc_CloseStream ex_close))))
     = Some (MCloseStream ex_close)"
  by (rule read_wire [of "MCloseStream ex_close", simplified])
    (simp_all add: ex_close_def valid_CloseStream_def valid_utf8_ascii is_ascii_def enc_CloseStream_def
      escape_plain escape_free_def escape_ascii_def)

lemma ex_stream:
  "broker_inv (gw_broker ex_gateway)" "open_on (gw_broker ex_gateway) (ss_conn ex_session) 1 = Some 0"
  "stream_heap (gw_broker ex_gateway) 0 =
     Some \<lparr>st_ID = 1, st_TunnelID = ''c1-app'', st_Request = [], st_Response = [], st_Done = False\<rparr>"
proof -
  show "stream_heap (gw_broker ex_gateway) 0 =
     Some \<lparr>st_ID = 1, st_TunnelID = ''c1-app'', st_Request = [], st_Response = [], st_Done = False\<rparr>"
    by (simp add: ex_gateway_def ex_broker_def broker_eval)
qed (simp_all add: ex_gateway_def ex_broker_inv ex_broker_open ex_session_def)

theorem stream_data_reaches_waiter_witness:
  "\<exists>g'. server_read ex_clock Deliver ex_session
      (EncodeFrame FrameStreamData (bytes_of_string (json_print (enc_StreamData ex_data)))) ex_gateway = Some g' \<and>
    select_ready (gw_broker g') 0 (GotResponse [1, 2])"
proof -
  have "sd_StreamID ex_data = FormatUint (unat (1 :: 32 word))" unfolding ex_one by (simp add: ex_data_def)
  moreover have "sd_Data ex_data = [1, 2]" by (simp add: ex_data_def)
  ultimately show ?thesis
    using stream_data_reaches_waiter [where clock = ex_clock, OF ex_stream _ ex_data_read] by auto
qed

theorem response_and_close_race_witness:
  "\<exists>g1 g2. server_read ex_clock Deliver ex_session
      (EncodeFrame FrameStreamData (bytes_of_string (json_print (enc_StreamData ex_data)))) ex_gateway = Some g1 \<and>
    server_read ex_clock Deliver ex_session
      (EncodeFrame FrameCloseStream (bytes_of_string (json_print (enc_CloseStream ex_close)))) g1 = Some g2 \<and>
    select_ready (gw_broker g2) 0 (GotResponse [1, 2]) \<and> select_ready (gw_broker g2) 0 StreamDone"
proof -
  have d: "sd_StreamID ex_data = FormatUint (unat (1 :: 32 word))" unfolding ex_one by (simp add: ex_data_def)
  have c: "cs_StreamID ex_close = FormatUint (unat (1 :: 32 word))" unfolding ex_one by (simp add: ex_close_def)
  have "sd_Data ex_data = [1, 2]" by (simp add: ex_data_def)
  then show ?thesis
    using response_and_close_race [where clock = ex_clock and clock' = ex_clock, OF ex_stream _ ex_data_read d
        ex_close_read c] by auto
qed

subsection \<open>Heartbeats\<close>

lemma beat_tunnel_effect:
  "tunnels (snd (beat_tunnel clock (n, reg) j)) i =
     (if i = j then map_option (\<lambda>t. t\<lparr>tun_LastHeartbeatAt := clock n\<rparr>) (tunnels reg j) else tunnels reg i)"
  "fst (beat_tunnel clock (n, reg) j) = (if tunnels reg j = None then n else Suc n)"
  by (simp_all add: beat_tunnel_def mr_UpdateHeartbeat_def split: option.split)

lemma heartbeat_fold:
  assumes "distinct ids" "foldl (beat_tunnel clock) (n, reg) ids = (n', reg')"
  shows "(\<forall>i. i \<notin> set ids \<longrightarrow> tunnels reg' i = tunnels reg i) \<and>
     (\<forall>k < length ids. tunnels reg' (ids ! k) =
        map_option (\<lambda>t. t\<lparr>tun_LastHeartbeatAt := clock (n + length (filter (\<lambda>i. tunnels reg i \<noteq> None) (take k ids)))\<rparr>)
          (tunnels reg (ids ! k)))"
  using assms
proof (induction ids arbitrary: n reg)
  case (Cons j ids)
  obtain m r where b: "beat_tunnel clock (n, reg) j = (m, r)" by (metis surj_pair)
  have upd: "tunnels r i = (if i = j then map_option (\<lambda>t. t\<lparr>tun_LastHeartbeatAt := clock n\<rparr>) (tunnels reg j)
      else tunnels reg i)" for i
    using beat_tunnel_effect(1) [of clock n reg j i] by (simp add: b)
  have m: "m = (if tunnels reg j = None then n else Suc n)"
    using beat_tunnel_effect(2) [of clock n reg j] by (simp add: b)
  have p: "distinct ids" "foldl (beat_tunnel clock) (m, r) ids = (n', reg')" "j \<notin> set ids"
    using Cons.prems b by simp_all
  note IH = Cons.IH [OF p(1,2)]
  have live: "filter (\<lambda>i. tunnels r i \<noteq> None) (take k ids) = filter (\<lambda>i. tunnels reg i \<noteq> None) (take k ids)" for k
    using p(3) by (intro filter_cong refl) (auto simp: upd dest: in_set_takeD)
  have "tunnels reg' ((j # ids) ! k) =
      map_option (\<lambda>t. t\<lparr>tun_LastHeartbeatAt :=
          clock (n + length (filter (\<lambda>i. tunnels reg i \<noteq> None) (take k (j # ids))))\<rparr>) (tunnels reg ((j # ids) ! k))"
    if "k < length (j # ids)" for k
  proof (cases k)
    case 0
    with IH p(3) upd [of j] show ?thesis by simp
  next
    case (Suc l)
    then have l: "l < length ids" "ids ! l \<noteq> j" using that p(3) by auto
    have "m + length (filter (\<lambda>i. tunnels r i \<noteq> None) (take l ids))
        = n + length (filter (\<lambda>i. tunnels reg i \<noteq> None) (take k (j # ids)))"
      using live [of l] by (simp add: Suc m)
    moreover have "tunnels reg' (ids ! l) = map_option (\<lambda>t. t\<lparr>tun_LastHeartbeatAt :=
        clock (m + length (filter (\<lambda>i. tunnels r i \<noteq> None) (take l ids)))\<rparr>) (tunnels r (ids ! l))"
      using IH l(1) by blast
    ultimately show ?thesis using Suc l(2) by (simp add: upd)
  qed
  with IH upd show ?case by simp
qed auto

text \<open>C23. A heartbeat renews exactly the tunnels of its session: of those that are still registered, the
  \<open>n\<close>-th in the session's list gets the \<open>n\<close>-th reading of the clock (counting from zero) as its last
  heartbeat and keeps everything else, and no other tunnel, route or stream changes.\<close>

theorem heartbeat_renews_session:
  assumes "decode_msg raw = Inr (FrameHeartbeat, payload)" "distinct (ss_tunnelIDs ss)"
    and "k < length (ss_tunnelIDs ss)" "i \<notin> set (ss_tunnelIDs ss)"
    and "n = length (filter (\<lambda>j. tunnels (gw_registry g) j \<noteq> None) (take k (ss_tunnelIDs ss)))"
  shows "\<exists>g'. server_read clock d ss raw g = Some g' \<and>
    tunnels (gw_registry g') (ss_tunnelIDs ss ! k) =
      map_option (\<lambda>t. t\<lparr>tun_LastHeartbeatAt := clock n\<rparr>) (tunnels (gw_registry g) (ss_tunnelIDs ss ! k)) \<and>
    tunnels (gw_registry g') i = tunnels (gw_registry g) i \<and>
    gw_broker g' = gw_broker g \<and> gw_metrics g' = gw_metrics g \<and> gw_ws g' = gw_ws g"
proof -
  let ?g = "handleHeartbeat clock (ss_tunnelIDs ss) g"
  have "server_read clock d ss raw g = Some ?g" using assms(1) by (simp add: server_read_def)
  moreover obtain n' where "foldl (beat_tunnel clock) (0, gw_registry g) (ss_tunnelIDs ss) = (n', gw_registry ?g)"
    by (simp add: handleHeartbeat_def prod_eq_iff)
  note heartbeat_fold [OF assms(2) this]
  ultimately show ?thesis using assms(3-5) by (simp add: handleHeartbeat_def)
qed

theorem heartbeat_renews_session_witness:
  "\<exists>g'. server_read ex_clock Deliver ex_session (EncodeFrame FrameHeartbeat []) ex_gateway = Some g' \<and>
     map_option tun_LastHeartbeatAt (tunnels (gw_registry g') ''c1-app'') = Some 2000"
proof -
  have d: "decode_msg (EncodeFrame FrameHeartbeat []) = Inr (FrameHeartbeat, [])"
    using DecodeFrame_EncodeFrame [of "[]" FrameHeartbeat "[]"] by simp
  have "distinct (ss_tunnelIDs ex_session)" "0 < length (ss_tunnelIDs ex_session)"
    "''x'' \<notin> set (ss_tunnelIDs ex_session)" "ss_tunnelIDs ex_session ! 0 = ''c1-app''"
    by (simp_all add: ex_session_def)
  moreover have "map_option tun_LastHeartbeatAt (map_option (\<lambda>t. t\<lparr>tun_LastHeartbeatAt := ex_clock 0\<rparr>)
      (tunnels (gw_registry ex_gateway) ''c1-app'')) = Some 2000"
    by (simp add: ex_gateway_def ex_registry_def ex_clock_def)
  ultimately show ?thesis
    using heartbeat_renews_session [OF d, of ex_session 0 "''x''" 0 ex_gateway ex_clock Deliver] by auto
qed

subsection \<open>Routes\<close>

lemma server_mux_lookup:
  "mux_find server_mux [''health''] = Some ToHealth" "mux_find server_mux [''metrics''] = Some ToMetrics"
  "mux_find server_mux [''connect''] = Some ToConnect" "mux_find server_mux [''api'', ''v1'', x] = Some ToAdmin"
  by (simp_all add: mux_find_def mux_exact_def server_mux_def subtree_matches_def)

text \<open>The paths \<open>/health\<close>, \<open>/metrics\<close> and \<open>/connect\<close> belong to the gateway whatever the host of the request
  is, so they never reach a tunnelled application.\<close>

theorem gateway_paths_shadow_tunnels:
  "r_EscapedPath r = ''/health'' \<or> r_EscapedPath r = ''/metrics'' \<or> r_EscapedPath r = ''/connect'' \<Longrightarrow>
     mux_route server_mux r \<in> {Route ToHealth, Route ToMetrics, Route ToConnect}"
proof -
  assume *: "r_EscapedPath r = ''/health'' \<or> r_EscapedPath r = ''/metrics'' \<or> r_EscapedPath r = ''/connect''"
  have clean: "cleanPath ''/health'' = ''/health''" "cleanPath ''/metrics'' = ''/metrics''"
    "cleanPath ''/connect'' = ''/connect''" by code_simp+
  have segs: "path_segments ''/health'' = [''health'']" "path_segments ''/metrics'' = [''metrics'']"
    "path_segments ''/connect'' = [''connect'']" by code_simp+
  have "mux_exact server_mux [''health''] \<noteq> None" "mux_exact server_mux [''metrics''] \<noteq> None"
    "mux_exact server_mux [''connect''] \<noteq> None"
    by (simp_all add: mux_exact_def server_mux_def)
  with * show ?thesis
    by (elim disjE) (simp_all add: mux_route_def clean segs Let_def server_mux_lookup)
qed

theorem gateway_paths_shadow_tunnels_witness:
  "mux_route server_mux (ex_http\<lparr>r_EscapedPath := ''/health''\<rparr>) \<in> {Route ToHealth, Route ToMetrics, Route ToConnect}"
  by (rule gateway_paths_shadow_tunnels) simp

end
