(* ===== verification/Gateway_System.thy ===== *)
theory Gateway_System
  imports Server
begin

text \<open>
  The gateway as a transition system. Its handlers run concurrently. A step is what one handler does
  from one wait for the network to the next: an HTTP request up to its answer or its wait, a client
  from its first message to the read loop, one message of the read loop, the end of a session, the
  rest of a waiting request, one tick of the rate limiter's cleanup. A run of the gateway is a sequence
  of such steps in any order. In the code a handler holds a mutex only for the length of one call of a
  component, so the calls of two handlers can also alternate within what is one step here;
  \<open>Gateway_Threads\<close> has the handlers at that granularity, and \<open>coarse_runs_are_interleavings\<close> relates the
  two. The state is the server, the sessions whose read loop is
  running and the requests that wait for a response. The steps are not a function: the network decides
  which message comes next, the clock when a timeout fires, and the language which ready case a
  \<open>select\<close> takes.
\<close>

subsection \<open>States and steps\<close>

record waiter =
  wt_conn :: conn_ref
  wt_stream :: stream_ref
  wt_request :: Request
  wt_writer :: ResponseWriter

record 'lim world =
  wd_server :: "'lim Server"
  wd_sessions :: "session list"
  wd_waiting :: "waiter list"

abbreviation wd_gateway :: "'lim world \<Rightarrow> Gateway" where
  "wd_gateway W \<equiv> sv_gateway (wd_server W)"

abbreviation wd_broker :: "'lim world \<Rightarrow> Broker" where
  "wd_broker W \<equiv> gw_broker (wd_gateway W)"

definition set_gateway :: "Gateway \<Rightarrow> 'lim world \<Rightarrow> 'lim world" where
  "set_gateway g W = W\<lparr>wd_server := (wd_server W)\<lparr>sv_gateway := g\<rparr>\<rparr>"

inductive gateway_step ::
  "(string \<Rightarrow> string) \<Rightarrow> mac \<Rightarrow> (int \<Rightarrow> int \<Rightarrow> 'lim) \<Rightarrow> (go_time \<Rightarrow> 'lim \<Rightarrow> bool \<times> 'lim)
     \<Rightarrow> 'lim world \<Rightarrow> 'lim world \<Rightarrow> bool"
  for uni mac new_limiter lim_allow
where
  step_http:
    "ae_mac env = mac \<Longrightarrow>
     server_handle new_limiter lim_allow env (wd_server W) r new_response = (act, s') \<Longrightarrow>
     act \<noteq> Continue ToConnect \<Longrightarrow> act \<noteq> Continue ToProxy \<Longrightarrow>
     gateway_step uni mac new_limiter lim_allow W (W\<lparr>wd_server := s'\<rparr>)"
| step_refuse:
    "ae_mac env = mac \<Longrightarrow>
     server_handle new_limiter lim_allow env (wd_server W) r new_response = (Continue ToConnect, s') \<Longrightarrow>
     connect_begin wok mac clock order (sv_auth s') ws raw (sv_gateway s') = (Rejected, g') \<Longrightarrow>
     gateway_step uni mac new_limiter lim_allow W (set_gateway g' (W\<lparr>wd_server := s'\<rparr>))"
| step_connect:
    "ae_mac env = mac \<Longrightarrow>
     server_handle new_limiter lim_allow env (wd_server W) r new_response = (Continue ToConnect, s') \<Longrightarrow>
     connect_begin wok mac clock order (sv_auth s') ws raw (sv_gateway s') = (Connected ss, g') \<Longrightarrow>
     gateway_step uni mac new_limiter lim_allow W
       (set_gateway g' (W\<lparr>wd_server := s', wd_sessions := ss # wd_sessions W\<rparr>))"
| step_read:
    "ss \<in> set (wd_sessions W) \<Longrightarrow> server_read clock d ss raw (wd_gateway W) = Some g' \<Longrightarrow>
     gateway_step uni mac new_limiter lim_allow W (set_gateway g' W)"
| step_disconnect:
    "ss \<in> set (wd_sessions W) \<Longrightarrow>
     gateway_step uni mac new_limiter lim_allow W
       (set_gateway (server_disconnect order ss (wd_gateway W))
         (W\<lparr>wd_sessions := remove1 ss (wd_sessions W)\<rparr>))"
| step_answer:
    "ae_mac env = mac \<Longrightarrow>
     server_handle new_limiter lim_allow env (wd_server W) r new_response = (Continue ToProxy, s') \<Longrightarrow>
     proxy_begin uni wok (sv_proxy s') (sv_gateway s') r new_response = (Answered res, g') \<Longrightarrow>
     gateway_step uni mac new_limiter lim_allow W (set_gateway g' (W\<lparr>wd_server := s'\<rparr>))"
| step_wait:
    "ae_mac env = mac \<Longrightarrow>
     server_handle new_limiter lim_allow env (wd_server W) r new_response = (Continue ToProxy, s') \<Longrightarrow>
     proxy_begin uni wok (sv_proxy s') (sv_gateway s') r new_response = (Waiting c ref, g') \<Longrightarrow>
     gateway_step uni mac new_limiter lim_allow W
       (set_gateway g' (W\<lparr>wd_server := s', wd_waiting :=
          \<lparr>wt_conn = c, wt_stream = ref, wt_request = r, wt_writer = new_response\<rparr> # wd_waiting W\<rparr>))"
| step_finish:
    "q \<in> set (wd_waiting W) \<Longrightarrow> select_ready (wd_broker W) (wt_stream q) sc \<Longrightarrow>
     proxy_finish order sc (wt_conn q) (wt_stream q) (wd_gateway W) (wt_request q) (wt_writer q) = (res, g') \<Longrightarrow>
     gateway_step uni mac new_limiter lim_allow W
       (set_gateway g' (W\<lparr>wd_waiting := remove1 q (wd_waiting W)\<rparr>))"
| step_cleanup:
    "s' = (wd_server W)\<lparr>sv_rateLimiter := cleanup_tick order now (sv_rateLimiter (wd_server W))\<rparr> \<Longrightarrow>
     gateway_step uni mac new_limiter lim_allow W (W\<lparr>wd_server := s'\<rparr>)"

definition start_world :: "'lim Server \<Rightarrow> 'lim world" where
  "start_world s = \<lparr>wd_server = s, wd_sessions = [], wd_waiting = []\<rparr>"

definition gateway_reachable ::
  "(string \<Rightarrow> string) \<Rightarrow> mac \<Rightarrow> (int \<Rightarrow> int \<Rightarrow> 'lim) \<Rightarrow> (go_time \<Rightarrow> 'lim \<Rightarrow> bool \<times> 'lim)
     \<Rightarrow> 'lim world \<Rightarrow> 'lim world \<Rightarrow> bool"
where
  "gateway_reachable uni mac new_limiter lim_allow = (gateway_step uni mac new_limiter lim_allow)\<^sup>*\<^sup>*"

lemma set_gateway_fields [simp]:
  "wd_gateway (set_gateway g W) = g" "wd_sessions (set_gateway g W) = wd_sessions W"
  "wd_waiting (set_gateway g W) = wd_waiting W" "sv_auth (wd_server (set_gateway g W)) = sv_auth (wd_server W)"
  by (simp_all add: set_gateway_def)

subsection \<open>References stay valid\<close>

text \<open>Connections and streams are never forgotten by the heap and keep their IDs.\<close>

definition broker_grows :: "Broker \<Rightarrow> Broker \<Rightarrow> bool" where
  "broker_grows b b' \<longleftrightarrow> broker_inv b' \<and> conn_id b \<subseteq>\<^sub>m conn_id b' \<and> stream_id b \<subseteq>\<^sub>m stream_id b'"

lemma broker_grows_trans: "broker_grows a b \<Longrightarrow> broker_grows b c \<Longrightarrow> broker_grows a c"
  by (auto simp: broker_grows_def intro: map_le_trans)

lemma broker_grows_refl: "broker_inv b \<Longrightarrow> broker_grows b b"
  by (simp add: broker_grows_def)

lemma broker_inv_obs:
  assumes "broker_inv b" "next_conn b' = next_conn b" "next_stream b' = next_stream b"
    and "connections b' = connections b" "conn_id b' = conn_id b" "stream_id b' = stream_id b"
    and "\<And>c i. open_on b' c i = open_on b c i"
  shows "broker_grows b b'"
  using assms by (simp add: broker_grows_def broker_inv_def)

lemma map_le_fresh: "m k = None \<Longrightarrow> m \<subseteq>\<^sub>m m(k \<mapsto> v)"
  by (auto simp: map_le_def)

lemma broker_growsD:
  assumes "broker_grows b b'"
  shows "broker_inv b'" "conn_id b c = Some cid \<Longrightarrow> conn_id b' c = Some cid"
    and "stream_id b r \<noteq> None \<Longrightarrow> stream_id b' r \<noteq> None"
  using assms by (auto simp: broker_grows_def map_le_def dom_def)

lemma grows_Add: "broker_inv b \<Longrightarrow> br_AddConnection b cid u ws = (c, b') \<Longrightarrow> broker_grows b b'"
  using broker_inv_Add [of b cid u ws] broker_invD(1) [of b "next_conn b"] Add_effect(1) [of b cid u ws c b']
  by (simp add: broker_grows_def Add_effect map_le_fresh)

lemma grows_Open: "broker_inv b \<Longrightarrow> br_OpenStream b c t = (r, b') \<Longrightarrow> broker_grows b b'"
  using broker_inv_Open [of b c t] broker_invD(2) [of b "next_stream b"] Open_effect(1) [of b c t r b']
  by (simp add: broker_grows_def Open_effect map_le_fresh)

lemma grows_Remove: "broker_inv b \<Longrightarrow> broker_grows b (br_RemoveConnection order b cid)"
  by (simp add: broker_grows_def broker_inv_Remove Remove_effect)

lemma grows_Close: "broker_inv b \<Longrightarrow> broker_grows b (br_CloseStream b c i)"
  by (simp add: broker_grows_def broker_inv_Close Close_effect)

lemma grows_put: "broker_inv b \<Longrightarrow> broker_grows b (put_response ref d b)"
  by (rule broker_inv_obs)
    (simp_all add: put_response_def conn_id_def stream_id_def open_on_def fun_eq_iff option.map_comp o_def)

lemma grows_take: "broker_inv b \<Longrightarrow> broker_grows b (take_response ref b)"
  by (rule broker_inv_obs)
    (simp_all add: take_response_def conn_id_def stream_id_def open_on_def fun_eq_iff option.map_comp o_def)

lemma grows_set_tunnels: "broker_inv b \<Longrightarrow> broker_grows b (set_tunnels c ids b)"
  by (rule broker_inv_obs)
    (auto simp: set_tunnels_def conn_id_def stream_id_def open_on_def fun_eq_iff option.map_comp o_def
      split: option.split)

lemma grows_Map_list:
  "broker_inv b \<Longrightarrow> broker_grows b (foldl (\<lambda>b sub. br_MapSubdomain b sub cid) b subs)"
proof (induction subs arbitrary: b)
  case (Cons sub subs)
  have "broker_grows b (br_MapSubdomain b sub cid)"
    using Cons.prems by (simp add: broker_grows_def broker_inv_Map Map_effect)
  moreover have "broker_grows (br_MapSubdomain b sub cid)
      (foldl (\<lambda>b sub. br_MapSubdomain b sub cid) (br_MapSubdomain b sub cid) subs)"
    using Cons by (simp add: broker_inv_Map)
  ultimately show ?case by (auto intro: broker_grows_trans)
qed (simp add: broker_grows_refl)

lemma grows_cleanup_tunnel:
  "broker_inv (gw_broker g) \<Longrightarrow> broker_grows (gw_broker g) (gw_broker (cleanup_tunnel i g))"
  by (simp add: cleanup_tunnel_effect broker_grows_def broker_inv_Unmap Unmap_effect split: option.split)

lemma grows_cleanup_tunnels:
  "broker_inv (gw_broker g) \<Longrightarrow>
     broker_grows (gw_broker g) (gw_broker (foldl (\<lambda>g i. cleanup_tunnel i g) g ids))"
proof (induction ids arbitrary: g)
  case (Cons i ids)
  note one = grows_cleanup_tunnel [OF Cons.prems, of i]
  with Cons.IH [of "cleanup_tunnel i g"] show ?case
    by (auto simp: broker_grows_def intro: broker_grows_trans map_le_trans)
qed (simp add: broker_grows_refl)

lemma grows_cleanup:
  assumes "broker_inv (gw_broker g)"
  shows "broker_grows (gw_broker g) (gw_broker (cleanupConnection order cid ids g))"
proof -
  note one = grows_cleanup_tunnels [OF assms, of ids]
  then have "broker_inv (gw_broker (foldl (\<lambda>g i. cleanup_tunnel i g) g ids))" by (simp add: broker_grows_def)
  with broker_grows_trans [OF one grows_Remove] show ?thesis
    by (simp add: cleanupConnection_def Let_def)
qed

lemma grows_register:
  assumes "broker_inv (gw_broker g)" "br_AddConnection (gw_broker g) cid u ws = (c, b)"
    and "register_tunnels clock n cid u tcs (g\<lparr>gw_broker := b\<rparr>) = (err, g1, ids)"
  shows "broker_grows (gw_broker g) (gw_broker g1) \<and> conn_id (gw_broker g1) c = Some cid"
proof -
  note add = grows_Add [OF assms(1,2)]
  then have "broker_inv b" by (simp add: broker_grows_def)
  then have "broker_grows b (gw_broker g1)"
    using register_tunnels_list [OF assms(3)] grows_Map_list by simp
  moreover have "conn_id b c = Some cid" by (simp add: Add_effect [OF assms(2)])
  ultimately show ?thesis using broker_grows_trans [OF add] broker_growsD(2) by simp
qed

lemma connect_begin_cases:
  assumes "connect_begin wok mac clock order auth ws raw g = (res, g')"
  obtains (refused) "res = Rejected" "gw_broker g' = gw_broker g" "gw_registry g' = gw_registry g"
  | (registered) msg reg token where "raw = Some msg" "read_message msg = Some (MRegister reg)"
      "ts_ValidateToken mac (clock 0) auth (reg_Token reg) = Inr token"
      "connect_register wok clock order ws reg token g = (res, g')"
proof (cases raw)
  case None
  with assms refused show thesis by (simp add: connect_begin_def)
next
  case (Some msg)
  show thesis
  proof (cases "decode_msg msg")
    case (Inl e)
    with Some assms show thesis by (intro refused) (auto simp: connect_begin_def)
  next
    case (Inr p)
    obtain ft payload where p: "p = (ft, payload)" by (cases p)
    show thesis
    proof (cases "ft = FrameRegister")
      case False
      with Some Inr p assms show thesis by (intro refused) (auto simp: connect_begin_def)
    next
      case True
      note ft = Some Inr p True
      show thesis
      proof (cases "DecodeControlMessage dec_Register payload zero_Register")
        case (Inl e)
        with ft assms show thesis by (intro refused) (auto simp: connect_begin_def)
      next
        case (Inr reg)
        then have read: "read_message msg = Some (MRegister reg)"
          using ft by (simp add: read_message_def to_option_def)
        show thesis
        proof (cases "ts_ValidateToken mac (clock 0) auth (reg_Token reg)")
          case (Inl e)
          from assms [unfolded Some connect_begin_unauthorized [where clock = clock, OF read Inl]]
          show thesis by (intro refused) auto
        next
          case (Inr token)
          from assms [unfolded Some connect_begin_register [where clock = clock, OF read Inr]]
          show thesis by (rule registered [OF Some read Inr])
        qed
      qed
    qed
  qed
qed

text \<open>Every handler keeps the references of the others, and a session points to its connection.\<close>

lemma grows_connect:
  assumes "broker_inv (gw_broker g)" "connect_begin wok mac clock order auth ws raw g = (res, g')"
  shows "broker_grows (gw_broker g) (gw_broker g') \<and>
    (\<forall>ss. res = Connected ss \<longrightarrow> conn_id (gw_broker g') (ss_conn ss) = Some (ss_connID ss))"
  using assms(2)
proof (cases rule: connect_begin_cases)
  case refused
  with assms(1) show ?thesis by (simp add: broker_grows_refl)
next
  case (registered msg reg token)
  from registered(4) show ?thesis
  proof (cases rule: connect_register_cases)
    case (1 c b e g1 ids)
    note one = grows_register [OF assms(1) 1(1,2)]
    have "broker_inv (gw_broker g1)" using one by (simp add: broker_grows_def)
    then have "broker_grows (gw_broker g1) (gw_broker g')"
      unfolding 1(4) using grows_cleanup [of "sendControlResponse wok ws CodeInvalidRequest
        (''register tunnel failed: '' @ registry_error_string e) g1"] by simp
    with one 1(3) show ?thesis by (auto intro: broker_grows_trans)
  next
    case (2 c b g1 ids)
    note one = grows_register [OF assms(1) 2(1,2)]
    have "broker_inv (gw_broker g1)" using one by (simp add: broker_grows_def)
    then have "broker_grows (gw_broker g1) (gw_broker g')"
      using grows_set_tunnels by (simp add: 2(4))
    with one have "broker_grows (gw_broker g) (gw_broker g')" "conn_id (gw_broker g') c = Some (connection_id clock reg)"
      by (auto intro: broker_grows_trans broker_growsD(2))
    with 2(3) show ?thesis by simp
  qed
qed

lemma grows_read:
  assumes "broker_inv (gw_broker g)" "server_read clock d ss raw g = Some g'"
  shows "broker_grows (gw_broker g) (gw_broker g')"
proof -
  have deliver: "broker_grows (gw_broker g) (gw_broker h)" if "deliverStreamData d c i x g = Some h" for c i x h
    using that assms(1)
    by (auto simp: deliverStreamData_def broker_grows_refl grows_put
        split: option.splits if_splits deliver.splits)
  have data: "broker_grows (gw_broker g) (gw_broker h)" if "handleStreamData d c p g = Some h" for c p h
    using that assms(1) deliver by (auto simp: handleStreamData_def broker_grows_refl split: sum.splits option.splits)
  have close: "broker_grows (gw_broker g) (gw_broker (handleCloseStream c p g))" for c p
    using assms(1) by (simp add: handleCloseStream_def broker_grows_refl grows_Close split: sum.split option.split)
  have beat: "gw_broker (handleHeartbeat clock ids g) = gw_broker g" for ids
    by (simp add: handleHeartbeat_def)
  show ?thesis
    using assms data close
    by (auto simp: server_read_def beat broker_grows_refl split: sum.splits if_splits)
qed

lemma grows_open_close:
  assumes "broker_inv b" "br_OpenStream b c t = (ref, b')"
  shows "broker_grows b (br_CloseStream b' c' i)"
  using grows_Open [OF assms] grows_Close broker_growsD(1) broker_grows_trans by blast

lemma grows_proxy_begin:
  assumes "broker_inv (gw_broker g)" "proxy_begin uni wok px g r w = (ph, g')"
  shows "broker_grows (gw_broker g) (gw_broker g') \<and>
    (\<forall>c ref. ph = Waiting c ref \<longrightarrow> stream_id (gw_broker g') ref \<noteq> None)"
proof (cases ph)
  case (Answered res)
  have "gw_broker g' = gw_broker g \<or> (\<exists>c t. proxy_open wok c t g r w = (Answered res, g'))"
    using assms(2) Answered
    by (auto simp: proxy_begin_def Let_def case_prod_unfold split: if_splits sum.splits option.splits)
  then have "broker_grows (gw_broker g) (gw_broker g')"
  proof (elim disjE exE)
    fix c t assume "proxy_open wok c t g r w = (Answered res, g')"
    then obtain ref b where o: "br_OpenStream (gw_broker g) c (tun_ID t) = (ref, b)"
      and b: "gw_broker g' = br_CloseStream b c (nextStreamID (gw_broker g) + 1)"
      by (rule proxy_open_answered)
    show ?thesis unfolding b by (rule grows_open_close [OF assms(1) o])
  qed (simp add: broker_grows_refl assms(1))
  with Answered show ?thesis by simp
next
  case (Waiting c ref)
  with assms(2) have "proxy_begin uni wok px g r w = (Waiting c ref, g')" by simp
  then obtain t where "proxy_open wok c t g r w = (Waiting c ref, g')" by (rule proxy_begin_waiting)
  then obtain b g1 where o: "br_OpenStream (gw_broker g) c (tun_ID t) = (ref, b)"
    and g1: "gw_send wok c (EncodeFrame FrameOpenStream (bytes_of_string (json_print
          (enc_OpenStream (open_message (nextStreamID (gw_broker g) + 1) t r))))) (g\<lparr>gw_broker := b\<rparr>)
        = (True, g1)"
    and req: "proxy_send_request wok c ref (nextStreamID (gw_broker g) + 1) g1 r w = (Waiting c ref, g')"
    by (rule proxy_open_waiting)
  have "gw_broker g1 = b" using gw_send_state(2) [OF g1] by simp
  from req obtain body reqData g2 where "gw_send wok c (EncodeFrame FrameStreamData (bytes_of_string (json_print
          (enc_StreamData \<lparr>sd_StreamID = FormatUint (unat (nextStreamID (gw_broker g) + 1)), sd_Data = reqData\<rparr>)))) g1
      = (True, g2)" "g' = g2\<lparr>gw_metrics := AddBytesSent (length reqData) (gw_metrics g2)\<rparr>"
    by (rule proxy_send_request_waiting)
  then have "gw_broker g' = gw_broker g1" using gw_send_state(2) by simp
  with \<open>gw_broker g1 = b\<close> have "gw_broker g' = b" by simp
  with grows_Open [OF assms(1) o] Open_effect(8) [OF o] Waiting show ?thesis by simp
qed

lemma grows_proxy_finish:
  assumes "broker_inv (gw_broker g)" "proxy_finish order sc c ref g r w = (res, g')"
  shows "broker_grows (gw_broker g) (gw_broker g')"
proof -
  have "\<exists>i. gw_broker g' = br_CloseStream (gw_broker g) c i \<or>
      gw_broker g' = br_CloseStream (take_response ref (gw_broker g)) c i"
  proof (cases sc)
    case (GotResponse data)
    have "gw_broker (snd (proxy_finish order sc c ref g r w)) = br_CloseStream (take_response ref (gw_broker g)) c
        (case stream_heap (gw_broker g) ref of Some s \<Rightarrow> st_ID s | None \<Rightarrow> 0)"
      by (simp add: GotResponse proxy_finish_def Let_def proxy_respond_broker split: sum.split)
    with assms(2) show ?thesis by auto
  next
    case StreamDone
    have "gw_broker (snd (proxy_finish order sc c ref g r w)) = br_CloseStream (gw_broker g) c
        (case stream_heap (gw_broker g) ref of Some s \<Rightarrow> st_ID s | None \<Rightarrow> 0)"
      by (simp add: StreamDone proxy_finish_def)
    with assms(2) show ?thesis by auto
  next
    case TimedOut
    have "gw_broker (snd (proxy_finish order sc c ref g r w)) = br_CloseStream (gw_broker g) c
        (case stream_heap (gw_broker g) ref of Some s \<Rightarrow> st_ID s | None \<Rightarrow> 0)"
      by (simp add: TimedOut proxy_finish_def)
    with assms(2) show ?thesis by auto
  qed
  moreover note take = grows_take [OF assms(1), of ref]
  note broker_grows_trans [OF take grows_Close [OF broker_growsD(1) [OF take]]] grows_Close [OF assms(1)]
  ultimately show ?thesis by auto
qed

subsection \<open>What the admin API and the rate limiter may change\<close>

lemma admin_dispatch_tokens:
  assumes "token_inv (ae_mac env) (adm_tokenStore a)"
  shows "token_inv (ae_mac env) (adm_tokenStore (snd (admin_dispatch env h a r w)))"
proof -
  have create: "token_inv (ae_mac env) (adm_tokenStore (snd (handleCreateToken env a r w)))"
    using assms token_inv_CreateToken [OF assms]
    by (auto simp: handleCreateToken_def split: option.split prod.split sum.split) (metis snd_conv)+
  have gate: "snd (requireAdmin env k a r w) = a \<or> requireAdmin env k a r w = k a r w" for k
    using requireAdmin_pass [of env a r k w] requireAdmin_block [of env a r k w] by (metis admin_reply_snd)
  have "adm_tokenStore (snd (handleTunnels env a r w)) = adm_tokenStore a"
    "adm_tokenStore (snd (handleTunnelByID env a r w)) = adm_tokenStore a"
    by (simp_all add: handleTunnels_def handleTunnelByID_def Let_def split: prod.split option.split)
  with create gate [of "handleCreateToken env"] gate [of "handleTunnels env"] gate [of "handleTunnelByID env"]
    assms
  show ?thesis by (cases h) (auto simp: adm_handleHealth_def)
qed

lemma admin_Handler_tokens:
  "token_inv (ae_mac env) (adm_tokenStore a) \<Longrightarrow>
     token_inv (ae_mac env) (adm_tokenStore (snd (admin_Handler env a r w)))"
  using admin_dispatch_tokens [of env a _ r w]
  by (simp add: admin_Handler_def Let_def case_prod_unfold split: routed.split)

lemma server_handle_state:
  assumes "server_handle new_limiter lim_allow env s r w = (act, s')"
  shows "gw_broker (sv_gateway s') = gw_broker (sv_gateway s)" "gw_ws (sv_gateway s') = gw_ws (sv_gateway s)"
    and "sv_proxy s' = sv_proxy s"
    and "token_inv (ae_mac env) (sv_auth s) \<Longrightarrow> token_inv (ae_mac env) (sv_auth s')"
proof -
  define G where "G = rl_Middleware new_limiter lim_allow (ae_seen env) (ae_taken env) (sv_rateLimiter s) r w"
  let ?s = "s\<lparr>sv_rateLimiter := snd G\<rparr>" and ?g = "sv_gateway s"
  define a where "a = NewAdminAPI (sv_auth s) (gw_registry ?g) (gw_metrics ?g)"
  have "s' = ?s \<or> (\<exists>w'. s' = ?s\<lparr>sv_auth := adm_tokenStore (snd (admin_Handler env a r w')),
      sv_gateway := ?g\<lparr>gw_registry := adm_registry (snd (admin_Handler env a r w')),
        gw_metrics := adm_metrics (snd (admin_Handler env a r w'))\<rparr>\<rparr>)"
    using assms
    by (auto simp: server_handle_def Let_def case_prod_unfold G_def [symmetric] a_def [symmetric]
        split: sum.splits routed.splits server_route.splits)
  then show "gw_broker (sv_gateway s') = gw_broker (sv_gateway s)" "gw_ws (sv_gateway s') = gw_ws (sv_gateway s)"
    "sv_proxy s' = sv_proxy s" "token_inv (ae_mac env) (sv_auth s) \<Longrightarrow> token_inv (ae_mac env) (sv_auth s')"
    using admin_Handler_tokens [of env a r] by (auto simp: a_def NewAdminAPI_def)
qed

subsection \<open>Invariant\<close>

text \<open>
  The heaps are consistent, every token was issued here, every session points to a connection with
  its ID, and every waiting request to an allocated stream, with nothing written to the client yet.
\<close>

definition world_inv :: "mac \<Rightarrow> 'lim world \<Rightarrow> bool" where
  "world_inv mac W \<longleftrightarrow>
     broker_inv (wd_broker W) \<and> token_inv mac (sv_auth (wd_server W)) \<and>
     (\<forall>ss \<in> set (wd_sessions W). conn_id (wd_broker W) (ss_conn ss) = Some (ss_connID ss)) \<and>
     (\<forall>q \<in> set (wd_waiting W). stream_id (wd_broker W) (wt_stream q) \<noteq> None \<and> w_status (wt_writer q) = None)"

lemma world_inv_next:
  assumes "world_inv mac W" "broker_grows (wd_broker W) (wd_broker W')" "token_inv mac (sv_auth (wd_server W'))"
    and "\<And>ss. ss \<in> set (wd_sessions W') \<Longrightarrow>
      ss \<in> set (wd_sessions W) \<or> conn_id (wd_broker W') (ss_conn ss) = Some (ss_connID ss)"
    and "\<And>q. q \<in> set (wd_waiting W') \<Longrightarrow> q \<in> set (wd_waiting W) \<or>
      stream_id (wd_broker W') (wt_stream q) \<noteq> None \<and> w_status (wt_writer q) = None"
  shows "world_inv mac W'"
  unfolding world_inv_def
proof (intro conjI ballI)
  show "broker_inv (wd_broker W')" using assms(2) by (rule broker_growsD(1))
  show "token_inv mac (sv_auth (wd_server W'))" by (rule assms(3))
  fix ss assume "ss \<in> set (wd_sessions W')"
  from assms(4) [OF this] show "conn_id (wd_broker W') (ss_conn ss) = Some (ss_connID ss)"
    using assms(1) broker_growsD(2) [OF assms(2)] unfolding world_inv_def by (elim disjE) simp_all
next
  fix q assume q: "q \<in> set (wd_waiting W')"
  show "stream_id (wd_broker W') (wt_stream q) \<noteq> None"
    using assms(5) [OF q] assms(1) broker_growsD(3) [OF assms(2)] unfolding world_inv_def by (elim disjE) simp_all
  show "w_status (wt_writer q) = None"
    using assms(5) [OF q] assms(1) unfolding world_inv_def by (elim disjE) simp_all
qed

lemma set_remove1_sub: "x \<in> set (remove1 y xs) \<Longrightarrow> x \<in> set xs"
  using set_remove1_subset by fast

lemma w_status_new [simp]: "w_status new_response = None"
  by (simp add: new_response_def)

lemma world_invD:
  assumes "world_inv mac W"
  shows "broker_inv (wd_broker W)" "token_inv mac (sv_auth (wd_server W))"
  using assms unfolding world_inv_def by simp_all

text \<open>After the rate limiter and the routes, and after a step of the gateway that only changes its state.\<close>

lemma world_inv_handle:
  assumes "world_inv mac W" "ae_mac env = mac"
    and "server_handle new_limiter lim_allow env (wd_server W) r new_response = (act, s')"
  shows "world_inv mac (W\<lparr>wd_server := s'\<rparr>)"
proof (rule world_inv_next [OF assms(1)])
  note st = server_handle_state [OF assms(3)]
  show "broker_grows (wd_broker W) (wd_broker (W\<lparr>wd_server := s'\<rparr>))"
    using world_invD(1) [OF assms(1)] by (simp add: st(1) broker_grows_refl)
  show "token_inv mac (sv_auth (wd_server (W\<lparr>wd_server := s'\<rparr>)))"
    using world_invD(2) [OF assms(1)] st(4) unfolding assms(2) by simp
qed simp_all

lemma world_inv_set_gateway:
  assumes "world_inv mac W" "broker_grows (wd_broker W) (gw_broker g)"
  shows "world_inv mac (set_gateway g W)"
  using world_invD(2) [OF assms(1)] assms(2) by (intro world_inv_next [OF assms(1)]) simp_all

text \<open>A new session and a new waiting request.\<close>

lemma world_inv_session:
  assumes "world_inv mac W" "broker_grows (wd_broker W) (gw_broker g)"
    and "conn_id (gw_broker g) (ss_conn ss) = Some (ss_connID ss)"
  shows "world_inv mac (set_gateway g (W\<lparr>wd_sessions := ss # wd_sessions W\<rparr>))"
proof (rule world_inv_next [OF assms(1)])
  fix x assume "x \<in> set (wd_sessions (set_gateway g (W\<lparr>wd_sessions := ss # wd_sessions W\<rparr>)))"
  then have "x = ss \<or> x \<in> set (wd_sessions W)" by simp
  with assms(3) show "x \<in> set (wd_sessions W) \<or> conn_id (wd_broker (set_gateway g
      (W\<lparr>wd_sessions := ss # wd_sessions W\<rparr>))) (ss_conn x) = Some (ss_connID x)" by (elim disjE) simp_all
qed (use assms(2) world_invD(2) [OF assms(1)] in simp_all)

lemma world_inv_waiter:
  assumes "world_inv mac W" "broker_grows (wd_broker W) (gw_broker g)"
    and "stream_id (gw_broker g) (wt_stream q) \<noteq> None" "w_status (wt_writer q) = None"
  shows "world_inv mac (set_gateway g (W\<lparr>wd_waiting := q # wd_waiting W\<rparr>))"
proof (rule world_inv_next [OF assms(1)])
  fix x assume "x \<in> set (wd_waiting (set_gateway g (W\<lparr>wd_waiting := q # wd_waiting W\<rparr>)))"
  then have "x = q \<or> x \<in> set (wd_waiting W)" by simp
  with assms(3,4) show "x \<in> set (wd_waiting W) \<or> stream_id (wd_broker (set_gateway g
      (W\<lparr>wd_waiting := q # wd_waiting W\<rparr>))) (wt_stream x) \<noteq> None \<and> w_status (wt_writer x) = None"
    by (elim disjE) simp_all
qed (use assms(2) world_invD(2) [OF assms(1)] in simp_all)

lemma world_inv_step:
  assumes "gateway_step uni mac new_limiter lim_allow W W'" "world_inv mac W"
  shows "world_inv mac W'"
  using assms
proof (induction rule: gateway_step.induct)
  case (step_http env W r act s')
  from step_http(5,1,2) show ?case by (rule world_inv_handle)
next
  case (step_refuse env W r s' wok clock order ws raw g')
  note inv = world_inv_handle [OF step_refuse(4,1,2)]
  from grows_connect [OF _ step_refuse(3)] world_invD(1) [OF inv] show ?case
    by (intro world_inv_set_gateway [OF inv]) simp
next
  case (step_connect env W r s' wok clock order ws raw ss g')
  note inv = world_inv_handle [OF step_connect(4,1,2)]
  from grows_connect [OF _ step_connect(3)] world_invD(1) [OF inv]
  have grows: "broker_grows (gw_broker (sv_gateway s')) (gw_broker g')"
    and ss: "conn_id (gw_broker g') (ss_conn ss) = Some (ss_connID ss)" by simp_all
  from inv grows ss show ?case using world_inv_session [of mac "W\<lparr>wd_server := s'\<rparr>" g' ss] by simp
next
  case (step_read ss W clock d raw g')
  from grows_read [OF _ step_read(2)] world_invD(1) [OF step_read(3)] show ?case
    by (intro world_inv_set_gateway [OF step_read(3)]) simp
next
  case (step_disconnect ss W order)
  have "broker_grows (wd_broker W) (gw_broker (server_disconnect order ss (wd_gateway W)))"
    unfolding server_disconnect_def using world_invD(1) [OF step_disconnect(2)] by (rule grows_cleanup)
  then show ?case
    using world_invD(2) [OF step_disconnect(2)] set_remove1_sub [of _ ss "wd_sessions W"]
    by (intro world_inv_next [OF step_disconnect(2)] disjI1) simp_all
next
  case (step_answer env W r s' wok res g')
  note inv = world_inv_handle [OF step_answer(4,1,2)]
  from grows_proxy_begin [OF _ step_answer(3)] world_invD(1) [OF inv] show ?case
    by (intro world_inv_set_gateway [OF inv]) simp
next
  case (step_wait env W r s' wok c ref g')
  note inv = world_inv_handle [OF step_wait(4,1,2)]
  let ?q = "\<lparr>wt_conn = c, wt_stream = ref, wt_request = r, wt_writer = new_response\<rparr>"
  from grows_proxy_begin [OF _ step_wait(3)] world_invD(1) [OF inv]
  have grows: "broker_grows (gw_broker (sv_gateway s')) (gw_broker g')" and ref: "stream_id (gw_broker g') ref \<noteq> None"
    by simp_all
  from inv grows ref show ?case using world_inv_waiter [of mac "W\<lparr>wd_server := s'\<rparr>" g' ?q] by simp
next
  case (step_finish q W sc order res g')
  from grows_proxy_finish [OF _ step_finish(3)] world_invD [OF step_finish(4)] show ?case
    using set_remove1_sub [of _ q "wd_waiting W"]
    by (intro world_inv_next [OF step_finish(4)] disjI1) simp_all
next
  case (step_cleanup s' W order now)
  from world_invD [OF step_cleanup(2)] show ?case
    by (intro world_inv_next [OF step_cleanup(2)]) (simp_all add: step_cleanup(1) broker_grows_refl)
qed

lemma NewServer_fields:
  assumes "NewServer uni open_file cfg = Inr s"
  shows "gw_broker (sv_gateway s) = NewBroker"
    and "sv_auth s = NewMemoryTokenStore (auth_TokenSigningKey (cfg_Auth cfg))"
    and "tunnels (gw_registry (sv_gateway s)) = Map.empty"
    and "subdomainIndex (gw_registry (sv_gateway s)) = Map.empty"
  using assms by (auto simp: NewServer_def Let_def NewMemoryRegistry_def split: sum.splits)

lemma world_inv_start:
  "NewServer uni open_file cfg = Inr s \<Longrightarrow> world_inv mac (start_world s)"
  by (simp add: world_inv_def start_world_def NewServer_fields broker_inv_New token_inv_New)

interpretation worlds: step_invariant "gateway_step uni mac new_limiter lim_allow" "world_inv mac"
  for uni mac and new_limiter :: "int \<Rightarrow> int \<Rightarrow> 'lim" and lim_allow
  by unfold_locales (rule world_inv_step)

subsection \<open>A gateway without tokens\<close>

definition locked :: "mac \<Rightarrow> 'lim world \<Rightarrow> bool" where
  "locked mac W \<longleftrightarrow>
     world_inv mac W \<and> tokens (sv_auth (wd_server W)) = Map.empty \<and> wd_sessions W = [] \<and> wd_waiting W = [] \<and>
     tunnels (gw_registry (wd_gateway W)) = Map.empty \<and> subdomainIndex (gw_registry (wd_gateway W)) = Map.empty"

lemma admin_Handler_locked:
  assumes "token_inv (ae_mac env) (adm_tokenStore a)" "tokens (adm_tokenStore a) = Map.empty"
  shows "snd (admin_Handler env a r w) = a"
proof -
  have "\<not> admin_authorized env a r"
    using mts.empty_rejects [OF assms] by (simp add: admin_authorized_def)
  then have "snd (requireAdmin env h a r w) = a" for h using requireAdmin_block [of env a r h w] by auto
  then have "snd (admin_dispatch env h a r w) = a" for h
    by (cases h) (simp_all add: adm_handleHealth_def)
  then show ?thesis by (simp add: admin_Handler_def Let_def case_prod_unfold split: routed.split)
qed

lemma server_handle_locked:
  assumes "server_handle new_limiter lim_allow env s r w = (act, s')"
    and "token_inv (ae_mac env) (sv_auth s)" "tokens (sv_auth s) = Map.empty"
  shows "sv_auth s' = sv_auth s \<and> gw_registry (sv_gateway s') = gw_registry (sv_gateway s)"
proof -
  let ?a = "NewAdminAPI (sv_auth s) (gw_registry (sv_gateway s)) (gw_metrics (sv_gateway s))"
  have "snd (admin_Handler env ?a r w') = ?a" for w'
    by (rule admin_Handler_locked) (use assms(2,3) in \<open>simp_all add: NewAdminAPI_def\<close>)
  with assms(1) show ?thesis
    by (auto simp: server_handle_def Let_def case_prod_unfold NewAdminAPI_def
        split: sum.splits routed.splits server_route.splits)
qed

lemma connect_begin_locked:
  assumes "connect_begin wok mac clock order auth ws raw g = (res, g')"
    and "token_inv mac auth" "tokens auth = Map.empty"
  shows "res = Rejected \<and> gw_registry g' = gw_registry g"
  using assms(1)
proof (cases rule: connect_begin_cases)
  case (registered msg reg token)
  with mts.empty_rejects [OF assms(2,3)] show ?thesis by simp
qed simp

lemma proxy_begin_locked:
  assumes "proxy_begin uni wok px g r w = (ph, g')" "subdomainIndex (gw_registry g) = Map.empty"
  shows "(\<exists>res. ph = Answered res) \<and> gw_registry g' = gw_registry g"
proof -
  have "mr_GetBySubdomain (gw_registry g) sub = Inl ErrTunnelNotFound" for sub
    by (simp add: mr_GetBySubdomain_def assms(2))
  with assms(1) show ?thesis by (auto simp: proxy_begin_def Let_def case_prod_unfold split: if_splits)
qed

lemma lockedI:
  assumes "locked mac W" "world_inv mac W'" "wd_sessions W' = wd_sessions W" "wd_waiting W' = wd_waiting W"
    and "sv_auth (wd_server W') = sv_auth (wd_server W)"
    and "gw_registry (wd_gateway W') = gw_registry (wd_gateway W)"
  shows "locked mac W'"
  using assms by (simp add: locked_def)

lemma locked_step:
  assumes "gateway_step uni mac new_limiter lim_allow W W'" "locked mac W"
  shows "locked mac W'"
proof -
  have inv: "world_inv mac W'"
    using assms(2) by (intro world_inv_step [OF assms(1)]) (simp add: locked_def)
  have empty: "wd_sessions W = []" "wd_waiting W = []" "tokens (sv_auth (wd_server W)) = Map.empty"
    "token_inv mac (sv_auth (wd_server W))" "subdomainIndex (gw_registry (wd_gateway W)) = Map.empty"
    using assms(2) by (simp_all add: locked_def world_inv_def)
  note keep = lockedI [OF assms(2) inv]
  from assms(1) show ?thesis
  proof (cases rule: gateway_step.cases)
    case (step_http env r act s')
    from server_handle_locked [OF step_http(3)] empty(3,4) step_http(2) show ?thesis
      by (intro keep) (simp_all add: step_http(1))
  next
    case (step_refuse env r s' wok clock order ws raw g')
    have st: "sv_auth s' = sv_auth (wd_server W) \<and> gw_registry (sv_gateway s') = gw_registry (wd_gateway W)"
      using server_handle_locked [OF step_refuse(3)] empty(3,4) step_refuse(2) by simp
    with connect_begin_locked [OF step_refuse(4)] empty(3,4) show ?thesis
      by (intro keep) (simp_all add: step_refuse(1))
  next
    case (step_connect env r s' wok clock order ws raw ss g')
    have st: "sv_auth s' = sv_auth (wd_server W)"
      using server_handle_locked [OF step_connect(3)] empty(3,4) step_connect(2) by simp
    with connect_begin_locked [OF step_connect(4)] empty(3,4) show ?thesis by simp
  next
    case (step_answer env r s' wok res g')
    have st: "sv_auth s' = sv_auth (wd_server W) \<and> gw_registry (sv_gateway s') = gw_registry (wd_gateway W)"
      using server_handle_locked [OF step_answer(3)] empty(3,4) step_answer(2) by simp
    with proxy_begin_locked [OF step_answer(4)] empty(5) show ?thesis
      by (intro keep) (simp_all add: step_answer(1))
  next
    case (step_wait env r s' wok c ref g')
    have st: "gw_registry (sv_gateway s') = gw_registry (wd_gateway W)"
      using server_handle_locked [OF step_wait(3)] empty(3,4) step_wait(2) by simp
    with proxy_begin_locked [OF step_wait(4)] empty(5) show ?thesis by simp
  next
    case (step_cleanup s' order now)
    show ?thesis by (intro keep) (simp_all add: step_cleanup)
  qed (use empty in simp_all)
qed

interpretation locked_worlds: step_invariant "gateway_step uni mac new_limiter lim_allow" "locked mac"
  for uni mac and new_limiter :: "int \<Rightarrow> int \<Rightarrow> 'lim" and lim_allow
  by unfold_locales (rule locked_step)

lemma locked_start: "NewServer uni open_file cfg = Inr s \<Longrightarrow> locked mac (start_world s)"
  using world_inv_start [of uni open_file cfg s mac]
  by (simp add: locked_def start_world_def NewServer_fields NewMemoryTokenStore_def)

subsection \<open>Properties\<close>

text \<open>C32. The gateway starts without a token, tokens are only created through the admin API, and the admin
  API asks for a token: however a gateway that has just started runs, it holds no token, accepts no
  client and no tunnel, and authorizes no admin request.\<close>

theorem fresh_gateway_accepts_nobody:
  assumes "NewServer uni open_file cfg = Inr s"
    and "gateway_reachable uni mac new_limiter lim_allow (start_world s) W" "ae_mac env = mac"
  shows "tokens (sv_auth (wd_server W)) = Map.empty \<and> wd_sessions W = [] \<and>
    tunnels (gw_registry (wd_gateway W)) = Map.empty \<and>
    \<not> admin_authorized env (NewAdminAPI (sv_auth (wd_server W)) (gw_registry (wd_gateway W))
        (gw_metrics (wd_gateway W))) r"
proof -
  have "locked mac W" using assms(2) locked_start [OF assms(1)]
    unfolding gateway_reachable_def by (rule locked_worlds.inv_steps)
  then have "token_inv (ae_mac env) (sv_auth (wd_server W))" "tokens (sv_auth (wd_server W)) = Map.empty"
    "wd_sessions W = []" "tunnels (gw_registry (wd_gateway W)) = Map.empty"
    unfolding assms(3) by (simp_all add: locked_def world_inv_def)
  with mts.empty_rejects [OF this(1,2)] show ?thesis by (simp add: admin_authorized_def NewAdminAPI_def)
qed

lemma ex_NewServer: "\<exists>s. NewServer id (\<lambda>_. True) defaults = Inr (s :: token_bucket Server)"
proof -
  have "map lower_byte ''info'' = ''info''" "map lower_byte ''json'' = ''json''" by code_simp+
  then show ?thesis
    by (simp add: NewServer_def defaults_def logging_New_def parseLevel_def ToLower_def is_ascii_def Let_def)
qed

theorem fresh_gateway_accepts_nobody_witness:
  "\<exists>s :: token_bucket Server. NewServer id (\<lambda>_. True) defaults = Inr s \<and>
     \<not> admin_authorized ex_env (NewAdminAPI (sv_auth s) (gw_registry (sv_gateway s)) (gw_metrics (sv_gateway s)))
         (ex_auth_request ''POST'' ''/api/v1/tokens'' None)"
proof -
  obtain s :: "token_bucket Server" where s: "NewServer id (\<lambda>_. True) defaults = Inr s"
    using ex_NewServer by (elim exE)
  have "gateway_reachable id ex_mac ex_new ex_allow (start_world s) (start_world s)"
    by (simp add: gateway_reachable_def)
  from fresh_gateway_accepts_nobody [OF s this, of ex_env] s show ?thesis
    by (auto simp: start_world_def ex_env_def)
qed

text \<open>No request waits forever: in every state the gateway can reach, a request that waits for its
  tunnel client still has a stream to wait on, and when its timeout fires it is answered with 504 and
  stops waiting, whatever the client and the other handlers have done in the meantime.\<close>

theorem waiting_request_can_finish:
  assumes "world_inv mac W0" "gateway_reachable uni mac new_limiter lim_allow W0 W"
    and "q \<in> set (wd_waiting W)"
  shows "\<exists>w' g' W'. select_ready (wd_broker W) (wt_stream q) TimedOut \<and>
    proxy_finish [] TimedOut (wt_conn q) (wt_stream q) (wd_gateway W) (wt_request q) (wt_writer q) = (Returned w', g')
    \<and> w_status w' = Some 504 \<and> gateway_step uni mac new_limiter lim_allow W W' \<and> wd_gateway W' = g'
    \<and> wd_waiting W' = remove1 q (wd_waiting W)"
proof -
  have "world_inv mac W" using assms(2,1) unfolding gateway_reachable_def by (rule worlds.inv_steps)
  with assms(3) have q: "stream_id (wd_broker W) (wt_stream q) \<noteq> None" "w_status (wt_writer q) = None"
    unfolding world_inv_def by simp_all
  then have ready: "select_ready (wd_broker W) (wt_stream q) TimedOut"
    by (auto simp: select_ready_def stream_id_def split: option.split)
  obtain w' g' where fin: "proxy_finish [] TimedOut (wt_conn q) (wt_stream q) (wd_gateway W) (wt_request q)
      (wt_writer q) = (Returned w', g')" "w_status w' = Some 504"
    using proxy_abort_returns [OF q(2), of 504 "wt_conn q" "case stream_heap (wd_broker W) (wt_stream q) of
        Some s \<Rightarrow> st_ID s | None \<Rightarrow> 0" "''504 Gateway Timeout''" "''504''" "wt_request q" "wd_gateway W"]
    by (auto simp: proxy_finish_def)
  let ?W = "set_gateway g' (W\<lparr>wd_waiting := remove1 q (wd_waiting W)\<rparr>)"
  have "gateway_step uni mac new_limiter lim_allow W ?W" using assms(3) ready fin(1) by (rule gateway_step.step_finish)
  moreover have "wd_gateway ?W = g'" "wd_waiting ?W = remove1 q (wd_waiting W)" by simp_all
  ultimately show ?thesis using ready fin by blast
qed

text \<open>The stream of the example broker, with a request that waits on it.\<close>

definition ex_waiter :: waiter where
  "ex_waiter = \<lparr>wt_conn = 0, wt_stream = 0, wt_request = ex_http, wt_writer = new_response\<rparr>"

definition ex_world :: "token_bucket world" where
  "ex_world =
     \<lparr>wd_server = \<lparr>sv_cfg = defaults, sv_gateway = ex_gateway, sv_proxy = ex_proxy, sv_auth = ex_store,
        sv_logger = \<lparr>lg_level = LevelInfo, lg_format = JSONHandler, lg_file = [], lg_attrs = []\<rparr>,
        sv_rateLimiter = NewRateLimiter 60\<rparr>,
      wd_sessions = [ex_session], wd_waiting = [ex_waiter]\<rparr>"

lemma ex_world_inv: "world_inv ex_mac ex_world"
proof -
  have "conn_id ex_broker 0 = Some ''c1''" "stream_id ex_broker 0 = Some 1"
    by (simp_all add: ex_broker_def broker_eval conn_id_def stream_id_def)
  with ex_broker_inv ex_store_inv show ?thesis
    by (simp add: world_inv_def ex_world_def ex_gateway_def ex_session_def ex_waiter_def)
qed

theorem waiting_request_can_finish_witness:
  "\<exists>W'. gateway_step id ex_mac ex_new ex_allow ex_world W' \<and> wd_waiting W' = []"
proof -
  have "gateway_reachable id ex_mac ex_new ex_allow ex_world ex_world" by (simp add: gateway_reachable_def)
  moreover have "ex_waiter \<in> set (wd_waiting ex_world)" "remove1 ex_waiter (wd_waiting ex_world) = []"
    by (simp_all add: ex_world_def)
  ultimately show ?thesis using waiting_request_can_finish [OF ex_world_inv, of id ex_new ex_allow ex_world ex_waiter]
    by auto
qed

text \<open>The references the handlers hold stay valid: whatever steps the gateway takes, the connection of
  every running session is allocated and has the session's ID, every waiting request has an allocated
  stream and nothing written yet, every connection the broker finds by its ID has that ID, every stream
  a connection lists carries the ID it is listed under, and every string that validates was issued.\<close>

theorem gateway_references_valid:
  assumes "world_inv mac W0" "gateway_reachable uni mac new_limiter lim_allow W0 W"
  shows "(ss \<in> set (wd_sessions W) \<longrightarrow> conn_id (wd_broker W) (ss_conn ss) = Some (ss_connID ss))
    \<and> (q \<in> set (wd_waiting W) \<longrightarrow> stream_id (wd_broker W) (wt_stream q) \<noteq> None \<and> w_status (wt_writer q) = None)
    \<and> (br_GetConnection (wd_broker W) cid = Some c \<longrightarrow> conn_id (wd_broker W) c = Some cid)
    \<and> (open_on (wd_broker W) c i = Some ref \<longrightarrow> stream_id (wd_broker W) ref = Some i)
    \<and> (ts_ValidateToken mac now (sv_auth (wd_server W)) str = Inr tok \<longrightarrow>
         tokens (sv_auth (wd_server W)) str = Some tok)"
proof -
  have inv: "world_inv mac W" using assms(2,1) unfolding gateway_reachable_def by (rule worlds.inv_steps)
  note refs = broker_invD [OF world_invD(1) [OF inv]]
  show ?thesis
  proof (intro conjI impI)
    show "tokens (sv_auth (wd_server W)) str = Some tok"
      if "ts_ValidateToken mac now (sv_auth (wd_server W)) str = Inr tok"
      using that mts.validate_iff [OF world_invD(2) [OF inv]] by simp
    show "conn_id (wd_broker W) c = Some cid" if "br_GetConnection (wd_broker W) cid = Some c"
      using that by (intro refs(3)) (simp add: br_GetConnection_def)
  qed (use inv refs(4) in \<open>simp_all add: world_inv_def\<close>)
qed

text \<open>The session of the example ends while its request waits: the stream of the request is still there.\<close>

theorem gateway_references_valid_witness:
  "\<exists>W. gateway_reachable id ex_mac ex_new ex_allow ex_world W \<and> wd_sessions W = [] \<and>
     wd_waiting W = [ex_waiter] \<and> stream_id (wd_broker W) (wt_stream ex_waiter) \<noteq> None"
proof -
  let ?W = "set_gateway (server_disconnect [1] ex_session (wd_gateway ex_world))
    (ex_world\<lparr>wd_sessions := remove1 ex_session (wd_sessions ex_world)\<rparr>)"
  have "gateway_step id ex_mac ex_new ex_allow ex_world ?W"
    by (rule gateway_step.step_disconnect) (simp add: ex_world_def)
  then have r: "gateway_reachable id ex_mac ex_new ex_allow ex_world ?W" by (simp add: gateway_reachable_def)
  moreover have w: "wd_sessions ?W = []" "wd_waiting ?W = [ex_waiter]" by (simp_all add: ex_world_def)
  moreover have "stream_id (wd_broker ?W) (wt_stream ex_waiter) \<noteq> None"
    using gateway_references_valid [OF ex_world_inv r, of ex_session ex_waiter] w(2) by simp
  ultimately show ?thesis by blast
qed

end
