(* ===== verification/Gateway_Threads.thy ===== *)
theory Gateway_Threads
  imports Gateway_System "HOL-Library.Multiset"
begin

text \<open>
  The gateway's goroutines at the granularity of the code's critical sections. In \<open>Gateway_System\<close> a
  step runs a handler from one wait to the next; here a step is a single call of a component: each of
  the methods of the registry, the broker and the token store takes its mutex once, and a frame is
  written on a WebSocket in one call. Between two such calls any other goroutine may run.

  A \<open>thread\<close> is a goroutine at one of its program points, with its local variables; \<open>advance\<close> is the next
  action of a thread, for given inputs from outside (the next message, the clock, the outcome of a
  write, the case a \<open>select\<close> takes); \<open>None\<close> says that the thread is blocked with these inputs. The
  gateway is a multiset of threads beside the shared state, and \<open>pool_step\<close> lets any of them act.

  What is merged into the neighbouring action: updates of a Prometheus metric, which commute with
  everything else, the increment of the stream counter with the insertion of the stream it numbers, which
  no other thread can see before the insertion, the token check of the admin API with the operation
  it guards, since the gateway never takes a token back, and the two parts of the rate limiter's \<open>Allow\<close>,
  which touch nothing but the limiter and whose interleaving is the subject of \<open>Ratelimit\<close>.
\<close>

subsection \<open>Threads\<close>

text \<open>
  \<open>handleConnect\<close> and \<open>readLoop\<close>: \<open>ConnAuth\<close> waits for the first message, \<open>ConnLoop\<close> is the loop over
  \<open>reg.Tunnels\<close> (\<open>ConnMap\<close> after a successful \<open>Register\<close>), \<open>Reading\<close> waits for a message, \<open>Beating\<close> is the
  loop of \<open>handleHeartbeat\<close>, \<open>Delivering\<close> the \<open>select\<close> of \<open>deliverStreamData\<close>, and \<open>Cleaning\<close>, \<open>Unmapping\<close> and
  \<open>Unregistering\<close> are \<open>cleanupConnection\<close>. The other threads are \<open>Proxy.ServeHTTP\<close>; \<open>ProxyWait\<close> is its
  \<open>select\<close>, \<open>ProxyClose\<close> its deferred \<open>CloseStream\<close>.
\<close>

datatype thread =
  ConnAuth ws_id
| ConnReply ws_id "32 word" string
| ConnAdd ws_id Register Token
| ConnLoop session string "TunnelConfig list"
| ConnMap session string TunnelConfig "TunnelConfig list"
| ConnRefuse session registry_error
| ConnWelcome session
| Reading session
| Beating session "string list"
| Delivering session stream_ref bytes
| Cleaning session "string list"
| Unmapping session string string "string list"
| Unregistering session string "string list"
| ProxyLookup Request ResponseWriter
| ProxyFind string "Tunnel option" Request ResponseWriter
| ProxyOpen conn_ref Tunnel Request ResponseWriter
| ProxySendOpen conn_ref stream_ref "32 word" Tunnel Request ResponseWriter
| ProxySendData conn_ref stream_ref "32 word" Request ResponseWriter
| ProxyWait waiter
| ProxyClose conn_ref stream_ref "32 word" "ResponseWriter outcome"
| Replied "ResponseWriter outcome"

record input =
  in_wok :: write_ok
  in_clock :: "nat \<Rightarrow> go_time"
  in_order :: "32 word list"
  in_keys :: "string list"
  in_msg :: "bytes option"
  in_deliver :: deliver
  in_select :: select_case

subsection \<open>The actions of a connection\<close>

definition conn_auth :: "mac \<Rightarrow> MemoryTokenStore \<Rightarrow> input \<Rightarrow> ws_id \<Rightarrow> Gateway \<Rightarrow> thread option \<times> Gateway" where
  "conn_auth mac auth inp ws g =
     (case in_msg inp of
        None \<Rightarrow> (None, g)
      | Some msg \<Rightarrow>
          (case decode_msg msg of
             Inl e \<Rightarrow> (Some (ConnReply ws CodeInvalidRequest ''expected register frame''), g)
           | Inr (frameType, payload) \<Rightarrow>
               (if frameType \<noteq> FrameRegister then
                  (Some (ConnReply ws CodeInvalidRequest ''expected register frame''), g)
                else case DecodeControlMessage dec_Register payload zero_Register of
                    Inl e \<Rightarrow> (Some (ConnReply ws CodeInvalidRequest ''invalid register payload''), g)
                  | Inr reg \<Rightarrow>
                      (case ts_ValidateToken mac (in_clock inp 0) auth (reg_Token reg) of
                         Inl e \<Rightarrow>
                           (Some (ConnReply ws CodeUnauthorized (''authentication failed: '' @ auth_error_string e)),
                            g\<lparr>gw_metrics := IncTokenAuthFailures (gw_metrics g)\<rparr>)
                       | Inr token \<Rightarrow> (Some (ConnAdd ws reg token), g)))))"

definition conn_add :: "input \<Rightarrow> ws_id \<Rightarrow> Register \<Rightarrow> Token \<Rightarrow> Gateway \<Rightarrow> thread option \<times> Gateway" where
  "conn_add inp ws reg token g =
     (let connID = connection_id (in_clock inp) reg;
          (c, b) = br_AddConnection (gw_broker g) connID (tok_UserID token) ws
      in (Some (ConnLoop \<lparr>ss_ws = ws, ss_conn = c, ss_connID = connID, ss_tunnelIDs = []\<rparr> (tok_UserID token)
                  (reg_Tunnels reg)),
          g\<lparr>gw_broker := b\<rparr>))"

fun conn_loop :: "input \<Rightarrow> session \<Rightarrow> string \<Rightarrow> TunnelConfig list \<Rightarrow> Gateway \<Rightarrow> thread option \<times> Gateway" where
  "conn_loop inp ss userID [] g =
     (Some (ConnWelcome ss), g\<lparr>gw_broker := set_tunnels (ss_conn ss) (ss_tunnelIDs ss) (gw_broker g)\<rparr>)"
| "conn_loop inp ss userID (tc # tcs) g =
     (case mr_Register (gw_registry g) (new_tunnel (in_clock inp 0) (in_clock inp 1) (ss_connID ss) userID tc) of
        (Some e, reg) \<Rightarrow> (Some (ConnRefuse ss e), g\<lparr>gw_registry := reg\<rparr>)
      | (None, reg) \<Rightarrow> (Some (ConnMap ss userID tc tcs), g\<lparr>gw_registry := reg\<rparr>))"

definition conn_map ::
  "session \<Rightarrow> string \<Rightarrow> TunnelConfig \<Rightarrow> TunnelConfig list \<Rightarrow> Gateway \<Rightarrow> thread option \<times> Gateway" where
  "conn_map ss userID tc tcs g =
     (Some (ConnLoop (ss\<lparr>ss_tunnelIDs := ss_tunnelIDs ss @ [ss_connID ss @ ''-'' @ tc_Subdomain tc]\<rparr>) userID tcs),
      g\<lparr>gw_broker := br_MapSubdomain (gw_broker g) (tc_Subdomain tc) (ss_connID ss),
        gw_metrics := IncActiveTunnels (gw_metrics g)\<rparr>)"

text \<open>One message of the read loop, up to its first critical section; \<open>None\<close> is a read error.\<close>

definition conn_read :: "input \<Rightarrow> session \<Rightarrow> Gateway \<Rightarrow> thread option \<times> Gateway" where
  "conn_read inp ss g =
     (case in_msg inp of
        None \<Rightarrow> (Some (Cleaning ss (ss_tunnelIDs ss)), g)
      | Some raw \<Rightarrow>
          (case decode_msg raw of
             Inl e \<Rightarrow> (Some (Reading ss), g)
           | Inr (frameType, payload) \<Rightarrow>
               (if frameType = FrameHeartbeat then (Some (Beating ss (ss_tunnelIDs ss)), g)
                else if frameType = FrameStreamData then
                  (case DecodeControlMessage dec_StreamData payload zero_StreamData of
                     Inl e \<Rightarrow> (Some (Reading ss), g)
                   | Inr sd \<Rightarrow>
                       (case ParseUint32 (sd_StreamID sd) of
                          None \<Rightarrow> (Some (Reading ss), g)
                        | Some streamID \<Rightarrow>
                            (case getStream (gw_broker g) (ss_conn ss) (word_of_nat streamID) of
                               None \<Rightarrow> (Some (Reading ss), g)
                             | Some ref \<Rightarrow> (Some (Delivering ss ref (sd_Data sd)), g))))
                else if frameType = FrameCloseStream then
                  (Some (Reading ss), handleCloseStream (ss_conn ss) payload g)
                else (Some (Reading ss), g))))"

fun conn_beat :: "input \<Rightarrow> session \<Rightarrow> string list \<Rightarrow> Gateway \<Rightarrow> thread option \<times> Gateway" where
  "conn_beat inp ss [] g = (Some (Reading ss), g)"
| "conn_beat inp ss (i # is) g =
     (Some (Beating ss is), g\<lparr>gw_registry := snd (mr_UpdateHeartbeat (in_clock inp 0) (gw_registry g) i)\<rparr>)"

definition conn_deliver ::
  "input \<Rightarrow> session \<Rightarrow> stream_ref \<Rightarrow> bytes \<Rightarrow> Gateway \<Rightarrow> (thread option \<times> Gateway) option" where
  "conn_deliver inp ss ref data g =
     (case stream_heap (gw_broker g) ref of
        None \<Rightarrow> None
      | Some s \<Rightarrow>
          (if \<not> deliver_ready s (in_deliver inp) then None
           else case in_deliver inp of
               Deliver \<Rightarrow> Some (Some (Reading ss), g\<lparr>gw_broker := put_response ref data (gw_broker g)\<rparr>)
             | Discard \<Rightarrow> Some (Some (Reading ss), g)))"

fun conn_clean :: "input \<Rightarrow> session \<Rightarrow> string list \<Rightarrow> Gateway \<Rightarrow> thread option \<times> Gateway" where
  "conn_clean inp ss [] g = (None, g\<lparr>gw_broker := br_RemoveConnection (in_order inp) (gw_broker g) (ss_connID ss)\<rparr>)"
| "conn_clean inp ss (i # is) g =
     (case mr_GetByID (gw_registry g) i of
        Inr t \<Rightarrow> (Some (Unmapping ss (tun_Subdomain t) i is), g)
      | Inl e \<Rightarrow> (Some (Unregistering ss i is), g))"

definition conn_unregister :: "session \<Rightarrow> string \<Rightarrow> string list \<Rightarrow> Gateway \<Rightarrow> thread option \<times> Gateway" where
  "conn_unregister ss i is g =
     (case mr_Unregister (gw_registry g) i of
        (None, reg) \<Rightarrow>
          (Some (Cleaning ss is), g\<lparr>gw_registry := reg, gw_metrics := DecActiveTunnels (gw_metrics g)\<rparr>)
      | (Some e, reg) \<Rightarrow> (Some (Cleaning ss is), g\<lparr>gw_registry := reg\<rparr>))"

subsection \<open>The actions of a request\<close>

definition proxy_lookup ::
  "(string \<Rightarrow> string) \<Rightarrow> Proxy \<Rightarrow> Request \<Rightarrow> ResponseWriter \<Rightarrow> Gateway \<Rightarrow> thread option \<times> Gateway" where
  "proxy_lookup uni px r w g =
     (let subdomain = extractSubdomain uni (r_Host r) (px_publicHostname px);
          fail = (\<lambda>msg. let (res, g') = proxy_fail msg 502 ''502'' r g w in (Some (Replied res), g'))
      in if subdomain = [] then fail ''502 Bad Gateway: unable to determine tunnel''
         else case mr_GetBySubdomain (gw_registry g) subdomain of
             Inl e \<Rightarrow> fail ''502 Bad Gateway: tunnel not found''
           | Inr tunnel \<Rightarrow> (Some (ProxyFind subdomain tunnel r w), g))"

definition proxy_find ::
  "string \<Rightarrow> Tunnel option \<Rightarrow> Request \<Rightarrow> ResponseWriter \<Rightarrow> Gateway \<Rightarrow> thread option \<times> Gateway" where
  "proxy_find subdomain tunnel r w g =
     (case br_GetConnectionBySubdomain (gw_broker g) subdomain of
        None \<Rightarrow>
          (let (res, g') = proxy_fail ''502 Bad Gateway: tunnel client not connected'' 502 ''502'' r g w
           in (Some (Replied res), g'))
      | Some c \<Rightarrow>
          (case tunnel of
             None \<Rightarrow> (Some (Replied (Panicked w)), g)
           | Some t \<Rightarrow> (Some (ProxyOpen c t r w), g)))"

definition proxy_open_stream ::
  "conn_ref \<Rightarrow> Tunnel \<Rightarrow> Request \<Rightarrow> ResponseWriter \<Rightarrow> Gateway \<Rightarrow> thread option \<times> Gateway" where
  "proxy_open_stream c t r w g =
     (let (ref, b) = br_OpenStream (gw_broker g) c (tun_ID t);
          sid = (case stream_heap b ref of Some s \<Rightarrow> st_ID s | None \<Rightarrow> 0)
      in (Some (ProxySendOpen c ref sid t r w), g\<lparr>gw_broker := b\<rparr>))"

text \<open>The early returns after \<open>OpenStream\<close>: the deferred \<open>CloseStream\<close> comes next.\<close>

definition proxy_give_up ::
  "conn_ref \<Rightarrow> stream_ref \<Rightarrow> 32 word \<Rightarrow> Request \<Rightarrow> ResponseWriter \<Rightarrow> Gateway \<Rightarrow> thread option \<times> Gateway" where
  "proxy_give_up c ref sid r w g =
     (let (res, g') = proxy_fail ''502 Bad Gateway'' 502 ''502'' r g w in (Some (ProxyClose c ref sid res), g'))"

definition proxy_send_open ::
  "write_ok \<Rightarrow> conn_ref \<Rightarrow> stream_ref \<Rightarrow> 32 word \<Rightarrow> Tunnel \<Rightarrow> Request \<Rightarrow> ResponseWriter \<Rightarrow> Gateway
     \<Rightarrow> thread option \<times> Gateway"
where
  "proxy_send_open wok c ref sid t r w g =
     (case EncodeControlMessage FrameOpenStream (enc_OpenStream (open_message sid t r)) of
        Inl e \<Rightarrow> proxy_give_up c ref sid r w g
      | Inr openFrame \<Rightarrow>
          (let (ok, g') = gw_send wok c openFrame g
           in if \<not> ok then proxy_give_up c ref sid r w g' else (Some (ProxySendData c ref sid r w), g')))"

definition proxy_send_data ::
  "write_ok \<Rightarrow> conn_ref \<Rightarrow> stream_ref \<Rightarrow> 32 word \<Rightarrow> Request \<Rightarrow> ResponseWriter \<Rightarrow> Gateway \<Rightarrow> thread option \<times> Gateway"
where
  "proxy_send_data wok c ref sid r w g =
     (case r_Body r of
        None \<Rightarrow> proxy_give_up c ref sid r w g
      | Some body \<Rightarrow>
          (case json_Marshal (enc_httpRequest (request_envelope r body)) of
             Inl e \<Rightarrow> proxy_give_up c ref sid r w g
           | Inr reqData \<Rightarrow>
               (case EncodeControlMessage FrameStreamData
                       (enc_StreamData \<lparr>sd_StreamID = FormatUint (unat sid), sd_Data = reqData\<rparr>) of
                  Inl e \<Rightarrow> proxy_give_up c ref sid r w g
                | Inr dataFrame \<Rightarrow>
                    (let (ok, g') = gw_send wok c dataFrame g
                     in if \<not> ok then proxy_give_up c ref sid r w g'
                        else (Some (ProxyWait \<lparr>wt_conn = c, wt_stream = ref, wt_request = r, wt_writer = w\<rparr>),
                              g'\<lparr>gw_metrics := AddBytesSent (length reqData) (gw_metrics g')\<rparr>)))))"

text \<open>From the case the \<open>select\<close> takes to the end of the handler, without the deferred \<open>CloseStream\<close>.\<close>

definition proxy_reply ::
  "string list \<Rightarrow> httpResponse \<Rightarrow> Gateway \<Rightarrow> Request \<Rightarrow> ResponseWriter \<Rightarrow> ResponseWriter outcome \<times> Gateway" where
  "proxy_reply order resp g r w0 =
     (let w = w0\<lparr>w_header := set_headers order (rs_Headers resp) (w_header w0)\<rparr>;
          statusCode = rs_StatusCode resp
      in if statusCode = 0 then proxy_fail ''502 Bad Gateway: invalid response status'' 502 ''502'' r g w
         else
           (case outcome_bind (WriteHeader statusCode w)
                   (\<lambda>w. if rs_Body resp \<noteq> [] then Write (rs_Body resp) w else Returned w) of
              Panicked w' \<Rightarrow> (Panicked w', g)
            | Returned w' \<Rightarrow>
                (Returned w', g\<lparr>gw_metrics := IncRequests (FormatInt statusCode) (r_Method r) (gw_metrics g)\<rparr>)))"

definition proxy_select ::
  "string list \<Rightarrow> select_case \<Rightarrow> stream_ref \<Rightarrow> Request \<Rightarrow> ResponseWriter \<Rightarrow> Gateway \<Rightarrow> ResponseWriter outcome \<times> Gateway"
where
  "proxy_select order sc ref r w g =
     (case sc of
        StreamDone \<Rightarrow> proxy_fail ''502 Bad Gateway: stream closed'' 502 ''502'' r g w
      | TimedOut \<Rightarrow> proxy_fail ''504 Gateway Timeout'' 504 ''504'' r g w
      | GotResponse respData \<Rightarrow>
          (let g' = g\<lparr>gw_broker := take_response ref (gw_broker g),
                      gw_metrics := AddBytesRecv (length respData) (gw_metrics g)\<rparr>
           in case json_Unmarshal_into dec_httpResponse respData zero_httpResponse of
                Inl e \<Rightarrow> proxy_fail ''502 Bad Gateway: invalid response'' 502 ''502'' r g' w
              | Inr resp \<Rightarrow> proxy_reply order resp g' r w))"

definition proxy_wait :: "input \<Rightarrow> waiter \<Rightarrow> Gateway \<Rightarrow> (thread option \<times> Gateway) option" where
  "proxy_wait inp q g =
     (if \<not> select_ready (gw_broker g) (wt_stream q) (in_select inp) then None
      else
        (let sid = (case stream_heap (gw_broker g) (wt_stream q) of Some s \<Rightarrow> st_ID s | None \<Rightarrow> 0);
             (res, g') = proxy_select (in_keys inp) (in_select inp) (wt_stream q) (wt_request q) (wt_writer q) g
         in Some (Some (ProxyClose (wt_conn q) (wt_stream q) sid res), g')))"

subsection \<open>The threads together\<close>

fun advance ::
  "(string \<Rightarrow> string) \<Rightarrow> mac \<Rightarrow> MemoryTokenStore \<Rightarrow> Proxy \<Rightarrow> input \<Rightarrow> thread \<Rightarrow> Gateway \<Rightarrow> (thread option \<times> Gateway) option"
where
  "advance uni mac auth px inp (ConnAuth ws) g = Some (conn_auth mac auth inp ws g)"
| "advance uni mac auth px inp (ConnReply ws code msg) g =
     Some (None, sendControlResponse (in_wok inp) ws code msg g)"
| "advance uni mac auth px inp (ConnAdd ws reg token) g = Some (conn_add inp ws reg token g)"
| "advance uni mac auth px inp (ConnLoop ss u tcs) g = Some (conn_loop inp ss u tcs g)"
| "advance uni mac auth px inp (ConnMap ss u tc tcs) g = Some (conn_map ss u tc tcs g)"
| "advance uni mac auth px inp (ConnRefuse ss e) g =
     Some (Some (Cleaning ss (ss_tunnelIDs ss)),
       sendControlResponse (in_wok inp) (ss_ws ss) CodeInvalidRequest
         (''register tunnel failed: '' @ registry_error_string e) g)"
| "advance uni mac auth px inp (ConnWelcome ss) g =
     Some (Some (Reading ss), sendControlResponse (in_wok inp) (ss_ws ss) CodeOK ''registered'' g)"
| "advance uni mac auth px inp (Reading ss) g = Some (conn_read inp ss g)"
| "advance uni mac auth px inp (Beating ss is) g = Some (conn_beat inp ss is g)"
| "advance uni mac auth px inp (Delivering ss ref data) g = conn_deliver inp ss ref data g"
| "advance uni mac auth px inp (Cleaning ss is) g = Some (conn_clean inp ss is g)"
| "advance uni mac auth px inp (Unmapping ss sub i is) g =
     Some (Some (Unregistering ss i is), g\<lparr>gw_broker := br_UnmapSubdomain (gw_broker g) sub\<rparr>)"
| "advance uni mac auth px inp (Unregistering ss i is) g = Some (conn_unregister ss i is g)"
| "advance uni mac auth px inp (ProxyLookup r w) g = Some (proxy_lookup uni px r w g)"
| "advance uni mac auth px inp (ProxyFind sub t r w) g = Some (proxy_find sub t r w g)"
| "advance uni mac auth px inp (ProxyOpen c t r w) g = Some (proxy_open_stream c t r w g)"
| "advance uni mac auth px inp (ProxySendOpen c ref sid t r w) g =
     Some (proxy_send_open (in_wok inp) c ref sid t r w g)"
| "advance uni mac auth px inp (ProxySendData c ref sid r w) g =
     Some (proxy_send_data (in_wok inp) c ref sid r w g)"
| "advance uni mac auth px inp (ProxyWait q) g = proxy_wait inp q g"
| "advance uni mac auth px inp (ProxyClose c ref sid res) g = Some (Some (Replied res), close_stream c sid g)"
| "advance uni mac auth px inp (Replied res) g = Some (None, g)"

record 'lim pool =
  pl_server :: "'lim Server"
  pl_threads :: "thread multiset"

abbreviation pl_gateway :: "'lim pool \<Rightarrow> Gateway" where
  "pl_gateway P \<equiv> sv_gateway (pl_server P)"

abbreviation pl_broker :: "'lim pool \<Rightarrow> Broker" where
  "pl_broker P \<equiv> gw_broker (pl_gateway P)"

fun threads_of :: "thread option \<Rightarrow> thread multiset" where
  "threads_of None = {#}"
| "threads_of (Some t) = {#t#}"

definition replace_thread :: "thread \<Rightarrow> thread option \<Rightarrow> Gateway \<Rightarrow> 'lim pool \<Rightarrow> 'lim pool" where
  "replace_thread t t' g P =
     P\<lparr>pl_server := (pl_server P)\<lparr>sv_gateway := g\<rparr>, pl_threads := pl_threads P - {#t#} + threads_of t'\<rparr>"

text \<open>
  The HTTP server starts a thread per request; the health check, the metrics and the admin API answer
  at once. \<open>handleConnect\<close> begins with the upgrade to a WebSocket connection, which a third-party package
  does; it returns when the upgrade fails.
\<close>

fun conn_upgrade :: "ws_id option \<Rightarrow> thread multiset" where
  "conn_upgrade None = {#}"
| "conn_upgrade (Some ws) = {#ConnAuth ws#}"

inductive pool_step ::
  "(string \<Rightarrow> string) \<Rightarrow> mac \<Rightarrow> (int \<Rightarrow> int \<Rightarrow> 'lim) \<Rightarrow> (go_time \<Rightarrow> 'lim \<Rightarrow> bool \<times> 'lim) \<Rightarrow> 'lim pool \<Rightarrow> 'lim pool \<Rightarrow> bool"
  for uni mac new_limiter lim_allow
where
  pool_http:
    "ae_mac env = mac \<Longrightarrow>
     server_handle new_limiter lim_allow env (pl_server P) r new_response = (act, s') \<Longrightarrow>
     act \<noteq> Continue ToConnect \<Longrightarrow> act \<noteq> Continue ToProxy \<Longrightarrow>
     pool_step uni mac new_limiter lim_allow P (P\<lparr>pl_server := s'\<rparr>)"
| pool_connect:
    "ae_mac env = mac \<Longrightarrow>
     server_handle new_limiter lim_allow env (pl_server P) r new_response = (Continue ToConnect, s') \<Longrightarrow>
     pool_step uni mac new_limiter lim_allow P
       (P\<lparr>pl_server := s', pl_threads := pl_threads P + conn_upgrade upgraded\<rparr>)"
| pool_proxy:
    "ae_mac env = mac \<Longrightarrow>
     server_handle new_limiter lim_allow env (pl_server P) r new_response = (Continue ToProxy, s') \<Longrightarrow>
     pool_step uni mac new_limiter lim_allow P
       (P\<lparr>pl_server := s', pl_threads := add_mset (ProxyLookup r new_response) (pl_threads P)\<rparr>)"
| pool_cleanup:
    "s' = (pl_server P)\<lparr>sv_rateLimiter := cleanup_tick order now (sv_rateLimiter (pl_server P))\<rparr> \<Longrightarrow>
     pool_step uni mac new_limiter lim_allow P (P\<lparr>pl_server := s'\<rparr>)"
| pool_thread:
    "t \<in># pl_threads P \<Longrightarrow>
     advance uni mac (sv_auth (pl_server P)) (sv_proxy (pl_server P)) inp t (pl_gateway P) = Some (t', g') \<Longrightarrow>
     pool_step uni mac new_limiter lim_allow P (replace_thread t t' g' P)"

definition pool_reachable ::
  "(string \<Rightarrow> string) \<Rightarrow> mac \<Rightarrow> (int \<Rightarrow> int \<Rightarrow> 'lim) \<Rightarrow> (go_time \<Rightarrow> 'lim \<Rightarrow> bool \<times> 'lim) \<Rightarrow> 'lim pool \<Rightarrow> 'lim pool \<Rightarrow> bool"
where
  "pool_reachable uni mac new_limiter lim_allow = (pool_step uni mac new_limiter lim_allow)\<^sup>*\<^sup>*"

subsection \<open>References stay valid\<close>

text \<open>
  \<open>owned b c ref\<close>: the stream is allocated, and no connection but \<open>c\<close> lists it. An operation that extends the
  broker keeps all references, and lists no old stream anew.
\<close>

definition owned :: "Broker \<Rightarrow> conn_ref \<Rightarrow> stream_ref \<Rightarrow> bool" where
  "owned b c ref \<longleftrightarrow> stream_id b ref \<noteq> None \<and> (\<forall>d i. open_on b d i = Some ref \<longrightarrow> d = c)"

definition broker_extends :: "Broker \<Rightarrow> Broker \<Rightarrow> bool" where
  "broker_extends b b' \<longleftrightarrow> broker_grows b b' \<and>
     (\<forall>c i r. open_on b' c i = Some r \<longrightarrow> stream_id b r \<noteq> None \<longrightarrow> open_on b c i = Some r)"

lemma broker_extendsI:
  assumes "broker_grows b b'"
    and "\<And>c i r. open_on b' c i = Some r \<Longrightarrow> stream_id b r \<noteq> None \<Longrightarrow> open_on b c i = Some r"
  shows "broker_extends b b'"
  using assms by (simp add: broker_extends_def)

lemma broker_extends_refl: "broker_inv b \<Longrightarrow> broker_extends b b"
  by (simp add: broker_extends_def broker_grows_refl)

lemma broker_extendsD:
  assumes "broker_extends b b'"
  shows "broker_inv b'" "conn_id b c = Some cid \<Longrightarrow> conn_id b' c = Some cid"
    and "owned b c ref \<Longrightarrow> owned b' c ref"
  using assms broker_growsD [of b b'] unfolding broker_extends_def owned_def by blast+

lemma extends_Add: "broker_inv b \<Longrightarrow> br_AddConnection b cid u ws = (c, b') \<Longrightarrow> broker_extends b b'"
  by (intro broker_extendsI grows_Add) (auto simp: Add_effect(8) split: if_splits)

lemma extends_Open:
  assumes "broker_inv b" "br_OpenStream b c t = (ref, b')"
  shows "broker_extends b b'"
proof (rule broker_extendsI)
  fix d i r assume "open_on b' d i = Some r" "stream_id b r \<noteq> None"
  with broker_invD(2) [OF assms(1), of ref] Open_effect(1) [OF assms(2)] show "open_on b d i = Some r"
    by (auto simp: Open_effect(9) [OF assms(2)] split: if_splits)
qed (rule grows_Open [OF assms])

lemma extends_Remove: "broker_inv b \<Longrightarrow> broker_extends b (br_RemoveConnection order b cid)"
  by (intro broker_extendsI grows_Remove) (simp_all add: Remove_effect)

lemma extends_Map: "broker_inv b \<Longrightarrow> broker_extends b (br_MapSubdomain b sub cid)"
  by (intro broker_extendsI) (simp_all add: broker_grows_def broker_inv_Map Map_effect)

lemma extends_Unmap: "broker_inv b \<Longrightarrow> broker_extends b (br_UnmapSubdomain b sub)"
  by (intro broker_extendsI) (simp_all add: broker_grows_def broker_inv_Unmap Unmap_effect)

lemma extends_Close: "broker_inv b \<Longrightarrow> broker_extends b (br_CloseStream b c i)"
  by (intro broker_extendsI grows_Close) (auto simp: Close_effect(8) split: if_splits)

lemma open_on_put [simp]: "open_on (put_response ref d b) = open_on b"
  by (simp add: put_response_def open_on_def fun_eq_iff)

lemma open_on_set_tunnels [simp]: "open_on (set_tunnels c ids b) = open_on b"
  by (auto simp: set_tunnels_def open_on_def fun_eq_iff split: option.split)

lemma extends_put: "broker_inv b \<Longrightarrow> broker_extends b (put_response ref d b)"
  by (intro broker_extendsI grows_put) simp_all

lemma extends_take: "broker_inv b \<Longrightarrow> broker_extends b (take_response ref b)"
  by (intro broker_extendsI grows_take) simp_all

lemma extends_set_tunnels: "broker_inv b \<Longrightarrow> broker_extends b (set_tunnels c ids b)"
  by (intro broker_extendsI grows_set_tunnels) simp_all

lemmas extends_intros =
  broker_extends_refl extends_Remove extends_Map extends_Unmap extends_Close extends_put extends_take extends_set_tunnels

text \<open>What a thread holds: its session, the stream of its request, and the response writer it has not used.\<close>

fun thread_session :: "thread \<Rightarrow> session option" where
  "thread_session (ConnLoop ss u tcs) = Some ss"
| "thread_session (ConnMap ss u tc tcs) = Some ss"
| "thread_session (ConnRefuse ss e) = Some ss"
| "thread_session (ConnWelcome ss) = Some ss"
| "thread_session (Reading ss) = Some ss"
| "thread_session (Beating ss is) = Some ss"
| "thread_session (Delivering ss ref data) = Some ss"
| "thread_session (Cleaning ss is) = Some ss"
| "thread_session (Unmapping ss sub i is) = Some ss"
| "thread_session (Unregistering ss i is) = Some ss"
| "thread_session t = None"

fun thread_stream :: "thread \<Rightarrow> (conn_ref \<times> stream_ref) option" where
  "thread_stream (ProxySendOpen c ref sid t r w) = Some (c, ref)"
| "thread_stream (ProxySendData c ref sid r w) = Some (c, ref)"
| "thread_stream (ProxyWait q) = Some (wt_conn q, wt_stream q)"
| "thread_stream (ProxyClose c ref sid res) = Some (c, ref)"
| "thread_stream t = None"

fun thread_target :: "thread \<Rightarrow> (conn_ref \<times> stream_ref) option" where
  "thread_target (Delivering ss ref data) = Some (ss_conn ss, ref)"
| "thread_target t = thread_stream t"

fun thread_writer :: "thread \<Rightarrow> ResponseWriter option" where
  "thread_writer (ProxyLookup r w) = Some w"
| "thread_writer (ProxyFind sub t r w) = Some w"
| "thread_writer (ProxyOpen c t r w) = Some w"
| "thread_writer (ProxySendOpen c ref sid t r w) = Some w"
| "thread_writer (ProxySendData c ref sid r w) = Some w"
| "thread_writer (ProxyWait q) = Some (wt_writer q)"
| "thread_writer t = None"

definition thread_ok :: "Broker \<Rightarrow> thread \<Rightarrow> bool" where
  "thread_ok b t \<longleftrightarrow>
     (case thread_session t of Some ss \<Rightarrow> conn_id b (ss_conn ss) = Some (ss_connID ss) | None \<Rightarrow> True) \<and>
     (case thread_target t of Some (c, ref) \<Rightarrow> owned b c ref | None \<Rightarrow> True) \<and>
     (case thread_writer t of Some w \<Rightarrow> w_status w = None | None \<Rightarrow> True)"

lemma thread_ok_extends:
  assumes "thread_ok b t" "broker_extends b b'"
  shows "thread_ok b' t"
  using assms broker_extendsD [OF assms(2)] by (auto simp: thread_ok_def split: option.splits)

text \<open>What an action of a thread may do: extend the broker, go on with what it held, or open a new stream.\<close>

definition action_ok :: "Broker \<Rightarrow> thread \<Rightarrow> thread option \<Rightarrow> Broker \<Rightarrow> bool" where
  "action_ok b t t' b' \<longleftrightarrow> broker_extends b b' \<and>
     (case t' of
        None \<Rightarrow> True
      | Some x \<Rightarrow> thread_ok b' x \<and>
          (thread_stream x = None \<or> thread_stream x = thread_stream t \<or> (\<exists>c. thread_stream x = Some (c, next_stream b))) \<and>
          (\<forall>c ref. thread_target x = Some (c, ref) \<longrightarrow>
             thread_target t = Some (c, ref) \<or> (\<forall>d. owned b d ref \<longrightarrow> d = c)))"

lemma thread_stream_target: "thread_stream t = Some p \<Longrightarrow> thread_target t = Some p"
  by (cases t) simp_all

text \<open>An action that goes on with the thread's own references, or finds a stream listed.\<close>

definition goes_on :: "Broker \<Rightarrow> thread \<Rightarrow> thread \<Rightarrow> bool" where
  "goes_on b t x \<longleftrightarrow>
     (thread_stream x = None \<or> thread_stream x = thread_stream t) \<and>
     (thread_target x = None \<or> thread_target x = thread_target t \<or>
      (\<exists>c i ref. thread_target x = Some (c, ref) \<and> open_on b c i = Some ref))"

lemma action_okI:
  assumes "broker_extends b b'" "\<And>x. t' = Some x \<Longrightarrow> thread_ok b x \<and> goes_on b t x"
  shows "action_ok b t t' b'"
proof (cases t')
  case (Some x)
  with assms(2) have x: "thread_ok b x" "goes_on b t x" by simp_all
  have "thread_target t = Some (c, ref) \<or> (\<forall>d. owned b d ref \<longrightarrow> d = c)" if "thread_target x = Some (c, ref)" for c ref
    using that x(2) by (auto simp: goes_on_def owned_def)
  with x assms(1) thread_ok_extends [OF x(1) assms(1)] show ?thesis
    by (auto simp: action_ok_def Some goes_on_def)
qed (simp add: action_ok_def assms(1))

lemma action_ok_end: "broker_extends b b' \<Longrightarrow> action_ok b t None b'"
  by (simp add: action_ok_def)

lemma thread_ok_conn:
  "thread_ok b (ConnAuth ws)" "thread_ok b (ConnReply ws code msg)" "thread_ok b (ConnAdd ws reg token)"
  "thread_ok b (Replied res)"
  by (simp_all add: thread_ok_def)

lemma action_conn_auth:
  "broker_inv (gw_broker g) \<Longrightarrow> conn_auth mac auth inp ws g = (t', g') \<Longrightarrow>
     action_ok (gw_broker g) t t' (gw_broker g')"
  by (auto simp: conn_auth_def thread_ok_conn goes_on_def split: option.splits sum.splits prod.splits if_splits
      intro!: action_okI broker_extends_refl)

lemma action_conn_add:
  assumes "broker_inv (gw_broker g)" "conn_add inp ws reg token g = (t', g')"
  shows "action_ok (gw_broker g) t t' (gw_broker g')"
proof -
  obtain c b where add: "br_AddConnection (gw_broker g) (connection_id (in_clock inp) reg) (tok_UserID token) ws = (c, b)"
    by (metis surj_pair)
  with assms(2) extends_Add [OF assms(1) add] Add_effect(5) [OF add] show ?thesis
    by (auto simp: conn_add_def Let_def action_ok_def thread_ok_def)
qed

lemma action_conn_loop:
  assumes "broker_inv (gw_broker g)" "thread_ok (gw_broker g) (ConnLoop ss u tcs)" "conn_loop inp ss u tcs g = (t', g')"
  shows "action_ok (gw_broker g) t t' (gw_broker g')"
  using assms(3,1,2)
  by (cases tcs) (auto simp: thread_ok_def goes_on_def split: prod.splits option.splits
      intro!: action_okI broker_extends_refl extends_set_tunnels)

lemma action_conn_map:
  assumes "broker_inv (gw_broker g)" "thread_ok (gw_broker g) (ConnMap ss u tc tcs)" "conn_map ss u tc tcs g = (t', g')"
  shows "action_ok (gw_broker g) t t' (gw_broker g')"
  using assms by (auto simp: conn_map_def thread_ok_def goes_on_def intro!: action_okI extends_Map)

lemma owned_listed: "broker_inv b \<Longrightarrow> open_on b c i = Some ref \<Longrightarrow> owned b c ref"
  using broker_invD(4,5) [of b] by (auto simp: owned_def)

lemma extends_handleCloseStream:
  "broker_inv (gw_broker g) \<Longrightarrow> broker_extends (gw_broker g) (gw_broker (handleCloseStream c payload g))"
  by (auto simp: handleCloseStream_def broker_extends_refl extends_Close split: sum.split option.split)

lemma thread_ok_reading:
  "thread_ok b (Reading ss) \<Longrightarrow> thread_ok b (Beating ss is) \<and> thread_ok b (Cleaning ss is)"
  by (simp add: thread_ok_def)

lemma thread_ok_delivering:
  "broker_inv b \<Longrightarrow> thread_ok b (Reading ss) \<Longrightarrow> getStream b (ss_conn ss) i = Some ref \<Longrightarrow>
     thread_ok b (Delivering ss ref data)"
  using owned_listed [of b "ss_conn ss" i ref] by (simp add: thread_ok_def getStream_def open_on_def)

lemma goes_on_conn:
  "goes_on b t (Reading ss)" "goes_on b t (Beating ss is)" "goes_on b t (Cleaning ss is)"
  "getStream b (ss_conn ss) i = Some ref \<Longrightarrow> goes_on b t (Delivering ss ref data)"
  by (auto simp: goes_on_def getStream_def open_on_def)

lemma action_conn_read:
  assumes "broker_inv (gw_broker g)" "thread_ok (gw_broker g) (Reading ss)" "conn_read inp ss g = (t', g')"
  shows "action_ok (gw_broker g) t t' (gw_broker g')"
  using assms(3,1,2)
  by (auto simp: conn_read_def thread_ok_reading thread_ok_delivering goes_on_conn
      split: option.splits sum.splits prod.splits if_splits
      intro!: action_okI broker_extends_refl extends_handleCloseStream)

lemma action_conn_deliver:
  assumes "broker_inv (gw_broker g)" "thread_ok (gw_broker g) (Delivering ss ref data)"
    and "conn_deliver inp ss ref data g = Some (t', g')"
  shows "action_ok (gw_broker g) t t' (gw_broker g')"
  using assms(3,1,2)
  by (auto simp: conn_deliver_def thread_ok_def goes_on_def split: option.splits if_splits deliver.splits
      intro!: action_okI broker_extends_refl extends_put)

lemma action_conn_clean:
  assumes "broker_inv (gw_broker g)" "thread_ok (gw_broker g) (Cleaning ss is)" "conn_clean inp ss is g = (t', g')"
  shows "action_ok (gw_broker g) t t' (gw_broker g')"
  using assms(3,1,2)
  by (cases "is") (auto simp: thread_ok_def goes_on_def split: sum.splits
      intro!: action_okI action_ok_end broker_extends_refl extends_Remove)

lemma action_conn_rest:
  assumes "broker_inv (gw_broker g)"
  shows "thread_ok (gw_broker g) (Beating ss is) \<Longrightarrow> conn_beat inp ss is g = (t', g') \<Longrightarrow>
      action_ok (gw_broker g) t t' (gw_broker g')"
    and "thread_ok (gw_broker g) (Unregistering ss i is) \<Longrightarrow> conn_unregister ss i is g = (t', g') \<Longrightarrow>
      action_ok (gw_broker g) t t' (gw_broker g')"
  using assms
  by ((cases "is"; auto simp: thread_ok_def goes_on_def intro!: action_okI broker_extends_refl)
    , auto simp: conn_unregister_def thread_ok_def goes_on_def split: prod.splits option.splits
        intro!: action_okI broker_extends_refl)

lemma action_proxy_lookup:
  assumes "broker_inv (gw_broker g)" "thread_ok (gw_broker g) (ProxyLookup r w)" "proxy_lookup uni px r w g = (t', g')"
  shows "action_ok (gw_broker g) t t' (gw_broker g')"
proof -
  have fail: "gw_broker (snd (proxy_fail m 502 l r g w)) = gw_broker g" for m l by simp
  show ?thesis
    using assms fail
    by (auto simp: proxy_lookup_def Let_def case_prod_unfold thread_ok_def goes_on_def split: if_splits sum.splits
        intro!: action_okI broker_extends_refl)
qed

lemma action_proxy_find:
  assumes "broker_inv (gw_broker g)" "thread_ok (gw_broker g) (ProxyFind sub tn r w)" "proxy_find sub tn r w g = (t', g')"
  shows "action_ok (gw_broker g) t t' (gw_broker g')"
  using assms
  by (auto simp: proxy_find_def Let_def case_prod_unfold thread_ok_def goes_on_def split: option.splits
      intro!: action_okI broker_extends_refl)

lemma owned_new:
  assumes "broker_inv b" "br_OpenStream b c tid = (ref, b')"
  shows "owned b' c ref"
proof -
  have "open_on b d i \<noteq> Some ref" for d i
    using broker_invD(2) [OF assms(1), of ref] broker_invD(4) [OF assms(1), of d i ref] Open_effect(1) [OF assms(2)]
    by auto
  then show ?thesis by (auto simp: owned_def Open_effect(8,9) [OF assms(2)])
qed

lemma action_proxy_open:
  assumes "broker_inv (gw_broker g)" "thread_ok (gw_broker g) (ProxyOpen c tn r w)"
    and "proxy_open_stream c tn r w g = (t', g')"
  shows "action_ok (gw_broker g) t t' (gw_broker g')"
proof -
  obtain ref b where o: "br_OpenStream (gw_broker g) c (tun_ID tn) = (ref, b)" by (metis surj_pair)
  have "\<not> owned (gw_broker g) d ref" for d
    using broker_invD(2) [OF assms(1), of ref] Open_effect(1) [OF o] by (simp add: owned_def)
  with o assms extends_Open [OF assms(1) o] owned_new [OF assms(1) o] Open_effect(1) [OF o] show ?thesis
    by (auto simp: proxy_open_stream_def Let_def action_ok_def thread_ok_def)
qed

lemma action_proxy_give_up:
  assumes "broker_inv (gw_broker g)" "owned (gw_broker g) c ref" "proxy_give_up c ref sid r w g = (t', g')"
    and "thread_stream t = Some (c, ref)"
  shows "action_ok (gw_broker g) t t' (gw_broker g')"
  using assms thread_stream_target [OF assms(4)]
  by (auto simp: proxy_give_up_def Let_def case_prod_unfold thread_ok_def goes_on_def intro!: action_okI broker_extends_refl)

lemma action_proxy_send_open:
  assumes "broker_inv (gw_broker g)" "thread_ok (gw_broker g) (ProxySendOpen c ref sid tn r w)"
    and "proxy_send_open wok c ref sid tn r w g = (t', g')" "thread_stream t = Some (c, ref)"
  shows "action_ok (gw_broker g) t t' (gw_broker g')"
proof -
  obtain ok g1 where s: "gw_send wok c (EncodeFrame FrameOpenStream (bytes_of_string (json_print
      (enc_OpenStream (open_message sid tn r))))) g = (ok, g1)" by (metis surj_pair)
  have b: "gw_broker g1 = gw_broker g" using gw_send_state [OF s] by simp
  have own: "owned (gw_broker g) c ref" "w_status w = None" using assms(2) by (simp_all add: thread_ok_def)
  show ?thesis
  proof (cases ok)
    case True
    with assms(3) s have "t' = Some (ProxySendData c ref sid r w)" "gw_broker g' = gw_broker g"
      using b by (auto simp: proxy_send_open_def EncodeControlMessage_frame)
    with own assms(1,4) thread_stream_target [OF assms(4)] show ?thesis
      by (auto simp: thread_ok_def goes_on_def intro!: action_okI broker_extends_refl)
  next
    case False
    with assms(3) s have "proxy_give_up c ref sid r w g1 = (t', g')"
      by (simp add: proxy_send_open_def EncodeControlMessage_frame)
    with action_proxy_give_up [of g1 c ref sid r w t' g' t] own assms(1,4) b show ?thesis by simp
  qed
qed

lemma action_proxy_send_data:
  assumes "broker_inv (gw_broker g)" "thread_ok (gw_broker g) (ProxySendData c ref sid r w)"
    and "proxy_send_data wok c ref sid r w g = (t', g')" "thread_stream t = Some (c, ref)"
  shows "action_ok (gw_broker g) t t' (gw_broker g')"
proof (cases "r_Body r")
  case None
  with assms action_proxy_give_up [of g c ref sid r w t' g' t] show ?thesis
    by (simp add: proxy_send_data_def thread_ok_def)
next
  case (Some body)
  obtain ok g1 where s: "gw_send wok c (EncodeFrame FrameStreamData (bytes_of_string (json_print
      (enc_StreamData \<lparr>sd_StreamID = FormatUint (unat sid), sd_Data = request_data r body\<rparr>)))) g = (ok, g1)"
    by (metis surj_pair)
  have b: "gw_broker g1 = gw_broker g" using gw_send_state [OF s] by simp
  have own: "owned (gw_broker g) c ref" "w_status w = None" using assms(2) by (simp_all add: thread_ok_def)
  show ?thesis
  proof (cases ok)
    case True
    with assms(3) s Some have "t' = Some (ProxyWait \<lparr>wt_conn = c, wt_stream = ref, wt_request = r, wt_writer = w\<rparr>)"
      "gw_broker g' = gw_broker g"
      using b by (auto simp: proxy_send_data_def EncodeControlMessage_frame json_Marshal_def)
    with own assms(1,4) thread_stream_target [OF assms(4)] show ?thesis
      by (auto simp: thread_ok_def goes_on_def intro!: action_okI broker_extends_refl)
  next
    case False
    with assms(3) s Some have "proxy_give_up c ref sid r w g1 = (t', g')"
      by (simp add: proxy_send_data_def EncodeControlMessage_frame json_Marshal_def)
    with action_proxy_give_up [of g1 c ref sid r w t' g' t] own assms(1,4) b show ?thesis by simp
  qed
qed

text \<open>The handler after its \<open>select\<close> is \<open>proxy_finish\<close>, which adds the deferred call.\<close>

lemma proxy_select_finish:
  "proxy_finish order sc c ref g r w =
     (let (res, g') = proxy_select order sc ref r w g
      in (res, close_stream c (case stream_heap (gw_broker g) ref of Some s \<Rightarrow> st_ID s | None \<Rightarrow> 0) g'))"
  by (auto simp: proxy_finish_def proxy_select_def proxy_respond_def proxy_reply_def proxy_abort_def Let_def
      case_prod_unfold close_stream_def split: select_case.split sum.split outcome.split)

lemma proxy_select_broker:
  "gw_broker (snd (proxy_select order sc ref r w g)) =
     (case sc of GotResponse d \<Rightarrow> take_response ref (gw_broker g) | _ \<Rightarrow> gw_broker g)"
  by (auto simp: proxy_select_def proxy_reply_def Let_def split: select_case.split sum.split outcome.split)

lemma action_proxy_wait:
  assumes "broker_inv (gw_broker g)" "thread_ok (gw_broker g) (ProxyWait q)" "proxy_wait inp q g = Some (t', g')"
    and "thread_stream t = Some (wt_conn q, wt_stream q)"
  shows "action_ok (gw_broker g) t t' (gw_broker g')"
proof -
  obtain res g1 where s: "proxy_select (in_keys inp) (in_select inp) (wt_stream q) (wt_request q) (wt_writer q) g = (res, g1)"
    by (metis surj_pair)
  with proxy_select_broker [of "in_keys inp" "in_select inp" "wt_stream q" "wt_request q" "wt_writer q" g] assms(1)
  have "broker_extends (gw_broker g) (gw_broker g1)"
    by (auto simp: broker_extends_refl extends_take split: select_case.splits)
  then show ?thesis
    using assms(2-4) thread_stream_target [OF assms(4)] s
    by (auto simp: proxy_wait_def Let_def thread_ok_def goes_on_def split: if_splits intro!: action_okI)
qed

text \<open>Every action of every thread.\<close>

lemma advance_connection:
  assumes "advance uni mac auth px inp t g = Some (t', g')" "broker_inv (gw_broker g)" "thread_ok (gw_broker g) t"
    and "thread_session t \<noteq> None"
  shows "action_ok (gw_broker g) t t' (gw_broker g')"
proof (cases t)
  case (ConnLoop ss u tcs)
  have "conn_loop inp ss u tcs g = (t', g')" "thread_ok (gw_broker g) (ConnLoop ss u tcs)" using assms(1,3) by (simp_all add: ConnLoop)
  from action_conn_loop [OF assms(2) this(2,1)] show ?thesis .
next
  case (ConnMap ss u tc tcs)
  have "conn_map ss u tc tcs g = (t', g')" "thread_ok (gw_broker g) (ConnMap ss u tc tcs)" using assms(1,3) by (simp_all add: ConnMap)
  from action_conn_map [OF assms(2) this(2,1)] show ?thesis .
next
  case (Reading ss)
  have "conn_read inp ss g = (t', g')" "thread_ok (gw_broker g) (Reading ss)" using assms(1,3) by (simp_all add: Reading)
  from action_conn_read [OF assms(2) this(2,1)] show ?thesis .
next
  case (Beating ss "is")
  have "conn_beat inp ss is g = (t', g')" "thread_ok (gw_broker g) (Beating ss is)" using assms(1,3) by (simp_all add: Beating)
  from action_conn_rest(1) [OF assms(2) this(2,1)] show ?thesis .
next
  case (Delivering ss ref data)
  have "conn_deliver inp ss ref data g = Some (t', g')" "thread_ok (gw_broker g) (Delivering ss ref data)" using assms(1,3) by (simp_all add: Delivering)
  from action_conn_deliver [OF assms(2) this(2,1)] show ?thesis .
next
  case (Cleaning ss "is")
  have "conn_clean inp ss is g = (t', g')" "thread_ok (gw_broker g) (Cleaning ss is)" using assms(1,3) by (simp_all add: Cleaning)
  from action_conn_clean [OF assms(2) this(2,1)] show ?thesis .
next
  case (Unregistering ss i "is")
  have "conn_unregister ss i is g = (t', g')" "thread_ok (gw_broker g) (Unregistering ss i is)" using assms(1,3) by (simp_all add: Unregistering)
  from action_conn_rest(2) [OF assms(2) this(2,1)] show ?thesis .
next
  case (ConnRefuse ss e)
  with assms(1-3) show ?thesis by (auto simp: thread_ok_def goes_on_def intro!: action_okI broker_extends_refl)
next
  case (ConnWelcome ss)
  with assms(1-3) show ?thesis by (auto simp: thread_ok_def goes_on_def intro!: action_okI broker_extends_refl)
next
  case (Unmapping ss sub i "is")
  with assms(1-3) show ?thesis by (auto simp: thread_ok_def goes_on_def intro!: action_okI extends_Unmap)
qed (use assms(4) in simp_all)

lemma advance_ok:
  assumes "advance uni mac auth px inp t g = Some (t', g')" "broker_inv (gw_broker g)" "thread_ok (gw_broker g) t"
  shows "action_ok (gw_broker g) t t' (gw_broker g')"
proof (cases t)
  case (ConnAuth ws)
  have "conn_auth mac auth inp ws g = (t', g')" using assms(1) by (simp add: ConnAuth)
  from action_conn_auth [OF assms(2) this] show ?thesis .
next
  case (ConnAdd ws reg token)
  have "conn_add inp ws reg token g = (t', g')" using assms(1) by (simp add: ConnAdd)
  from action_conn_add [OF assms(2) this] show ?thesis .
next
  case (ProxyLookup r w)
  have "proxy_lookup uni px r w g = (t', g')" "thread_ok (gw_broker g) (ProxyLookup r w)" using assms(1,3) by (simp_all add: ProxyLookup)
  from action_proxy_lookup [OF assms(2) this(2,1)] show ?thesis .
next
  case (ProxyFind sub tn r w)
  have "proxy_find sub tn r w g = (t', g')" "thread_ok (gw_broker g) (ProxyFind sub tn r w)" using assms(1,3) by (simp_all add: ProxyFind)
  from action_proxy_find [OF assms(2) this(2,1)] show ?thesis .
next
  case (ProxyOpen c tn r w)
  have "proxy_open_stream c tn r w g = (t', g')" "thread_ok (gw_broker g) (ProxyOpen c tn r w)" using assms(1,3) by (simp_all add: ProxyOpen)
  from action_proxy_open [OF assms(2) this(2,1)] show ?thesis .
next
  case (ProxySendOpen c ref sid tn r w)
  have "proxy_send_open (in_wok inp) c ref sid tn r w g = (t', g')" "thread_ok (gw_broker g) (ProxySendOpen c ref sid tn r w)" "thread_stream t = Some (c, ref)"
    using assms(1,3) by (simp_all add: ProxySendOpen)
  from action_proxy_send_open [OF assms(2) this(2,1,3)] show ?thesis .
next
  case (ProxySendData c ref sid r w)
  have "proxy_send_data (in_wok inp) c ref sid r w g = (t', g')" "thread_ok (gw_broker g) (ProxySendData c ref sid r w)" "thread_stream t = Some (c, ref)"
    using assms(1,3) by (simp_all add: ProxySendData)
  from action_proxy_send_data [OF assms(2) this(2,1,3)] show ?thesis .
next
  case (ProxyWait q)
  have "proxy_wait inp q g = Some (t', g')" "thread_ok (gw_broker g) (ProxyWait q)" "thread_stream t = Some (wt_conn q, wt_stream q)"
    using assms(1,3) by (simp_all add: ProxyWait)
  from action_proxy_wait [OF assms(2) this(2,1,3)] show ?thesis .
next
  case (ConnReply ws code msg)
  with assms show ?thesis by (auto intro!: action_ok_end broker_extends_refl)
next
  case (ProxyClose c ref sid res)
  with assms show ?thesis by (auto simp: thread_ok_def goes_on_def intro!: action_okI extends_Close)
next
  case (Replied res)
  with assms show ?thesis by (auto intro!: action_ok_end broker_extends_refl)
qed (use advance_connection [OF assms] in simp_all)

subsection \<open>Invariant\<close>

text \<open>How many requests use a stream.\<close>

definition users :: "stream_ref \<Rightarrow> thread multiset \<Rightarrow> nat" where
  "users ref T = size {#t \<in># T. map_option snd (thread_stream t) = Some ref#}"

text \<open>The threads that hold a stream agree on the connection it belongs to.\<close>

definition agree :: "thread multiset \<Rightarrow> bool" where
  "agree T \<longleftrightarrow> (\<forall>t \<in># T. \<forall>u \<in># T. \<forall>c d ref.
     thread_target t = Some (c, ref) \<longrightarrow> thread_target u = Some (d, ref) \<longrightarrow> c = d)"

definition pool_inv :: "mac \<Rightarrow> 'lim pool \<Rightarrow> bool" where
  "pool_inv mac P \<longleftrightarrow>
     broker_inv (pl_broker P) \<and> token_inv mac (sv_auth (pl_server P)) \<and>
     (\<forall>t \<in># pl_threads P. thread_ok (pl_broker P) t) \<and> (\<forall>ref. users ref (pl_threads P) \<le> 1) \<and>
     agree (pl_threads P)"

lemma pool_invD:
  assumes "pool_inv mac P"
  shows "broker_inv (pl_broker P)" "token_inv mac (sv_auth (pl_server P))"
    and "t \<in># pl_threads P \<Longrightarrow> thread_ok (pl_broker P) t" "users ref (pl_threads P) \<le> 1" "agree (pl_threads P)"
  using assms by (simp_all add: pool_inv_def)

lemma users_add:
  "users ref (add_mset t T) = (if map_option snd (thread_stream t) = Some ref then 1 else 0) + users ref T"
  by (simp add: users_def)

text \<open>A stream that is not allocated has no users.\<close>

lemma users_unallocated:
  assumes "\<forall>t \<in># T. thread_ok b t" "stream_id b ref = None"
  shows "users ref T = 0"
proof -
  have "map_option snd (thread_stream t) \<noteq> Some ref" if "t \<in># T" for t
  proof -
    have "thread_ok b t" using assms(1) that by blast
    then show ?thesis using assms(2) by (cases t) (auto simp: thread_ok_def owned_def)
  qed
  then show ?thesis by (auto simp: users_def filter_mset_eq_mempty_iff)
qed

lemma users_replace:
  assumes "\<forall>t \<in># T. thread_ok b t" "\<forall>ref. users ref T \<le> 1" "broker_inv b" "t \<in># T" "action_ok b t t' b'"
  shows "users ref (T - {#t#} + threads_of t') \<le> 1"
proof -
  obtain T' where T: "T = add_mset t T'" using assms(4) by (metis multi_member_split)
  have one: "users ref T \<le> 1" using assms(2) by blast
  then have le: "users ref T' \<le> 1" by (simp add: T users_add split: if_splits)
  show ?thesis
  proof (cases t')
    case (Some x)
    have "thread_stream x = None \<or> thread_stream x = thread_stream t \<or> (\<exists>c. thread_stream x = Some (c, next_stream b))"
      using assms(5) by (simp add: action_ok_def Some)
    then have "users ref (add_mset x T') \<le> 1"
    proof (elim disjE exE)
      assume "thread_stream x = thread_stream t"
      with one show ?thesis by (simp add: T users_add)
    next
      fix c assume x: "thread_stream x = Some (c, next_stream b)"
      have "stream_id b (next_stream b) = None" using broker_invD(2) [OF assms(3)] by simp
      with users_unallocated [OF assms(1)] have "users (next_stream b) T = 0" by blast
      then have "users (next_stream b) T' = 0" by (simp add: T users_add)
      with x le show ?thesis by (auto simp: users_add)
    qed (use le in \<open>simp add: users_add\<close>)
    with Some T show ?thesis by simp
  qed (use le in \<open>simp add: T\<close>)
qed

lemma agreeD:
  "agree T \<Longrightarrow> t \<in># T \<Longrightarrow> u \<in># T \<Longrightarrow> thread_target t = Some (c, ref) \<Longrightarrow> thread_target u = Some (d, ref) \<Longrightarrow> c = d"
  unfolding agree_def by blast

lemma agree_add:
  assumes "agree T" "\<And>u c d ref. u \<in># T \<Longrightarrow> thread_target x = Some (c, ref) \<Longrightarrow> thread_target u = Some (d, ref) \<Longrightarrow> d = c"
  shows "agree (add_mset x T)"
  unfolding agree_def
proof (intro ballI allI impI)
  fix t u c d ref
  assume m: "t \<in># add_mset x T" "u \<in># add_mset x T"
    and g: "thread_target t = Some (c, ref)" "thread_target u = Some (d, ref)"
  show "c = d"
  proof (cases "t = x")
    case True
    show ?thesis
    proof (cases "u = x")
      case False
      with m(2) have "u \<in># T" by simp
      from assms(2) [OF this g(1) [unfolded True] g(2)] show ?thesis by simp
    qed (use True g in simp)
  next
    case False
    with m(1) have t: "t \<in># T" by simp
    show ?thesis
    proof (cases "u = x")
      case True
      from assms(2) [OF t g(2) [unfolded True] g(1)] show ?thesis .
    next
      case False
      with m(2) have "u \<in># T" by simp
      from agreeD [OF assms(1) t this g] show ?thesis .
    qed
  qed
qed

lemma agree_replace:
  assumes "\<forall>t \<in># T. thread_ok b t" "agree T" "t \<in># T" "action_ok b t t' b'"
  shows "agree (T - {#t#} + threads_of t')"
proof -
  have sub: "u \<in># T - {#t#} \<Longrightarrow> u \<in># T" for u by (rule in_diffD)
  have less: "agree (T - {#t#})" unfolding agree_def using agreeD [OF assms(2)] sub by blast
  show ?thesis
  proof (cases t')
    case (Some x)
    have "agree (add_mset x (T - {#t#}))"
    proof (rule agree_add [OF less])
      fix u c d ref
      assume u: "u \<in># T - {#t#}" "thread_target x = Some (c, ref)" "thread_target u = Some (d, ref)"
      have "owned b d ref" using assms(1) sub [OF u(1)] u(3) by (auto simp: thread_ok_def)
      moreover have "thread_target t = Some (c, ref) \<or> (\<forall>d. owned b d ref \<longrightarrow> d = c)"
        using assms(4) u(2) by (simp add: action_ok_def Some)
      ultimately show "d = c" using agreeD [OF assms(2) sub [OF u(1)] assms(3) u(3)] by blast
    qed
    with Some show ?thesis by simp
  qed (simp add: less)
qed

lemma pool_inv_thread:
  assumes "pool_inv mac P" "t \<in># pl_threads P"
    and "advance uni mac' (sv_auth (pl_server P)) px inp t (pl_gateway P) = Some (t', g')"
  shows "pool_inv mac (replace_thread t t' g' P)"
proof -
  note inv = pool_invD [OF assms(1)]
  have act: "action_ok (pl_broker P) t t' (gw_broker g')" using advance_ok [OF assms(3) inv(1) inv(3) [OF assms(2)]] .
  then have ext: "broker_extends (pl_broker P) (gw_broker g')" by (simp add: action_ok_def)
  have ok: "\<forall>x \<in># pl_threads P. thread_ok (pl_broker P) x" and one: "\<forall>ref. users ref (pl_threads P) \<le> 1"
    using inv(3,4) by blast+
  have "thread_ok (gw_broker g') x" if "x \<in># pl_threads P - {#t#} + threads_of t'" for x
  proof (cases "x \<in># pl_threads P - {#t#}")
    case True
    then have "x \<in># pl_threads P" by (rule in_diffD)
    with ok have "thread_ok (pl_broker P) x" by blast
    then show ?thesis using ext by (rule thread_ok_extends)
  next
    case False
    with that have "t' = Some x" by (cases t') auto
    with act show ?thesis by (simp add: action_ok_def)
  qed
  with users_replace [OF ok one inv(1) assms(2) act] agree_replace [OF ok inv(5) assms(2) act] broker_extendsD(1) [OF ext]
    inv(2) show ?thesis
    by (simp add: pool_inv_def replace_thread_def)
qed

lemma pool_inv_handle:
  assumes "pool_inv mac P" "ae_mac env = mac"
    and "server_handle new_limiter lim_allow env (pl_server P) r new_response = (act, s')"
  shows "pool_inv mac (P\<lparr>pl_server := s'\<rparr>)"
  using assms(1) server_handle_state [OF assms(3)] unfolding assms(2) by (simp add: pool_inv_def)

lemma pool_inv_spawn:
  assumes "pool_inv mac P" "thread_ok (pl_broker P) t" "thread_target t = None" "thread_stream t = None"
  shows "pool_inv mac (P\<lparr>pl_threads := add_mset t (pl_threads P)\<rparr>)"
  using assms agree_add [OF pool_invD(5) [OF assms(1)], of t] by (auto simp: pool_inv_def users_add)

lemma pool_inv_step:
  assumes "pool_step uni mac new_limiter lim_allow P P'" "pool_inv mac P"
  shows "pool_inv mac P'"
  using assms
proof (induction rule: pool_step.induct)
  case (pool_http env P r act s')
  from pool_http(5,1,2) show ?case by (rule pool_inv_handle)
next
  case (pool_connect env P r s' upgraded)
  note inv = pool_inv_handle [OF pool_connect(3,1,2)]
  show ?case
  proof (cases upgraded)
    case (Some ws)
    with pool_inv_spawn [OF inv, of "ConnAuth ws"] show ?thesis by (simp add: thread_ok_conn)
  qed (use inv in simp)
next
  case (pool_proxy env P r s')
  from pool_inv_spawn [OF pool_inv_handle [OF pool_proxy(3,1,2)], of "ProxyLookup r new_response"] show ?case
    by (simp add: thread_ok_def)
next
  case (pool_cleanup s' P order now)
  then show ?case by (simp add: pool_inv_def)
next
  case (pool_thread t P inp t' g')
  from pool_thread(3,1,2) show ?case by (rule pool_inv_thread)
qed

interpretation pools: step_invariant "pool_step uni mac new_limiter lim_allow" "pool_inv mac"
  for uni mac and new_limiter :: "int \<Rightarrow> int \<Rightarrow> 'lim" and lim_allow
  by unfold_locales (rule pool_inv_step)

end
