(* ===== verification/Gateway_Interleaving.thy ===== *)
theory Gateway_Interleaving
  imports Gateway_Threads
begin

text \<open>
  Runs of the gateway's threads. A thread that runs while the others rest does what the handlers of
  \<open>Server\<close> and \<open>Proxy\<close> do in one go; so every run of the transition system \<open>Gateway_System\<close>, whose steps
  are whole handlers, is a run of the thread pool, and what holds in every state of the pool holds
  there. The theory ends with the properties of the pool itself: valid references, the isolation of
  the sessions from each other, the end of every waiting request, and the race of a cleanup with a
  registration.
\<close>

subsection \<open>Undisturbed threads\<close>

text \<open>A thread that runs alone, from one state of the gateway to another.\<close>

definition thread_step ::
  "(string \<Rightarrow> string) \<Rightarrow> mac \<Rightarrow> MemoryTokenStore \<Rightarrow> Proxy \<Rightarrow> thread option \<times> Gateway \<Rightarrow> thread option \<times> Gateway \<Rightarrow> bool"
where
  "thread_step uni mac auth px x y \<longleftrightarrow> (\<exists>t inp. fst x = Some t \<and> advance uni mac auth px inp t (snd x) = Some y)"

abbreviation thread_runs ::
  "(string \<Rightarrow> string) \<Rightarrow> mac \<Rightarrow> MemoryTokenStore \<Rightarrow> Proxy \<Rightarrow> thread option \<times> Gateway \<Rightarrow> thread option \<times> Gateway \<Rightarrow> bool"
where
  "thread_runs uni mac auth px \<equiv> (thread_step uni mac auth px)\<^sup>*\<^sup>*"

definition some_input :: input where
  "some_input = \<lparr>in_wok = (\<lambda>_ _. True), in_clock = (\<lambda>_. 0), in_order = [], in_keys = [], in_msg = None,
     in_deliver = Deliver, in_select = TimedOut\<rparr>"

lemma runs_step:
  assumes "advance uni mac auth px inp t g = Some y" "thread_runs uni mac auth px y z"
  shows "thread_runs uni mac auth px (Some t, g) z"
proof (rule converse_rtranclp_into_rtranclp)
  show "thread_step uni mac auth px (Some t, g) y"
    unfolding thread_step_def by (intro exI [of _ t] exI [of _ inp]) (simp add: assms(1))
qed (rule assms(2))

lemma runs_one: "advance uni mac auth px inp t g = Some y \<Longrightarrow> thread_runs uni mac auth px (Some t, g) y"
  by (rule runs_step [OF _ rtranclp.rtrancl_refl])

text \<open>Inside the pool, while no other thread acts.\<close>

lemma replace_thread_id:
  "t \<in># pl_threads P \<Longrightarrow> replace_thread t (Some t) (pl_gateway P) P = P"
  by (simp add: replace_thread_def)

lemma replace_thread_twice:
  "replace_thread x t' g' (replace_thread t (Some x) g P) = replace_thread t t' g' P"
  by (simp add: replace_thread_def)

lemma runs_in_pool:
  assumes "thread_runs uni mac (sv_auth (pl_server P)) (sv_proxy (pl_server P)) (Some t, pl_gateway P) (t', g')"
    and "t \<in># pl_threads P"
  shows "(pool_step uni mac new_limiter lim_allow)\<^sup>*\<^sup>* P (replace_thread t t' g' P)"
  using assms(1)
proof (induction "(t', g')" arbitrary: t' g' rule: rtranclp_induct)
  case base
  then show ?case using replace_thread_id [OF assms(2)] by simp
next
  case (step y)
  obtain x g1 where y: "y = (Some x, g1)" using step.hyps(2) by (cases y) (auto simp: thread_step_def)
  let ?P = "replace_thread t (Some x) g1 P"
  obtain inp where adv: "advance uni mac (sv_auth (pl_server P)) (sv_proxy (pl_server P)) inp x g1 = Some (t', g')"
    using step.hyps(2) by (auto simp: thread_step_def y)
  have "pool_step uni mac new_limiter lim_allow ?P (replace_thread x t' g' ?P)"
    by (rule pool_step.pool_thread [of x ?P uni mac inp]) (use adv in \<open>simp_all add: replace_thread_def\<close>)
  then have "pool_step uni mac new_limiter lim_allow ?P (replace_thread t t' g' P)"
    unfolding replace_thread_twice .
  with step.hyps(3) [OF y] show ?case by (rule rtranclp.rtrancl_into_rtrancl)
qed

text \<open>The loops.\<close>

lemma runs_register:
  assumes "register_tunnels clock n (ss_connID ss) u tcs g = (err, g1, ids)"
  shows "thread_runs uni mac auth px (Some (ConnLoop ss u tcs), g)
    (Some (case err of Some e \<Rightarrow> ConnRefuse (ss\<lparr>ss_tunnelIDs := ss_tunnelIDs ss @ ids\<rparr>) e
       | None \<Rightarrow> ConnLoop (ss\<lparr>ss_tunnelIDs := ss_tunnelIDs ss @ ids\<rparr>) u []), g1)"
  using assms
proof (induction tcs arbitrary: n ss g ids)
  case Nil
  then show ?case by simp
next
  case (Cons tc tcs)
  let ?inp = "some_input\<lparr>in_clock := \<lambda>k. clock (n + k)\<rparr>"
  let ?t = "new_tunnel (clock n) (clock (n + 1)) (ss_connID ss) u tc"
  obtain r reg where reg: "mr_Register (gw_registry g) ?t = (r, reg)" by (metis surj_pair)
  show ?case
  proof (cases r)
    case (Some e)
    have "advance uni mac auth px ?inp (ConnLoop ss u (tc # tcs)) g = Some (Some (ConnRefuse ss e), g\<lparr>gw_registry := reg\<rparr>)"
      using reg Some by simp
    from runs_one [OF this] show ?thesis using Cons.prems reg Some by auto
  next
    case None
    let ?g = "g\<lparr>gw_registry := reg, gw_broker := br_MapSubdomain (gw_broker g) (tc_Subdomain tc) (ss_connID ss),
                gw_metrics := IncActiveTunnels (gw_metrics g)\<rparr>"
    let ?ss = "ss\<lparr>ss_tunnelIDs := ss_tunnelIDs ss @ [tun_ID ?t]\<rparr>"
    obtain ids' where rest: "register_tunnels clock (n + 2) (ss_connID ?ss) u tcs ?g = (err, g1, ids')"
      "ids = tun_ID ?t # ids'"
      using Cons.prems reg None by (auto simp: Let_def split: prod.splits)
    have 1: "advance uni mac auth px ?inp (ConnLoop ss u (tc # tcs)) g = Some (Some (ConnMap ss u tc tcs), g\<lparr>gw_registry := reg\<rparr>)"
      using reg None by simp
    have 2: "advance uni mac auth px ?inp (ConnMap ss u tc tcs) (g\<lparr>gw_registry := reg\<rparr>) = Some (Some (ConnLoop ?ss u tcs), ?g)"
      by (simp add: conn_map_def new_tunnel_def)
    from runs_step [OF 1 runs_step [OF 2 Cons.IH [OF rest(1)]]] rest(2) show ?thesis by (cases err) simp_all
  qed
qed

lemma runs_clean:
  "thread_runs uni mac auth px (Some (Cleaning ss is), g) (None, cleanupConnection order (ss_connID ss) is g)"
proof (induction "is" arbitrary: g)
  case Nil
  show ?case by (rule runs_one [where inp = "some_input\<lparr>in_order := order\<rparr>"]) (simp add: cleanupConnection_def)
next
  case (Cons i "is")
  have tail: "cleanupConnection order (ss_connID ss) (i # is) g = cleanupConnection order (ss_connID ss) is (cleanup_tunnel i g)"
    by (simp add: cleanupConnection_def)
  have unreg: "thread_runs uni mac auth px (Some (Unregistering ss i is), h) (None, cleanupConnection order (ss_connID ss) is
      (case mr_Unregister (gw_registry h) i of
         (None, reg) \<Rightarrow> h\<lparr>gw_registry := reg, gw_metrics := DecActiveTunnels (gw_metrics h)\<rparr>
       | (Some e, reg) \<Rightarrow> h\<lparr>gw_registry := reg\<rparr>))" for h
    by (rule runs_step [OF _ Cons.IH]) (simp add: conn_unregister_def split: prod.split option.split)
  show ?case
  proof (cases "mr_GetByID (gw_registry g) i")
    case (Inl e)
    then have "advance uni mac auth px some_input (Cleaning ss (i # is)) g = Some (Some (Unregistering ss i is), g)"
      by simp
    from runs_step [OF this unreg] Inl show ?thesis unfolding tail by (simp add: cleanup_tunnel_def Let_def)
  next
    case (Inr t)
    let ?g = "g\<lparr>gw_broker := br_UnmapSubdomain (gw_broker g) (tun_Subdomain t)\<rparr>"
    have 1: "advance uni mac auth px some_input (Cleaning ss (i # is)) g = Some (Some (Unmapping ss (tun_Subdomain t) i is), g)"
      using Inr by simp
    have 2: "advance uni mac auth px some_input (Unmapping ss (tun_Subdomain t) i is) g = Some (Some (Unregistering ss i is), ?g)"
      by simp
    from runs_step [OF 1 runs_step [OF 2 unreg]] Inr show ?thesis unfolding tail by (simp add: cleanup_tunnel_def Let_def)
  qed
qed

lemma runs_beat:
  "thread_runs uni mac auth px (Some (Beating ss is), g) (Some (Reading ss), g\<lparr>gw_registry :=
     snd (foldl (beat_tunnel clock) (n, gw_registry g) is)\<rparr>)"
proof (induction "is" arbitrary: g n)
  case Nil
  show ?case by (rule runs_one [where inp = some_input]) simp
next
  case (Cons i "is")
  let ?g = "g\<lparr>gw_registry := snd (mr_UpdateHeartbeat (clock n) (gw_registry g) i)\<rparr>"
  have step: "advance uni mac auth px (some_input\<lparr>in_clock := \<lambda>_. clock n\<rparr>) (Beating ss (i # is)) g = Some (Some (Beating ss is), ?g)"
    by simp
  have beat: "beat_tunnel clock (n, gw_registry g) i = (fst (beat_tunnel clock (n, gw_registry g) i), gw_registry ?g)"
    by (simp add: beat_tunnel_def split: prod.split option.split)
  from runs_step [OF step Cons.IH [of ?g "fst (beat_tunnel clock (n, gw_registry g) i)"]]
  show ?case using beat by simp
qed

text \<open>The handlers of the coarse model.\<close>

lemma runs_connect_register:
  assumes "connect_register wok clock order ws reg token g = (res, g')"
  shows "thread_runs uni mac auth px (Some (ConnAdd ws reg token), g)
    (case res of Rejected \<Rightarrow> None | Connected ss \<Rightarrow> Some (Reading ss), g')"
proof -
  let ?cid = "connection_id clock reg" and ?u = "tok_UserID token"
  obtain c b where add: "br_AddConnection (gw_broker g) ?cid ?u ws = (c, b)" by (metis surj_pair)
  let ?ss = "\<lparr>ss_ws = ws, ss_conn = c, ss_connID = ?cid, ss_tunnelIDs = []\<rparr>"
  obtain err g1 ids where loop: "register_tunnels clock 2 ?cid ?u (reg_Tunnels reg) (g\<lparr>gw_broker := b\<rparr>) = (err, g1, ids)"
    by (metis prod_cases3)
  let ?ss' = "?ss\<lparr>ss_tunnelIDs := ids\<rparr>"
  have 1: "advance uni mac auth px (some_input\<lparr>in_clock := clock\<rparr>) (ConnAdd ws reg token) g
      = Some (Some (ConnLoop ?ss ?u (reg_Tunnels reg)), g\<lparr>gw_broker := b\<rparr>)"
    by (simp add: conn_add_def add)
  have 2: "thread_runs uni mac auth px (Some (ConnLoop ?ss ?u (reg_Tunnels reg)), g\<lparr>gw_broker := b\<rparr>)
      (Some (case err of Some e \<Rightarrow> ConnRefuse ?ss' e | None \<Rightarrow> ConnLoop ?ss' ?u []), g1)"
    using runs_register [of clock 2 ?ss ?u "reg_Tunnels reg" "g\<lparr>gw_broker := b\<rparr>" err g1 ids uni mac auth px] loop
    by (cases err) simp_all
  have "thread_runs uni mac auth px (Some (case err of Some e \<Rightarrow> ConnRefuse ?ss' e | None \<Rightarrow> ConnLoop ?ss' ?u []), g1)
      (case res of Rejected \<Rightarrow> None | Connected ss \<Rightarrow> Some (Reading ss), g')"
  proof (cases err)
    case (Some e)
    let ?g = "sendControlResponse wok ws CodeInvalidRequest (''register tunnel failed: '' @ registry_error_string e) g1"
    have "advance uni mac auth px (some_input\<lparr>in_wok := wok\<rparr>) (ConnRefuse ?ss' e) g1 = Some (Some (Cleaning ?ss' ids), ?g)"
      by simp
    from runs_step [OF this runs_clean [where order = order]] show ?thesis
      using assms add loop Some by (auto simp: connect_register_def Let_def)
  next
    case None
    let ?g = "g1\<lparr>gw_broker := set_tunnels c ids (gw_broker g1)\<rparr>"
    have 3: "advance uni mac auth px some_input (ConnLoop ?ss' ?u []) g1 = Some (Some (ConnWelcome ?ss'), ?g)" by simp
    have 4: "advance uni mac auth px (some_input\<lparr>in_wok := wok\<rparr>) (ConnWelcome ?ss') ?g
        = Some (Some (Reading ?ss'), sendControlResponse wok ws CodeOK ''registered'' ?g)" by simp
    from runs_step [OF 3 runs_one [OF 4]] show ?thesis
      using assms add loop None by (auto simp: connect_register_def Let_def)
  qed
  with runs_step [OF 1 2] show ?thesis by (rule rtranclp_trans)
qed

lemma runs_connect:
  assumes "connect_begin wok mac clock order auth ws raw g = (res, g')"
  shows "thread_runs uni mac auth px (Some (ConnAuth ws), g) (case res of Rejected \<Rightarrow> None | Connected ss \<Rightarrow> Some (Reading ss), g')"
proof -
  let ?inp = "some_input\<lparr>in_clock := clock, in_msg := raw, in_wok := wok\<rparr>"
  obtain t1 g1 where a: "conn_auth mac auth ?inp ws g = (t1, g1)" by (metis surj_pair)
  then have 1: "advance uni mac auth px ?inp (ConnAuth ws) g = Some (t1, g1)" by simp
  have "(t1 = None \<and> res = Rejected \<and> g1 = g')
      \<or> (\<exists>code msg. t1 = Some (ConnReply ws code msg) \<and> res = Rejected \<and> g' = sendControlResponse wok ws code msg g1)
      \<or> (\<exists>reg token. t1 = Some (ConnAdd ws reg token) \<and> g1 = g \<and> connect_register wok clock order ws reg token g = (res, g'))"
    using assms a
    by (auto simp: conn_auth_def connect_begin_def split: option.splits sum.splits prod.splits if_splits)
  then have "thread_runs uni mac auth px (t1, g1) (case res of Rejected \<Rightarrow> None | Connected ss \<Rightarrow> Some (Reading ss), g')"
  proof (elim disjE exE conjE)
    fix code msg assume t1: "t1 = Some (ConnReply ws code msg)" "res = Rejected" "g' = sendControlResponse wok ws code msg g1"
    have "advance uni mac auth px ?inp (ConnReply ws code msg) g1 = Some (None, g')" by (simp add: t1(3))
    from runs_one [OF this] show ?thesis by (simp add: t1(1,2))
  next
    fix reg token assume t1: "t1 = Some (ConnAdd ws reg token)" "g1 = g"
      "connect_register wok clock order ws reg token g = (res, g')"
    from runs_connect_register [OF t1(3)] show ?thesis by (simp add: t1(1,2))
  qed simp
  with 1 show ?thesis by (rule runs_step)
qed

lemma deliver_unlisted:
  "getStream (gw_broker g) c i = None \<Longrightarrow> deliverStreamData d c i data g = Some g"
  by (simp add: deliverStreamData_def)

lemma conn_deliver_listed:
  "getStream (gw_broker g) (ss_conn ss) i = Some ref \<Longrightarrow>
     deliverStreamData (in_deliver inp) (ss_conn ss) i data g = Some g' \<Longrightarrow>
     conn_deliver inp ss ref data g = Some (Some (Reading ss), g')"
  by (auto simp: conn_deliver_def deliverStreamData_def split: option.splits if_splits deliver.splits)

lemma runs_read:
  assumes "server_read clock d ss raw g = Some g'"
  shows "thread_runs uni mac auth px (Some (Reading ss), g) (Some (Reading ss), g')"
proof -
  let ?inp = "some_input\<lparr>in_msg := Some raw, in_deliver := d\<rparr>"
  obtain t1 g1 where a: "conn_read ?inp ss g = (t1, g1)" by (metis surj_pair)
  then have 1: "advance uni mac auth px ?inp (Reading ss) g = Some (t1, g1)" by simp
  have "(t1 = Some (Reading ss) \<and> g1 = g')
      \<or> (t1 = Some (Beating ss (ss_tunnelIDs ss)) \<and> g1 = g \<and> g' = handleHeartbeat clock (ss_tunnelIDs ss) g)
      \<or> (\<exists>ref data. t1 = Some (Delivering ss ref data) \<and> conn_deliver ?inp ss ref data g1 = Some (Some (Reading ss), g'))"
    using assms a
    by (auto simp: conn_read_def server_read_def handleStreamData_def deliver_unlisted conn_deliver_listed
        split: option.splits sum.splits prod.splits if_splits)
  then have "thread_runs uni mac auth px (t1, g1) (Some (Reading ss), g')"
  proof (elim disjE exE conjE)
    fix ref data assume t1: "t1 = Some (Delivering ss ref data)" "conn_deliver ?inp ss ref data g1 = Some (Some (Reading ss), g')"
    have "advance uni mac auth px ?inp (Delivering ss ref data) g1 = Some (Some (Reading ss), g')" by (simp add: t1(2))
    from runs_one [OF this] show ?thesis by (simp add: t1(1))
  next
    assume t1: "t1 = Some (Beating ss (ss_tunnelIDs ss))" "g1 = g" "g' = handleHeartbeat clock (ss_tunnelIDs ss) g"
    from runs_beat [of uni mac auth px ss "ss_tunnelIDs ss" g clock 0] show ?thesis
      by (simp add: t1 handleHeartbeat_def)
  qed simp
  with 1 show ?thesis by (rule runs_step)
qed

lemma runs_disconnect:
  "thread_runs uni mac auth px (Some (Reading ss), g) (None, server_disconnect order ss g)"
proof (rule runs_step)
  show "advance uni mac auth px some_input (Reading ss) g = Some (Some (Cleaning ss (ss_tunnelIDs ss)), g)"
    by (simp add: conn_read_def some_input_def)
  show "thread_runs uni mac auth px (Some (Cleaning ss (ss_tunnelIDs ss)), g) (None, server_disconnect order ss g)"
    unfolding server_disconnect_def by (rule runs_clean)
qed

text \<open>The thread of a request after \<open>proxy_begin\<close>.\<close>

fun phase_thread :: "proxy_phase \<Rightarrow> Request \<Rightarrow> ResponseWriter \<Rightarrow> thread" where
  "phase_thread (Answered res) r w = Replied res"
| "phase_thread (Waiting c ref) r w = ProxyWait \<lparr>wt_conn = c, wt_stream = ref, wt_request = r, wt_writer = w\<rparr>"

lemma runs_give_up:
  assumes "proxy_abort c sid ''502 Bad Gateway'' 502 ''502'' r g w = (res, g')"
  shows "thread_runs uni mac auth px (proxy_give_up c ref sid r w g) (Some (Replied res), g')"
proof -
  obtain res' g1 where f: "proxy_fail ''502 Bad Gateway'' 502 ''502'' r g w = (res', g1)" by (metis surj_pair)
  have "advance uni mac auth px some_input (ProxyClose c ref sid res') g1 = Some (Some (Replied res'), close_stream c sid g1)"
    by simp
  from runs_one [OF this] show ?thesis using assms f by (simp add: proxy_give_up_def proxy_abort_def)
qed

lemma runs_send_data:
  assumes "proxy_send_request wok c ref sid g r w = (ph, g')"
  shows "thread_runs uni mac auth px (Some (ProxySendData c ref sid r w), g) (Some (phase_thread ph r w), g')"
proof -
  obtain t1 g1 where a: "proxy_send_data wok c ref sid r w g = (t1, g1)" by (metis surj_pair)
  have 1: "advance uni mac auth px (some_input\<lparr>in_wok := wok\<rparr>) (ProxySendData c ref sid r w) g = Some (t1, g1)"
    using a by simp
  have "(t1 = Some (phase_thread ph r w) \<and> g1 = g') \<or>
      (\<exists>h res. proxy_abort c sid ''502 Bad Gateway'' 502 ''502'' r h w = (res, g') \<and> ph = Answered res
         \<and> proxy_give_up c ref sid r w h = (t1, g1))"
    using assms a
    by (cases "r_Body r") (auto simp: proxy_send_request_def proxy_send_data_def json_Marshal_def
        EncodeControlMessage_frame Let_def split: if_splits prod.splits)
  then have "thread_runs uni mac auth px (t1, g1) (Some (phase_thread ph r w), g')"
  proof (elim disjE exE conjE)
    fix h res assume h: "proxy_abort c sid ''502 Bad Gateway'' 502 ''502'' r h w = (res, g')" "ph = Answered res"
      "proxy_give_up c ref sid r w h = (t1, g1)"
    from runs_give_up [OF h(1), of uni mac auth px ref] show ?thesis unfolding h(2,3) by simp
  qed simp
  with 1 show ?thesis by (rule runs_step)
qed

lemma runs_proxy_open:
  assumes "proxy_open wok c t g r w = (ph, g')"
  shows "thread_runs uni mac auth px (Some (ProxyOpen c t r w), g) (Some (phase_thread ph r w), g')"
proof -
  obtain ref b where o: "br_OpenStream (gw_broker g) c (tun_ID t) = (ref, b)" by (metis surj_pair)
  let ?sid = "nextStreamID (gw_broker g) + 1" and ?g = "g\<lparr>gw_broker := b\<rparr>"
  note sid = br_OpenStream_stream [OF o]
  have 1: "advance uni mac auth px some_input (ProxyOpen c t r w) g = Some (Some (ProxySendOpen c ref ?sid t r w), ?g)"
    by (simp add: proxy_open_stream_def o sid)
  obtain t1 g1 where a: "proxy_send_open wok c ref ?sid t r w ?g = (t1, g1)" by (metis surj_pair)
  have 2: "advance uni mac auth px (some_input\<lparr>in_wok := wok\<rparr>) (ProxySendOpen c ref ?sid t r w) ?g = Some (t1, g1)"
    using a by simp
  obtain ok h where s: "gw_send wok c (EncodeFrame FrameOpenStream (bytes_of_string (json_print
      (enc_OpenStream (open_message ?sid t r))))) ?g = (ok, h)" by (metis surj_pair)
  have "thread_runs uni mac auth px (t1, g1) (Some (phase_thread ph r w), g')"
  proof (cases ok)
    case True
    have "proxy_send_request wok c ref ?sid h r w = (ph, g')" "t1 = Some (ProxySendData c ref ?sid r w)" "g1 = h"
      using assms a s True by (simp_all add: proxy_open_def proxy_send_open_def o sid EncodeControlMessage_frame Let_def)
    with runs_send_data show ?thesis by simp
  next
    case False
    obtain res where "proxy_abort c ?sid ''502 Bad Gateway'' 502 ''502'' r h w = (res, g')" "ph = Answered res"
      "proxy_give_up c ref ?sid r w h = (t1, g1)"
      using assms a s False
      by (auto simp: proxy_open_def proxy_send_open_def o sid EncodeControlMessage_frame Let_def split: prod.splits)
    with runs_give_up [OF this(1), of uni mac auth px ref] show ?thesis by simp
  qed
  from runs_step [OF 1 runs_step [OF 2 this]] show ?thesis .
qed

lemma runs_proxy:
  assumes "proxy_begin uni wok px g r w = (ph, g')"
  shows "thread_runs uni mac auth px (Some (ProxyLookup r w), g) (Some (phase_thread ph r w), g')"
proof -
  let ?sub = "extractSubdomain uni (r_Host r) (px_publicHostname px)"
  obtain t1 g1 where a: "proxy_lookup uni px r w g = (t1, g1)" by (metis surj_pair)
  have 1: "advance uni mac auth px some_input (ProxyLookup r w) g = Some (t1, g1)" using a by simp
  have "(t1 = Some (phase_thread ph r w) \<and> g1 = g') \<or>
      (\<exists>tn. t1 = Some (ProxyFind ?sub tn r w) \<and> g1 = g \<and>
         ((\<exists>t2 g2. proxy_find ?sub tn r w g = (Some t2, g2) \<and> t2 = phase_thread ph r w \<and> g2 = g') \<or>
          (\<exists>c t. proxy_find ?sub tn r w g = (Some (ProxyOpen c t r w), g) \<and> proxy_open wok c t g r w = (ph, g'))))"
    using assms a
    by (auto simp: proxy_begin_def proxy_lookup_def proxy_find_def Let_def split: if_splits sum.splits option.splits prod.splits)
  then have "thread_runs uni mac auth px (t1, g1) (Some (phase_thread ph r w), g')"
  proof (elim disjE exE conjE)
    fix tn t2 g2 assume t1: "t1 = Some (ProxyFind ?sub tn r w)" "g1 = g" "proxy_find ?sub tn r w g = (Some t2, g2)"
      "t2 = phase_thread ph r w" "g2 = g'"
    have "advance uni mac auth px some_input (ProxyFind ?sub tn r w) g = Some (Some t2, g2)" by (simp add: t1(3))
    from runs_one [OF this] show ?thesis by (simp add: t1(1,2,4,5))
  next
    fix tn c t assume t1: "t1 = Some (ProxyFind ?sub tn r w)" "g1 = g"
      "proxy_find ?sub tn r w g = (Some (ProxyOpen c t r w), g)" "proxy_open wok c t g r w = (ph, g')"
    have "advance uni mac auth px some_input (ProxyFind ?sub tn r w) g = Some (Some (ProxyOpen c t r w), g)"
      by (simp add: t1(3))
    from runs_step [OF this runs_proxy_open [OF t1(4)]] show ?thesis by (simp add: t1(1,2))
  qed simp
  with 1 show ?thesis by (rule runs_step)
qed

lemma runs_replied: "thread_runs uni mac auth px (Some (Replied res), g) (None, g)"
  by (rule runs_one [where inp = some_input]) simp

lemma runs_finish:
  assumes "select_ready (gw_broker g) (wt_stream q) sc"
    and "proxy_finish order sc (wt_conn q) (wt_stream q) g (wt_request q) (wt_writer q) = (res, g')"
  shows "thread_runs uni mac auth px (Some (ProxyWait q), g) (Some (Replied res), g')"
proof -
  let ?sid = "case stream_heap (gw_broker g) (wt_stream q) of Some s \<Rightarrow> st_ID s | None \<Rightarrow> 0"
  obtain g1 where s: "proxy_select order sc (wt_stream q) (wt_request q) (wt_writer q) g = (res, g1)"
    "g' = close_stream (wt_conn q) ?sid g1"
    using assms(2) by (auto simp: proxy_select_finish Let_def split: prod.splits)
  have 1: "advance uni mac auth px (some_input\<lparr>in_select := sc, in_keys := order\<rparr>) (ProxyWait q) g
      = Some (Some (ProxyClose (wt_conn q) (wt_stream q) ?sid res), g1)"
    using assms(1) s(1) by (simp add: proxy_wait_def)
  have 2: "advance uni mac auth px some_input (ProxyClose (wt_conn q) (wt_stream q) ?sid res) g1 = Some (Some (Replied res), g')"
    by (simp add: s(2))
  from runs_step [OF 1 runs_one [OF 2]] show ?thesis .
qed

subsection \<open>Handlers are runs of threads\<close>

definition pool_of :: "'lim world \<Rightarrow> 'lim pool" where
  "pool_of W = \<lparr>pl_server = wd_server W,
     pl_threads = image_mset Reading (mset (wd_sessions W)) + image_mset ProxyWait (mset (wd_waiting W))\<rparr>"

lemma pool_of_sel [simp]:
  "pl_server (pool_of W) = wd_server W"
  "ss \<in> set (wd_sessions W) \<Longrightarrow> Reading ss \<in># pl_threads (pool_of W)"
  "q \<in> set (wd_waiting W) \<Longrightarrow> ProxyWait q \<in># pl_threads (pool_of W)"
  by (simp_all add: pool_of_def)

text \<open>A thread that is started by a request and then runs.\<close>

lemma spawn_runs:
  assumes "pool_step uni mac new_limiter lim_allow P (P\<lparr>pl_server := s', pl_threads := add_mset t (pl_threads P)\<rparr>)"
    and "thread_runs uni mac (sv_auth s') (sv_proxy s') (Some t, sv_gateway s') (t', g')"
  shows "(pool_step uni mac new_limiter lim_allow)\<^sup>*\<^sup>* P
    (P\<lparr>pl_server := s'\<lparr>sv_gateway := g'\<rparr>, pl_threads := pl_threads P + threads_of t'\<rparr>)"
proof -
  let ?P = "P\<lparr>pl_server := s', pl_threads := add_mset t (pl_threads P)\<rparr>"
  have "(pool_step uni mac new_limiter lim_allow)\<^sup>*\<^sup>* ?P (replace_thread t t' g' ?P)"
    by (rule runs_in_pool) (use assms(2) in simp_all)
  with assms(1) have "(pool_step uni mac new_limiter lim_allow)\<^sup>*\<^sup>* P (replace_thread t t' g' ?P)"
    by (rule converse_rtranclp_into_rtranclp)
  then show ?thesis by (simp add: replace_thread_def)
qed

lemma spawn_connect:
  assumes "ae_mac env = mac" "server_handle new_limiter lim_allow env (wd_server W) r new_response = (Continue ToConnect, s')"
    and "thread_runs uni mac (sv_auth s') (sv_proxy s') (Some (ConnAuth ws), sv_gateway s') (t', g')"
  shows "(pool_step uni mac new_limiter lim_allow)\<^sup>*\<^sup>* (pool_of W)
    ((pool_of W)\<lparr>pl_server := s'\<lparr>sv_gateway := g'\<rparr>, pl_threads := pl_threads (pool_of W) + threads_of t'\<rparr>)"
proof (rule spawn_runs [OF _ assms(3)])
  have "pool_step uni mac new_limiter lim_allow (pool_of W)
      ((pool_of W)\<lparr>pl_server := s', pl_threads := pl_threads (pool_of W) + conn_upgrade (Some ws)\<rparr>)"
    by (rule pool_step.pool_connect [where r = r, OF assms(1)]) (simp add: assms(2))
  then show "pool_step uni mac new_limiter lim_allow (pool_of W)
      ((pool_of W)\<lparr>pl_server := s', pl_threads := add_mset (ConnAuth ws) (pl_threads (pool_of W))\<rparr>)"
    by simp
qed

lemma spawn_proxy:
  assumes "ae_mac env = mac" "server_handle new_limiter lim_allow env (wd_server W) r new_response = (Continue ToProxy, s')"
    and "thread_runs uni mac (sv_auth s') (sv_proxy s') (Some (ProxyLookup r new_response), sv_gateway s') (t', g')"
  shows "(pool_step uni mac new_limiter lim_allow)\<^sup>*\<^sup>* (pool_of W)
    ((pool_of W)\<lparr>pl_server := s'\<lparr>sv_gateway := g'\<rparr>, pl_threads := pl_threads (pool_of W) + threads_of t'\<rparr>)"
  by (rule spawn_runs [OF pool_step.pool_proxy [where r = r, OF assms(1)] assms(3)]) (simp add: assms(2))

lemma gateway_step_pool:
  assumes "gateway_step uni mac new_limiter lim_allow W W'"
  shows "(pool_step uni mac new_limiter lim_allow)\<^sup>*\<^sup>* (pool_of W) (pool_of W')"
  using assms
proof cases
  case (step_http env r act s')
  have "pool_step uni mac new_limiter lim_allow (pool_of W) ((pool_of W)\<lparr>pl_server := s'\<rparr>)"
    by (rule pool_step.pool_http [where r = r, OF step_http(2) _ step_http(4,5)]) (simp add: step_http(3))
  moreover have "(pool_of W)\<lparr>pl_server := s'\<rparr> = pool_of W'" by (simp add: step_http(1) pool_of_def)
  ultimately show ?thesis by simp
next
  case (step_refuse env r s' wok clock order ws raw g')
  from spawn_connect [OF step_refuse(2,3) runs_connect [OF step_refuse(4)]] show ?thesis
    by (simp add: step_refuse(1) pool_of_def set_gateway_def)
next
  case (step_connect env r s' wok clock order ws raw ss g')
  from spawn_connect [OF step_connect(2,3) runs_connect [OF step_connect(4)]] show ?thesis
    by (simp add: step_connect(1) pool_of_def set_gateway_def)
next
  case (step_read ss clock d raw g')
  from runs_read [OF step_read(3)]
  have "(pool_step uni mac new_limiter lim_allow)\<^sup>*\<^sup>* (pool_of W) (replace_thread (Reading ss) (Some (Reading ss)) g' (pool_of W))"
    by (intro runs_in_pool) (simp_all add: step_read(2))
  then show ?thesis
    using step_read(2) by (simp add: step_read(1) replace_thread_def pool_of_def set_gateway_def)
next
  case (step_disconnect ss order)
  have "(pool_step uni mac new_limiter lim_allow)\<^sup>*\<^sup>* (pool_of W)
      (replace_thread (Reading ss) None (server_disconnect order ss (wd_gateway W)) (pool_of W))"
    by (intro runs_in_pool) (simp_all add: step_disconnect(2) runs_disconnect)
  then show ?thesis
    using step_disconnect(2)
    by (simp add: step_disconnect(1) replace_thread_def pool_of_def set_gateway_def image_mset_Diff)
next
  case (step_answer env r s' wok res g')
  have "thread_runs uni mac (sv_auth s') (sv_proxy s') (Some (ProxyLookup r new_response), sv_gateway s') (None, g')"
    using runs_proxy [OF step_answer(4), unfolded phase_thread.simps] runs_replied by (rule rtranclp_trans)
  from spawn_proxy [OF step_answer(2,3) this] show ?thesis
    by (simp add: step_answer(1) pool_of_def set_gateway_def)
next
  case (step_wait env r s' wok c ref g')
  from spawn_proxy [OF step_wait(2,3) runs_proxy [OF step_wait(4)]] show ?thesis
    by (simp add: step_wait(1) pool_of_def set_gateway_def)
next
  case (step_finish q sc order res g')
  have "thread_runs uni mac (sv_auth (wd_server W)) (sv_proxy (wd_server W)) (Some (ProxyWait q), wd_gateway W) (None, g')"
    using runs_finish [OF step_finish(3,4)] runs_replied by (rule rtranclp_trans)
  then have "(pool_step uni mac new_limiter lim_allow)\<^sup>*\<^sup>* (pool_of W) (replace_thread (ProxyWait q) None g' (pool_of W))"
    by (intro runs_in_pool) (simp_all add: step_finish(2))
  then show ?thesis
    using step_finish(2)
    by (simp add: step_finish(1) replace_thread_def pool_of_def set_gateway_def image_mset_Diff)
next
  case (step_cleanup s' order now)
  have "pool_step uni mac new_limiter lim_allow (pool_of W) ((pool_of W)\<lparr>pl_server := s'\<rparr>)"
    by (rule pool_step.pool_cleanup [where order = order and now = now]) (simp add: step_cleanup(2))
  moreover have "(pool_of W)\<lparr>pl_server := s'\<rparr> = pool_of W'" by (simp add: step_cleanup(1) pool_of_def)
  ultimately show ?thesis by simp
qed

interpretation gateway: step_simulation "gateway_step uni mac new_limiter lim_allow" "pool_step uni mac new_limiter lim_allow" pool_of
  for uni mac and new_limiter :: "int \<Rightarrow> int \<Rightarrow> 'lim" and lim_allow
  by unfold_locales (rule gateway_step_pool)

subsection \<open>Isolation\<close>

lemma Close_other_stream: "open_on b c i \<noteq> Some ref \<Longrightarrow> stream_heap (br_CloseStream b c i) ref = stream_heap b ref"
  by (auto simp: br_CloseStream_def open_on_def close_refs_def split: option.split)

lemma put_other_stream: "r \<noteq> ref \<Longrightarrow> stream_heap (put_response r data b) ref = stream_heap b ref"
  by (auto simp: put_response_def)

text \<open>What a message of one connection does to a stream that this connection neither lists nor delivers to.\<close>

lemma message_isolated:
  assumes "t \<in> {Reading ss, Beating ss is, Delivering ss r data}"
    and "advance uni mac auth px inp t g = Some (t', g')"
    and "\<And>i. open_on (gw_broker g) (ss_conn ss) i \<noteq> Some ref" "thread_target t \<noteq> Some (ss_conn ss, ref)" "c \<noteq> ss_conn ss"
  shows "stream_heap (gw_broker g') ref = stream_heap (gw_broker g) ref \<and> open_on (gw_broker g') c = open_on (gw_broker g) c"
proof -
  consider (read) "t = Reading ss" | (beat) "t = Beating ss is" | (deliver) "t = Delivering ss r data"
    using assms(1) by blast
  then show ?thesis
  proof cases
    case read
    have "gw_broker g' = gw_broker g \<or> (\<exists>i. gw_broker g' = br_CloseStream (gw_broker g) (ss_conn ss) i)"
      using assms(2) unfolding read
      by (auto simp: conn_read_def handleCloseStream_def split: option.splits sum.splits prod.splits if_splits)
    then show ?thesis
      using Close_other_stream [OF assms(3)] assms(5) by (auto simp: Close_effect(8) fun_eq_iff)
  next
    case beat
    have "gw_broker g' = gw_broker g" using assms(2) unfolding beat by (cases "is") auto
    then show ?thesis by simp
  next
    case deliver
    with assms(4) have "r \<noteq> ref" by auto
    then have "stream_heap (put_response r data (gw_broker g)) ref = stream_heap (gw_broker g) ref"
      by (rule put_other_stream)
    then show ?thesis
      using assms(2) unfolding deliver by (auto simp: conn_deliver_def split: option.splits if_splits deliver.splits)
  qed
qed

lemma Remove_other_stream:
  assumes "\<And>d i. connections b cid = Some d \<Longrightarrow> open_on b d i \<noteq> Some ref"
  shows "stream_heap (br_RemoveConnection order b cid) ref = stream_heap b ref"
proof (cases "connections b cid")
  case (Some d)
  have "ref \<notin> set (List.map_filter (case conn_heap b d of None \<Rightarrow> Map.empty | Some conn \<Rightarrow> cc_Streams conn) order)"
    using assms [OF Some] by (auto simp: open_on_def map_filter_def split: option.splits)
  with Some show ?thesis by (simp add: br_RemoveConnection_def Let_def close_refs_def)
qed (simp add: br_RemoveConnection_def)

text \<open>The same for every step of a session; only the end of the cleanup looks a connection up by its ID.\<close>

lemma session_isolated:
  assumes "thread_session t = Some ss" "advance uni mac auth px inp t g = Some (t', g')"
    and "\<And>i. open_on (gw_broker g) (ss_conn ss) i \<noteq> Some ref" "thread_target t \<noteq> Some (ss_conn ss, ref)" "c \<noteq> ss_conn ss"
    and "\<And>d i. t = Cleaning ss [] \<Longrightarrow> connections (gw_broker g) (ss_connID ss) = Some d \<Longrightarrow> open_on (gw_broker g) d i \<noteq> Some ref"
  shows "stream_heap (gw_broker g') ref = stream_heap (gw_broker g) ref \<and> open_on (gw_broker g') c = open_on (gw_broker g) c"
proof (cases t)
  case (ConnLoop s u tcs)
  have "open_on (set_tunnels d ids b) = open_on b" for d ids b
    by (auto simp: set_tunnels_def open_on_def fun_eq_iff split: option.splits)
  with ConnLoop assms(1,2) show ?thesis by (cases tcs) (auto split: prod.splits option.splits)
next
  case (Reading s)
  with assms(1) have "t \<in> {Reading ss, Beating ss [], Delivering ss 0 []}" by simp
  then show ?thesis by (rule message_isolated) (use assms in auto)
next
  case (Beating s ids)
  with assms(1) have "t \<in> {Reading ss, Beating ss ids, Delivering ss 0 []}" by simp
  then show ?thesis by (rule message_isolated) (use assms in auto)
next
  case (Delivering s r d)
  with assms(1) have "t \<in> {Reading ss, Beating ss [], Delivering ss r d}" by simp
  then show ?thesis by (rule message_isolated) (use assms in auto)
next
  case (Cleaning s ids)
  with assms(1,2,6) show ?thesis
    by (cases ids) (auto simp: Remove_effect Remove_other_stream split: sum.splits)
next
  case (Unmapping s sub i ids)
  with assms(2) show ?thesis by (auto simp: br_UnmapSubdomain_def open_on_def fun_eq_iff)
next
  case (ConnMap s u tc tcs)
  with assms(2) show ?thesis by (auto simp: conn_map_def br_MapSubdomain_def open_on_def fun_eq_iff)
next
  case (Unregistering s i ids)
  with assms(2) show ?thesis by (auto simp: conn_unregister_def split: prod.splits option.splits)
qed (use assms(1,2) in auto)

lemma users_two: "{#t, u#} \<subseteq># T \<Longrightarrow> users ref T \<le> 1 \<Longrightarrow>
  map_option snd (thread_stream t) = Some ref \<Longrightarrow> map_option snd (thread_stream u) \<noteq> Some ref"
  by (auto simp: users_add mset_subset_eq_exists_conv)

subsection \<open>Properties\<close>

text \<open>C12. A run of the gateway whose steps are whole handlers is an interleaving of the goroutines: what
  \<open>Gateway_System\<close> can reach, the threads can reach when each handler's calls happen to follow each
  other, the running sessions being threads that wait for a message and the waiting requests threads that
  wait for a response.\<close>

theorem coarse_runs_are_interleavings:
  assumes "gateway_reachable uni mac new_limiter lim_allow W W'"
  shows "pool_reachable uni mac new_limiter lim_allow (pool_of W) (pool_of W')"
  using assms unfolding gateway_reachable_def pool_reachable_def by (rule gateway.sim_steps)

text \<open>The example gateway whose session ends.\<close>

theorem coarse_runs_are_interleavings_witness:
  "\<exists>P. pool_reachable id ex_mac ex_new ex_allow (pool_of ex_world) P \<and> pl_threads P = {#ProxyWait ex_waiter#}"
proof -
  let ?W = "set_gateway (server_disconnect [1] ex_session (wd_gateway ex_world))
    (ex_world\<lparr>wd_sessions := remove1 ex_session (wd_sessions ex_world)\<rparr>)"
  have "gateway_step id ex_mac ex_new ex_allow ex_world ?W"
    by (rule gateway_step.step_disconnect) (simp add: ex_world_def)
  then have r: "gateway_reachable id ex_mac ex_new ex_allow ex_world ?W" by (simp add: gateway_reachable_def)
  have "pl_threads (pool_of ?W) = {#ProxyWait ex_waiter#}" by (simp add: pool_of_def) (simp add: ex_world_def)
  with coarse_runs_are_interleavings [OF r] show ?thesis by blast
qed

text \<open>The invariant holds when the server starts, and in the example.\<close>

lemma pool_inv_start:
  "NewServer uni open_file cfg = Inr s \<Longrightarrow> pool_inv mac \<lparr>pl_server = s, pl_threads = {#}\<rparr>"
  using world_inv_start [of uni open_file cfg s mac]
  by (simp add: pool_inv_def world_inv_def start_world_def users_def agree_def)

lemma ex_pool_inv: "pool_inv ex_mac (pool_of ex_world)"
proof -
  have b: "conn_id ex_broker 0 = Some ''c1''" "stream_id ex_broker 0 = Some 1" "open_on ex_broker d i = Some 0 \<longrightarrow> d = 0" for d i
    by (auto simp: ex_broker_def broker_eval conn_id_def stream_id_def open_on_def split: if_splits)
  have "thread_ok ex_broker (Reading ex_session)" "thread_ok ex_broker (ProxyWait ex_waiter)"
    using b by (simp_all add: thread_ok_def owned_def ex_session_def ex_waiter_def new_response_def)
  with ex_broker_inv ex_store_inv show ?thesis
    by (simp add: pool_inv_def pool_of_def ex_world_def ex_gateway_def users_def agree_def)
qed

text \<open>C11. However the goroutines of the gateway interleave, their references stay valid: the connection of a
  session is allocated and has the session's ID, the stream a request uses is allocated, listed by no
  connection but the one the request goes to, and used by no other request, and a request that is not
  answered yet has written nothing. A server that has just started satisfies the invariant
  (\<open>pool_inv_start\<close>).\<close>

theorem interleaved_references_valid:
  assumes "pool_inv mac P0" "pool_reachable uni mac new_limiter lim_allow P0 P" "t \<in># pl_threads P"
  shows "(thread_session t = Some ss \<longrightarrow> conn_id (pl_broker P) (ss_conn ss) = Some (ss_connID ss))
    \<and> (thread_stream t = Some (c, ref) \<longrightarrow> stream_id (pl_broker P) ref \<noteq> None
        \<and> (\<forall>d i. open_on (pl_broker P) d i = Some ref \<longrightarrow> d = c)
        \<and> (\<forall>u \<in># pl_threads P - {#t#}. \<forall>d. thread_stream u \<noteq> Some (d, ref)))
    \<and> (thread_writer t = Some w \<longrightarrow> w_status w = None)"
proof -
  have "pool_inv mac P" using assms(2,1) unfolding pool_reachable_def by (rule pools.inv_steps)
  note inv = pool_invD [OF this]
  have ok: "thread_ok (pl_broker P) t" using assms(3) by (rule inv(3))
  have target: "owned (pl_broker P) c ref" if "thread_stream t = Some (c, ref)"
    using ok thread_stream_target [OF that] by (simp add: thread_ok_def)
  have alone: "thread_stream u \<noteq> Some (d, ref)"
    if "thread_stream t = Some (c, ref)" "u \<in># pl_threads P - {#t#}" for u d
  proof -
    have "{#t, u#} \<subseteq># pl_threads P" using assms(3) that(2) by (simp add: insert_subset_eq_iff)
    from users_two [OF this inv(4) [of ref]] that(1) show ?thesis by auto
  qed
  show ?thesis
  proof (intro conjI impI ballI allI)
    show "conn_id (pl_broker P) (ss_conn ss) = Some (ss_connID ss)" if "thread_session t = Some ss"
      using ok that by (simp add: thread_ok_def)
    show "w_status w = None" if "thread_writer t = Some w" using ok that by (simp add: thread_ok_def)
    show "d = c" if "thread_stream t = Some (c, ref)" "open_on (pl_broker P) d i = Some ref" for d i
      using target [OF that(1)] that(2) by (auto simp: owned_def)
  qed (use target alone in \<open>simp_all add: owned_def\<close>)
qed

theorem interleaved_references_valid_witness:
  "conn_id (pl_broker (pool_of ex_world)) 0 = Some ''c1'' \<and>
     open_on (pl_broker (pool_of ex_world)) 3 7 \<noteq> Some 0"
proof -
  have r: "pool_reachable id ex_mac ex_new ex_allow (pool_of ex_world) (pool_of ex_world)" by (simp add: pool_reachable_def)
  have t: "Reading ex_session \<in># pl_threads (pool_of ex_world)" "ProxyWait ex_waiter \<in># pl_threads (pool_of ex_world)"
    by (simp_all add: ex_world_def)
  from interleaved_references_valid [OF ex_pool_inv r t(1), of ex_session]
  have "conn_id (pl_broker (pool_of ex_world)) 0 = Some ''c1''" by (simp add: ex_session_def)
  moreover from interleaved_references_valid [OF ex_pool_inv r t(2), of ex_session 0 0]
  have "open_on (pl_broker (pool_of ex_world)) 3 7 \<noteq> Some 0" by (auto simp: ex_waiter_def)
  ultimately show ?thesis by simp
qed

text \<open>C4. Clients are isolated: nothing that a client's session does (registering its tunnels, handling data
  or close messages for any stream number and heartbeats, cleaning up after it), at whatever point of a
  request that was sent over another connection, touches that request's stream: it keeps its buffered
  response and its state and stays listed as it was, so the client can neither answer nor abort it. One
  step is excepted: the removal of the connection at the end of the cleanup, when the request's
  connection is the one found under the session's connection ID. That happens only when two clients use
  the same ID, and then the end of one session does close the streams of the other. A server that has
  just started satisfies the invariant (\<open>pool_inv_start\<close>).\<close>

theorem tenant_isolation:
  assumes "pool_inv mac P0" "pool_reachable uni mac new_limiter lim_allow P0 P"
    and "t \<in># pl_threads P" "thread_session t = Some ss"
    and "t = Cleaning ss [] \<longrightarrow> connections (pl_broker P) (ss_connID ss) \<noteq> Some c"
    and "u \<in># pl_threads P" "thread_stream u = Some (c, ref)" "c \<noteq> ss_conn ss"
    and "advance uni mac (sv_auth (pl_server P)) (sv_proxy (pl_server P)) inp t (pl_gateway P) = Some (t', g')"
  shows "stream_heap (gw_broker g') ref = stream_heap (pl_broker P) ref \<and>
    open_on (gw_broker g') c = open_on (pl_broker P) c"
proof (rule session_isolated [OF assms(4,9)])
  have "pool_inv mac P" using assms(2,1) unfolding pool_reachable_def by (rule pools.inv_steps)
  note inv = pool_invD [OF this]
  have u: "thread_target u = Some (c, ref)" using assms(7) by (rule thread_stream_target)
  with inv(3) [OF assms(6)] have own: "owned (pl_broker P) c ref" by (simp add: thread_ok_def)
  show "open_on (pl_broker P) (ss_conn ss) i \<noteq> Some ref" for i using own assms(8) by (auto simp: owned_def)
  show "thread_target t \<noteq> Some (ss_conn ss, ref)"
  proof
    assume "thread_target t = Some (ss_conn ss, ref)"
    from agreeD [OF inv(5) assms(3,6) this u] assms(8) show False by simp
  qed
  show "open_on (pl_broker P) d i \<noteq> Some ref"
    if "t = Cleaning ss []" "connections (pl_broker P) (ss_connID ss) = Some d" for d i
    using own assms(5) that by (auto simp: owned_def)
qed (rule assms(8))

text \<open>A second client, on connection 1 of the example, tries to close stream 1 of the first.\<close>

definition ex_intruder :: session where
  "ex_intruder = \<lparr>ss_ws = 8, ss_conn = 1, ss_connID = ''c2'', ss_tunnelIDs = []\<rparr>"

definition ex_pool2 :: "token_bucket pool" where
  "ex_pool2 = \<lparr>pl_server = (wd_server ex_world)\<lparr>sv_gateway := ex_gateway\<lparr>gw_broker :=
       snd (br_AddConnection ex_broker ''c2'' ''user2'' 8)\<rparr>\<rparr>,
     pl_threads = {#Reading ex_intruder, ProxyWait ex_waiter#}\<rparr>"

lemma ex_pool2_inv: "pool_inv ex_mac ex_pool2"
proof -
  let ?b = "snd (br_AddConnection ex_broker ''c2'' ''user2'' 8)"
  have b: "conn_id ?b 1 = Some ''c2''" "stream_id ?b 0 = Some 1" "open_on ?b d i = Some 0 \<longrightarrow> d = 0" for d i
    by (auto simp: ex_broker_def broker_eval conn_id_def stream_id_def open_on_def split: if_splits)
  have "thread_ok ?b (Reading ex_intruder)" "thread_ok ?b (ProxyWait ex_waiter)"
    using b by (simp_all add: thread_ok_def owned_def ex_intruder_def ex_waiter_def new_response_def)
  with broker_inv_Add [OF ex_broker_inv] ex_store_inv show ?thesis
    by (simp add: pool_inv_def ex_pool2_def ex_world_def ex_gateway_def users_def agree_def)
qed

lemma conn_read_close:
  assumes "in_msg inp = Some raw" "read_message raw = Some (MCloseStream cs)"
    and "cs_StreamID cs = FormatUint (unat (sid :: 32 word))"
  shows "conn_read inp ss g = (Some (Reading ss), g\<lparr>gw_broker := br_CloseStream (gw_broker g) (ss_conn ss) sid\<rparr>)"
proof -
  have "ParseUint32 (cs_StreamID cs) = Some (unat sid)" unfolding assms(3) by (rule ParseUint32_word)
  with assms(1,2) show ?thesis
    by (auto simp: read_message_def conn_read_def handleCloseStream_def to_option_def frame_types
        split: sum.splits if_splits)
qed

theorem tenant_isolation_witness:
  "stream_heap (br_CloseStream (pl_broker ex_pool2) 1 1) 0 = stream_heap (pl_broker ex_pool2) 0"
proof -
  let ?raw = "EncodeFrame FrameCloseStream (bytes_of_string (json_print (enc_CloseStream ex_close)))"
  let ?g = "(pl_gateway ex_pool2)\<lparr>gw_broker := br_CloseStream (pl_broker ex_pool2) 1 1\<rparr>"
  have r: "pool_reachable id ex_mac ex_new ex_allow ex_pool2 ex_pool2" by (simp add: pool_reachable_def)
  have t: "Reading ex_intruder \<in># pl_threads ex_pool2" "ProxyWait ex_waiter \<in># pl_threads ex_pool2"
    by (simp_all add: ex_pool2_def)
  have "conn_read (some_input\<lparr>in_msg := Some ?raw\<rparr>) ex_intruder (pl_gateway ex_pool2) = (Some (Reading ex_intruder), ?g)"
    using conn_read_close [OF _ ex_close_read, of "some_input\<lparr>in_msg := Some ?raw\<rparr>" 1 ex_intruder "pl_gateway ex_pool2"]
      ex_one by (simp add: ex_close_def [THEN arg_cong [of _ _ cs_StreamID]] ex_intruder_def [THEN arg_cong [of _ _ ss_conn]])
  then have a: "advance id ex_mac (sv_auth (pl_server ex_pool2)) (sv_proxy (pl_server ex_pool2))
      (some_input\<lparr>in_msg := Some ?raw\<rparr>) (Reading ex_intruder) (pl_gateway ex_pool2) = Some (Some (Reading ex_intruder), ?g)"
    by simp
  have f: "thread_session (Reading ex_intruder) = Some ex_intruder"
    "thread_stream (ProxyWait ex_waiter) = Some (0, 0)" "0 \<noteq> ss_conn ex_intruder"
    by (simp_all add: ex_waiter_def ex_intruder_def)
  from tenant_isolation [OF ex_pool2_inv r t(1) f(1) _ t(2) f(2,3) a] show ?thesis by simp
qed

subsection \<open>A race\<close>

lemma pool_runs:
  assumes "thread_runs uni mac (sv_auth s) (sv_proxy s) (Some t, sv_gateway s) (t', g')"
  shows "pool_reachable uni mac new_limiter lim_allow \<lparr>pl_server = s, pl_threads = add_mset t T\<rparr>
    \<lparr>pl_server = s\<lparr>sv_gateway := g'\<rparr>, pl_threads = T + threads_of t'\<rparr>"
  using runs_in_pool [where P = "\<lparr>pl_server = s, pl_threads = add_mset t T\<rparr>", simplified, OF assms]
  by (simp add: pool_reachable_def replace_thread_def)

text \<open>A client with one tunnel, from the start of the loop over its tunnels to its read loop.\<close>

lemma runs_register_one:
  assumes "mr_Register (gw_registry g) (new_tunnel now now (ss_connID ss) u tc) = (None, reg)"
  shows "\<exists>g'. thread_runs uni mac auth px (Some (ConnLoop ss u [tc]), g)
      (Some (Reading (ss\<lparr>ss_tunnelIDs := ss_tunnelIDs ss @ [ss_connID ss @ ''-'' @ tc_Subdomain tc]\<rparr>)), g') \<and>
    gw_registry g' = reg"
proof -
  let ?ss = "ss\<lparr>ss_tunnelIDs := ss_tunnelIDs ss @ [ss_connID ss @ ''-'' @ tc_Subdomain tc]\<rparr>"
  let ?inp = "some_input\<lparr>in_clock := \<lambda>_. now\<rparr>"
  let ?g1 = "g\<lparr>gw_registry := reg\<rparr>"
  let ?g2 = "?g1\<lparr>gw_broker := br_MapSubdomain (gw_broker g) (tc_Subdomain tc) (ss_connID ss),
      gw_metrics := IncActiveTunnels (gw_metrics g)\<rparr>"
  let ?g3 = "?g2\<lparr>gw_broker := set_tunnels (ss_conn ss) (ss_tunnelIDs ?ss) (gw_broker ?g2)\<rparr>"
  let ?g4 = "sendControlResponse (in_wok ?inp) (ss_ws ss) CodeOK ''registered'' ?g3"
  have 1: "advance uni mac auth px ?inp (ConnLoop ss u [tc]) g = Some (Some (ConnMap ss u tc []), ?g1)"
    using assms by simp
  have 2: "advance uni mac auth px ?inp (ConnMap ss u tc []) ?g1 = Some (Some (ConnLoop ?ss u []), ?g2)"
    by (simp add: conn_map_def)
  have 3: "advance uni mac auth px ?inp (ConnLoop ?ss u []) ?g2 = Some (Some (ConnWelcome ?ss), ?g3)" by simp
  have 4: "advance uni mac auth px ?inp (ConnWelcome ?ss) ?g3 = Some (Some (Reading ?ss), ?g4)" by simp
  from runs_step [OF 1 runs_step [OF 2 runs_step [OF 3 runs_one [OF 4]]]]
  show ?thesis by (intro exI [of _ ?g4]) simp
qed

text \<open>C34. \<open>cleanupConnection\<close> looks a tunnel up and then drops the route of its subdomain in two separate
  critical sections. When client A disconnects, its tunnel is deleted through the admin API between the
  two, and client B registers the freed subdomain before the second, then A's cleanup drops B's route:
  B's tunnel stays registered and B connected, and no request reaches it.\<close>

theorem cleanup_race_unroutes_other:
  assumes "Reading A \<in># pl_threads P" "ConnLoop B u [tc] \<in># pl_threads P" "ss_tunnelIDs A = [i]"
    and "mr_GetByID (gw_registry (pl_gateway P)) i = Inr t" "tc_Subdomain tc = tun_Subdomain t"
    and "ae_mac env = mac" "server_handle new_limiter lim_allow env (pl_server P) r new_response = (Respond res, s')"
    and "gw_registry (sv_gateway s') = snd (mr_Unregister (gw_registry (pl_gateway P)) i)"
    and "new_tunnel now now (ss_connID B) u tc = tun"
    and "mr_Register (gw_registry (sv_gateway s')) tun = (None, reg)"
  shows "\<exists>Q B'. pool_reachable uni mac new_limiter lim_allow P Q \<and>
    pl_threads Q = pl_threads P - {#Reading A, ConnLoop B u [tc]#} + {#Unregistering A i [], Reading B'#} \<and>
    ss_conn B' = ss_conn B \<and> ss_tunnelIDs B' = ss_tunnelIDs B @ [tun_ID tun] \<and>
    gw_registry (pl_gateway Q) = reg \<and> br_GetConnectionBySubdomain (pl_broker Q) (tun_Subdomain t) = None"
proof -
  let ?s = "pl_server P" and ?sub = "tun_Subdomain t" and ?reach = "pool_reachable uni mac new_limiter lim_allow"
  let ?B = "B\<lparr>ss_tunnelIDs := ss_tunnelIDs B @ [ss_connID B @ ''-'' @ tc_Subdomain tc]\<rparr>"
  obtain N where N: "pl_threads P = add_mset (Reading A) N" using multi_member_split [OF assms(1)] by blast
  with assms(2) have "ConnLoop B u [tc] \<in># N" by simp
  then obtain M where M: "pl_threads P = {#Reading A, ConnLoop B u [tc]#} + M"
    using N by (auto dest: multi_member_split)
  have A1: "thread_runs uni mac (sv_auth ?s) (sv_proxy ?s) (Some (Reading A), sv_gateway ?s)
      (Some (Unmapping A ?sub i []), sv_gateway ?s)"
  proof (rule runs_step)
    show "advance uni mac (sv_auth ?s) (sv_proxy ?s) some_input (Reading A) (sv_gateway ?s)
        = Some (Some (Cleaning A [i]), sv_gateway ?s)"
      by (simp add: conn_read_def some_input_def assms(3))
    show "thread_runs uni mac (sv_auth ?s) (sv_proxy ?s) (Some (Cleaning A [i]), sv_gateway ?s)
        (Some (Unmapping A ?sub i []), sv_gateway ?s)"
      by (rule runs_one [where inp = some_input]) (simp add: assms(4))
  qed
  obtain g where B: "thread_runs uni mac (sv_auth s') (sv_proxy s') (Some (ConnLoop B u [tc]), sv_gateway s') (Some (Reading ?B), g)"
    "gw_registry g = reg"
    using runs_register_one assms(10) [folded assms(9)] by blast
  let ?s1 = "s'\<lparr>sv_gateway := g\<rparr>" and ?g = "g\<lparr>gw_broker := br_UnmapSubdomain (gw_broker g) ?sub\<rparr>"
  have A2: "thread_runs uni mac (sv_auth ?s1) (sv_proxy ?s1) (Some (Unmapping A ?sub i []), sv_gateway ?s1)
      (Some (Unregistering A i []), ?g)"
    by (rule runs_one [where inp = some_input]) simp
  let ?P1 = "\<lparr>pl_server = ?s, pl_threads = {#ConnLoop B u [tc], Unmapping A ?sub i []#} + M\<rparr>"
  let ?P2 = "\<lparr>pl_server = s', pl_threads = {#ConnLoop B u [tc], Unmapping A ?sub i []#} + M\<rparr>"
  let ?P3 = "\<lparr>pl_server = ?s1, pl_threads = {#Unmapping A ?sub i [], Reading ?B#} + M\<rparr>"
  let ?Q = "\<lparr>pl_server = ?s1\<lparr>sv_gateway := ?g\<rparr>, pl_threads = {#Reading ?B, Unregistering A i []#} + M\<rparr>"
  have start: "\<lparr>pl_server = ?s, pl_threads = add_mset (Reading A) (add_mset (ConnLoop B u [tc]) M)\<rparr> = P" using M by simp
  have "?reach P ?P1" using pool_runs [OF A1, where T = "add_mset (ConnLoop B u [tc]) M", unfolded start]
    by (simp add: add_mset_commute)
  moreover have "?reach ?P1 ?P2"
    using pool_step.pool_http [of env mac new_limiter lim_allow ?P1 r "Respond res" s'] assms(6,7)
    by (simp add: pool_reachable_def r_into_rtranclp)
  moreover have "?reach ?P2 ?P3" using pool_runs [OF B(1), where T = "add_mset (Unmapping A ?sub i []) M"]
    by (simp add: add_mset_commute)
  moreover have "?reach ?P3 ?Q" using pool_runs [OF A2, where T = "add_mset (Reading ?B) M"]
    by (simp add: add_mset_commute)
  ultimately have "?reach P ?Q" unfolding pool_reachable_def by (meson rtranclp_trans)
  moreover have "br_GetConnectionBySubdomain (gw_broker ?g) ?sub = None" "tun_ID tun = ss_connID B @ ''-'' @ tc_Subdomain tc"
    using assms(9) by (auto simp: br_GetConnectionBySubdomain_def br_UnmapSubdomain_def new_tunnel_def)
  ultimately show ?thesis using M B(2) by (intro exI [of _ ?Q] exI [of _ ?B]) (simp add: add_mset_commute)
qed

text \<open>The example's client ''c1'' loses its connection, while ''c2'' registers its subdomain.\<close>

definition ex_pool3 :: "token_bucket pool" where
  "ex_pool3 = \<lparr>pl_server = wd_server ex_world,
     pl_threads = {#Reading ex_session, ConnLoop \<lparr>ss_ws = 8, ss_conn = 1, ss_connID = ''c2'', ss_tunnelIDs = []\<rparr> ''user2''
       [\<lparr>tc_Name = ''web'', tc_Protocol = ''http'', tc_Port = 80, tc_Subdomain = ''app''\<rparr>]#}\<rparr>"

lemma ex_delete:
  "\<exists>res s'. server_handle ex_new ex_allow ex_env (wd_server ex_world)
      (ex_auth_request ''DELETE'' ''/api/v1/tunnels/c1-app'' None) new_response = (Respond res, s') \<and>
    gw_registry (sv_gateway s') = snd (mr_Unregister ex_registry ''c1-app'')"
proof -
  let ?r = "ex_auth_request ''DELETE'' ''/api/v1/tunnels/c1-app'' None"
  have path: "cleanPath ''/api/v1/tunnels/c1-app'' = ''/api/v1/tunnels/c1-app''"
    "path_segments ''/api/v1/tunnels/c1-app'' = [''api'', ''v1'', ''tunnels'', ''c1-app'']"
    "TrimPrefix ''/api/v1/tunnels/c1-app'' ''/api/v1/tunnels/'' = ''c1-app''"
    by code_simp+
  have "mux_find server_mux [''api'', ''v1'', ''tunnels'', ''c1-app''] = Some ToAdmin"
    "mux_find admin_mux [''api'', ''v1'', ''tunnels'', ''c1-app''] = Some RTunnelByID"
    by code_simp+
  with path have routes: "mux_route server_mux ?r = Route ToAdmin" "mux_route admin_mux ?r = Route RTunnelByID"
    by (simp_all add: mux_route_def ex_auth_request_def mux_exact_def admin_mux_def server_mux_def)
  have h: "snd (handleTunnelByID ex_env ex_admin ?r new_response) = ex_admin\<lparr>adm_registry := snd (mr_Unregister ex_registry ''c1-app'')\<rparr>"
    using path(3) by (simp add: handleTunnelByID_def ex_auth_request_def ex_admin_def NewAdminAPI_def admin_reply_def
        split: prod.split option.split)
  obtain res a' where adm: "admin_Handler ex_env ex_admin ?r new_response = (Served res, a')"
    "adm_registry a' = snd (mr_Unregister ex_registry ''c1-app'')"
    using h routes(2) by (simp add: admin_Handler_def requireAdmin_pass [OF ex_authorized] case_prod_unfold)
  obtain rl where mid: "rl_Middleware ex_new ex_allow (ae_seen ex_env) (ae_taken ex_env) (sv_rateLimiter (wd_server ex_world)) ?r new_response
      = (Inr new_response, rl)"
    by (auto simp: rl_Middleware_def rl_Allow_def rl_visit_def rl_take_def ex_world_def NewRateLimiter_def ex_new_def
        ex_allow_def tb_advance_def ex_env_def)
  have "NewAdminAPI (sv_auth (wd_server ex_world)) (gw_registry (wd_gateway ex_world)) (gw_metrics (wd_gateway ex_world)) = ex_admin"
    by (simp add: ex_world_def ex_gateway_def ex_admin_def)
  with mid routes(1) adm show ?thesis by (simp add: server_handle_def)
qed

theorem cleanup_race_unroutes_other_witness:
  "\<exists>Q. pool_reachable id ex_mac ex_new ex_allow ex_pool3 Q \<and>
     mr_GetBySubdomain (gw_registry (pl_gateway Q)) ''app'' \<noteq> Inl ErrTunnelNotFound \<and>
     br_GetConnectionBySubdomain (pl_broker Q) ''app'' = None"
proof -
  let ?tc = "\<lparr>tc_Name = ''web'', tc_Protocol = ''http'', tc_Port = 80, tc_Subdomain = ''app''\<rparr>"
  let ?B = "\<lparr>ss_ws = 8, ss_conn = 1, ss_connID = ''c2'', ss_tunnelIDs = []\<rparr>"
  let ?r = "ex_auth_request ''DELETE'' ''/api/v1/tunnels/c1-app'' None"
  obtain res s' where d: "server_handle ex_new ex_allow ex_env (wd_server ex_world) ?r new_response = (Respond res, s')"
    "gw_registry (sv_gateway s') = snd (mr_Unregister ex_registry ''c1-app'')"
    using ex_delete by blast
  have reg: "gw_registry (pl_gateway ex_pool3) = ex_registry"
    by (simp add: ex_pool3_def ex_world_def ex_gateway_def)
  have get: "mr_GetByID (gw_registry (pl_gateway ex_pool3)) ''c1-app'' = Inr (ex_tunnel\<lparr>tun_TTL := 60\<rparr>)"
    unfolding reg by (simp add: mr_GetByID_def ex_registry_tunnels)
  obtain reg' where new: "mr_Register (gw_registry (sv_gateway s')) (new_tunnel 0 0 ''c2'' ''user2'' ?tc) = (None, reg')"
    "subdomainIndex reg' ''app'' = Some ''c2-app''"
    unfolding d(2) by (simp add: mr_Register_def mr_Unregister_def ex_registry_def new_tunnel_def ex_tunnel_def)
  have p: "Reading ex_session \<in># pl_threads ex_pool3" "ConnLoop ?B ''user2'' [?tc] \<in># pl_threads ex_pool3"
    "ss_tunnelIDs ex_session = [''c1-app'']" "tc_Subdomain ?tc = tun_Subdomain (ex_tunnel\<lparr>tun_TTL := 60\<rparr>)"
    "ae_mac ex_env = ex_mac" "ss_connID ?B = ''c2''" "pl_server ex_pool3 = wd_server ex_world"
    by (simp_all add: ex_pool3_def ex_session_def ex_tunnel_def ex_env_def)
  have d2: "gw_registry (sv_gateway s') = snd (mr_Unregister (gw_registry (wd_gateway ex_world)) ''c1-app'')"
    using d(2) reg p(7) by simp
  from cleanup_race_unroutes_other [where uni = id, OF p(1-3) get p(4,5), unfolded p(6,7), OF d(1) d2 refl new(1)]
  obtain Q where "pool_reachable id ex_mac ex_new ex_allow ex_pool3 Q" "gw_registry (pl_gateway Q) = reg'"
    "br_GetConnectionBySubdomain (pl_broker Q) ''app'' = None"
    by (auto simp: ex_tunnel_def)
  with new(2) show ?thesis by (intro exI [of _ Q]) (simp add: mr_GetBySubdomain_def)
qed

end
