(* ===== verification/Gateway_Liveness.thy ===== *)
theory Gateway_Liveness
  imports Gateway_Interleaving
begin

text \<open>
  No goroutine of the gateway is stuck for good, and no stream outlives its request. The tables of open
  streams list only streams of requests that still run; as long as the 32-bit stream counter has not
  wrapped around, a stream that is not closed is listed, so it has a request that will close it. A
  read loop that waits in \<open>deliverStreamData\<close> for a full buffer can therefore go on once the
  request has ended, and from every state of the thread pool all threads can run to their end.
\<close>

subsection \<open>What an action does to the broker\<close>

inductive broker_act :: "Broker \<Rightarrow> Broker \<Rightarrow> bool" for b where
  act_skip: "broker_act b b"
| act_add: "broker_act b (snd (br_AddConnection b cid u ws))"
| act_tunnels: "broker_act b (set_tunnels c ids b)"
| act_map: "broker_act b (br_MapSubdomain b sub cid)"
| act_unmap: "broker_act b (br_UnmapSubdomain b sub)"
| act_close: "broker_act b (br_CloseStream b c i)"
| act_remove: "broker_act b (br_RemoveConnection order b cid)"
| act_put: "broker_act b (put_response ref data b)"
| act_take: "broker_act b (take_response ref b)"

definition opens_stream :: "thread \<Rightarrow> bool" where
  "opens_stream t \<longleftrightarrow> (case t of ProxyOpen c tn r w \<Rightarrow> True | _ \<Rightarrow> False)"

lemma gw_send_broker: "gw_broker (snd (gw_send wok c data g)) = gw_broker g"
  using gw_send_state [of wok c data g "fst (gw_send wok c data g)" "snd (gw_send wok c data g)"] by simp

lemma give_up_broker: "gw_broker (snd (proxy_give_up c ref sid r w g)) = gw_broker g"
  by (simp add: proxy_give_up_def Let_def case_prod_unfold)

lemma send_broker:
  "gw_broker (snd (proxy_send_open wok c ref sid t r w g)) = gw_broker g"
  "gw_broker (snd (proxy_send_data wok c ref sid r w g)) = gw_broker g"
  by (auto simp: proxy_send_open_def proxy_send_data_def Let_def case_prod_unfold give_up_broker gw_send_broker
      split: sum.split option.split)

lemma act_conn:
  "conn_auth mac auth inp ws g = (t', g') \<Longrightarrow> broker_act (gw_broker g) (gw_broker g')"
  "conn_add inp ws reg token g = (t', g') \<Longrightarrow> broker_act (gw_broker g) (gw_broker g')"
  "conn_loop inp ss u tcs g = (t', g') \<Longrightarrow> broker_act (gw_broker g) (gw_broker g')"
  "conn_map ss u tc tcs g = (t', g') \<Longrightarrow> broker_act (gw_broker g) (gw_broker g')"
  "conn_read inp ss g = (t', g') \<Longrightarrow> broker_act (gw_broker g) (gw_broker g')"
  "conn_beat inp ss is g = (t', g') \<Longrightarrow> broker_act (gw_broker g) (gw_broker g')"
  "conn_deliver inp ss ref data g = Some (t', g') \<Longrightarrow> broker_act (gw_broker g) (gw_broker g')"
  "conn_clean inp ss is g = (t', g') \<Longrightarrow> broker_act (gw_broker g) (gw_broker g')"
  "conn_unregister ss i is g = (t', g') \<Longrightarrow> broker_act (gw_broker g) (gw_broker g')"
proof -
  show "conn_auth mac auth inp ws g = (t', g') \<Longrightarrow> broker_act (gw_broker g) (gw_broker g')"
    by (auto simp: conn_auth_def split: option.splits sum.splits prod.splits if_splits intro: act_skip)
  show "conn_add inp ws reg token g = (t', g') \<Longrightarrow> broker_act (gw_broker g) (gw_broker g')"
    by (auto simp: conn_add_def Let_def case_prod_unfold intro: act_add)
  show "conn_loop inp ss u tcs g = (t', g') \<Longrightarrow> broker_act (gw_broker g) (gw_broker g')"
    by (cases tcs) (auto split: prod.splits option.splits intro: act_skip act_tunnels)
  show "conn_map ss u tc tcs g = (t', g') \<Longrightarrow> broker_act (gw_broker g) (gw_broker g')"
    by (auto simp: conn_map_def intro: act_map)
  show "conn_read inp ss g = (t', g') \<Longrightarrow> broker_act (gw_broker g) (gw_broker g')"
    by (auto simp: conn_read_def handleCloseStream_def split: option.splits sum.splits prod.splits if_splits
        intro: act_skip act_close)
  show "conn_beat inp ss is g = (t', g') \<Longrightarrow> broker_act (gw_broker g) (gw_broker g')"
    by (cases "is") (auto intro: act_skip)
  show "conn_deliver inp ss ref data g = Some (t', g') \<Longrightarrow> broker_act (gw_broker g) (gw_broker g')"
    by (auto simp: conn_deliver_def split: option.splits if_splits deliver.splits intro: act_skip act_put)
  show "conn_clean inp ss is g = (t', g') \<Longrightarrow> broker_act (gw_broker g) (gw_broker g')"
    by (cases "is") (auto split: sum.splits intro: act_skip act_remove)
  show "conn_unregister ss i is g = (t', g') \<Longrightarrow> broker_act (gw_broker g) (gw_broker g')"
    by (auto simp: conn_unregister_def split: prod.splits option.splits intro: act_skip)
qed

lemma act_proxy:
  "proxy_lookup uni px r w g = (t', g') \<Longrightarrow> broker_act (gw_broker g) (gw_broker g')"
  "proxy_find sub tn r w g = (t', g') \<Longrightarrow> broker_act (gw_broker g) (gw_broker g')"
  "proxy_send_open wok c ref sid tun r w g = (t', g') \<Longrightarrow> broker_act (gw_broker g) (gw_broker g')"
  "proxy_send_data wok c ref sid r w g = (t', g') \<Longrightarrow> broker_act (gw_broker g) (gw_broker g')"
  "proxy_wait inp q g = Some (t', g') \<Longrightarrow> broker_act (gw_broker g) (gw_broker g')"
proof -
  have fail: "gw_broker (snd (proxy_fail m s l r g w)) = gw_broker g" for m s l by simp
  show "proxy_lookup uni px r w g = (t', g') \<Longrightarrow> broker_act (gw_broker g) (gw_broker g')"
    using fail by (auto simp: proxy_lookup_def Let_def case_prod_unfold split: if_splits sum.splits intro: act_skip)
  show "proxy_find sub tn r w g = (t', g') \<Longrightarrow> broker_act (gw_broker g) (gw_broker g')"
    using fail by (auto simp: proxy_find_def Let_def case_prod_unfold split: option.splits intro: act_skip)
  show "proxy_send_open wok c ref sid tun r w g = (t', g') \<Longrightarrow> broker_act (gw_broker g) (gw_broker g')"
    using send_broker(1) [of wok c ref sid tun r w g] by (simp add: act_skip)
  show "proxy_send_data wok c ref sid r w g = (t', g') \<Longrightarrow> broker_act (gw_broker g) (gw_broker g')"
    using send_broker(2) [of wok c ref sid r w g] by (simp add: act_skip)
  show "proxy_wait inp q g = Some (t', g') \<Longrightarrow> broker_act (gw_broker g) (gw_broker g')"
    using proxy_select_broker [of "in_keys inp" "in_select inp" "wt_stream q" "wt_request q" "wt_writer q" g]
    by (auto simp: proxy_wait_def Let_def case_prod_unfold split: if_splits select_case.splits intro: act_skip act_take)
qed

lemma advance_act:
  assumes "advance uni mac auth px inp t g = Some (t', g')" "\<not> opens_stream t"
  shows "broker_act (gw_broker g) (gw_broker g')"
proof (cases t)
  case (ConnReply ws code msg)
  with assms(1) show ?thesis by (auto intro: act_skip)
next
  case (ConnRefuse ss e)
  with assms(1) show ?thesis by (auto intro: act_skip)
next
  case (ConnWelcome ss)
  with assms(1) show ?thesis by (auto intro: act_skip)
next
  case (Unmapping ss sub i "is")
  with assms(1) show ?thesis by (auto intro: act_unmap)
next
  case (ProxyClose c ref sid res)
  with assms(1) show ?thesis by (auto simp: close_stream_def intro: act_close)
next
  case (Replied res)
  with assms(1) show ?thesis by (auto intro: act_skip)
qed (use assms act_conn act_proxy in \<open>simp_all add: opens_stream_def\<close>)

subsection \<open>Listed streams have a request\<close>

text \<open>The number under which a request will close its stream, where its thread has read it already.\<close>

fun thread_number :: "thread \<Rightarrow> 32 word option" where
  "thread_number (ProxySendOpen c ref sid t r w) = Some sid"
| "thread_number (ProxySendData c ref sid r w) = Some sid"
| "thread_number (ProxyClose c ref sid res) = Some sid"
| "thread_number t = None"

definition serves :: "thread \<Rightarrow> conn_ref \<Rightarrow> 32 word \<Rightarrow> stream_ref \<Rightarrow> bool" where
  "serves t c i ref \<longleftrightarrow> thread_stream t = Some (c, ref) \<and> thread_number t \<in> {None, Some i}"

definition served_inv :: "'lim pool \<Rightarrow> bool" where
  "served_inv P \<longleftrightarrow> (\<forall>c i ref. open_on (pl_broker P) c i = Some ref \<longrightarrow> (\<exists>t \<in># pl_threads P. serves t c i ref))"

lemma act_listed:
  assumes "broker_act b b'" "open_on b' c i = Some ref"
  shows "open_on b c i = Some ref"
  using assms
proof cases
  case (act_add cid u ws)
  obtain c' b'' where "br_AddConnection b cid u ws = (c', b'')" by (metis surj_pair)
  with act_add assms(2) show ?thesis by (simp add: Add_effect(8) split: if_splits)
qed (auto simp: Map_effect Unmap_effect Close_effect Remove_effect split: if_splits)

text \<open>A request keeps its stream and its number until it closes it.\<close>

lemma request_goes_on:
  assumes "advance uni mac auth px inp t g = Some (t', g')" "serves t c i ref"
    and "stream_id (gw_broker g) ref = Some i" "\<And>res. t \<noteq> ProxyClose c ref i res"
  shows "\<exists>x. t' = Some x \<and> serves x c i ref"
proof (cases t)
  case (ProxySendOpen d r sid tn rq w)
  have "\<exists>x. fst (proxy_send_open (in_wok inp) d r sid tn rq w g) = Some x \<and> thread_stream x = Some (d, r) \<and>
      thread_number x \<in> {None, Some sid}"
    by (auto simp: proxy_send_open_def proxy_give_up_def Let_def case_prod_unfold split: sum.split)
  with ProxySendOpen assms(1,2) show ?thesis by (auto simp: serves_def)
next
  case (ProxySendData d r sid rq w)
  have "\<exists>x. fst (proxy_send_data (in_wok inp) d r sid rq w g) = Some x \<and> thread_stream x = Some (d, r) \<and>
      thread_number x \<in> {None, Some sid}"
    by (auto simp: proxy_send_data_def proxy_give_up_def Let_def case_prod_unfold split: sum.split option.split)
  with ProxySendData assms(1,2) show ?thesis by (auto simp: serves_def)
next
  case (ProxyWait q)
  with assms(1-3) show ?thesis
    by (auto simp: serves_def proxy_wait_def stream_id_def Let_def case_prod_unfold split: if_splits)
qed (use assms(2,4) in \<open>auto simp: serves_def\<close>)

lemma served_thread:
  assumes "pool_inv mac P" "served_inv P" "t \<in># pl_threads P"
    and "advance uni mac (sv_auth (pl_server P)) (sv_proxy (pl_server P)) inp t (pl_gateway P) = Some (t', g')"
  shows "served_inv (replace_thread t t' g' P)"
  unfolding served_inv_def
proof (intro allI impI)
  let ?Q = "replace_thread t t' g' P"
  fix c i ref assume listed: "open_on (pl_broker ?Q) c i = Some ref"
  then have l: "open_on (gw_broker g') c i = Some ref" by (simp add: replace_thread_def)
  note inv = pool_invD [OF assms(1)]
  obtain T where T: "pl_threads P = add_mset t T" using multi_member_split [OF assms(3)] by blast
  then have Q: "pl_threads ?Q = T + threads_of t'" by (simp add: replace_thread_def)
  show "\<exists>x \<in># pl_threads ?Q. serves x c i ref"
  proof (cases "open_on (pl_broker P) c i = Some ref")
    case True
    with assms(2) obtain u where u: "u \<in># pl_threads P" "serves u c i ref" unfolding served_inv_def by blast
    have id: "stream_id (pl_broker P) ref = Some i" using True by (rule broker_invD(4) [OF inv(1)])
    have "t \<noteq> ProxyClose c ref i res" for res
      using assms(4) l by (auto simp: close_stream_def Close_effect)
    with u request_goes_on [OF assms(4) _ id, of c] show ?thesis by (cases "u = t") (auto simp: T Q)
  next
    case False
    with act_listed [OF advance_act [OF assms(4)] l] have "opens_stream t" by blast
    then obtain d tn r w where t: "t = ProxyOpen d tn r w" by (auto simp: opens_stream_def split: thread.splits)
    obtain r' b where o: "br_OpenStream (pl_broker P) d (tun_ID tn) = (r', b)" by (metis surj_pair)
    note stream = br_OpenStream_stream [OF o]
    from assms(4) t o have g': "gw_broker g' = b" "t' = Some (ProxySendOpen d r' (nextStreamID (pl_broker P) + 1) tn r w)"
      by (auto simp: proxy_open_stream_def stream)
    with l False Open_effect(9) [OF o, of c i] have "c = d" "i = nextStreamID (pl_broker P) + 1" "ref = r'"
      by (auto split: if_splits)
    with Q g' show ?thesis by (simp add: serves_def)
  qed
qed

lemma served_step:
  assumes "pool_step uni mac new_limiter lim_allow P P'" "pool_inv mac P" "served_inv P"
  shows "served_inv P'"
  using assms
proof (induction rule: pool_step.induct)
  case (pool_http env P r act s')
  with server_handle_state(1) [OF pool_http(2)] show ?case by (simp add: served_inv_def)
next
  case (pool_connect env P r s' upgraded)
  with server_handle_state(1) [OF pool_connect(2)] show ?case by (cases upgraded) (auto simp: served_inv_def)
next
  case (pool_proxy env P r s')
  with server_handle_state(1) [OF pool_proxy(2)] show ?case by (auto simp: served_inv_def)
next
  case (pool_cleanup s' P order now)
  then show ?case by (simp add: served_inv_def)
next
  case (pool_thread t P inp t' g')
  from pool_thread(3,4,1,2) show ?case by (rule served_thread)
qed

interpretation served: step_invariant "pool_step uni mac new_limiter lim_allow" "\<lambda>P. pool_inv mac P \<and> served_inv P"
  for uni mac and new_limiter :: "int \<Rightarrow> int \<Rightarrow> 'lim" and lim_allow
  by unfold_locales (simp add: pool_inv_step served_step)

subsection \<open>Open streams are listed\<close>

text \<open>As long as the counter has not wrapped around: \<open>next_stream\<close> is the number of streams opened so far.\<close>

definition undone :: "Broker \<Rightarrow> stream_ref \<Rightarrow> bool" where
  "undone b ref \<longleftrightarrow> (case stream_heap b ref of Some s \<Rightarrow> \<not> st_Done s | None \<Rightarrow> False)"

definition numbered :: "Broker \<Rightarrow> bool" where
  "numbered b \<longleftrightarrow> nextStreamID b = word_of_nat (next_stream b) \<and>
     (\<forall>ref i. stream_id b ref = Some i \<longrightarrow> i = word_of_nat (Suc ref))"

definition listed_inv :: "'lim pool \<Rightarrow> bool" where
  "listed_inv P \<longleftrightarrow> numbered (pl_broker P) \<and>
     (\<forall>c tn r w. ProxyOpen c tn r w \<in># pl_threads P \<longrightarrow> conn_id (pl_broker P) c \<noteq> None) \<and>
     (next_stream (pl_broker P) < 2 ^ 32 \<longrightarrow>
        (\<forall>ref. undone (pl_broker P) ref \<longrightarrow> (\<exists>c i. open_on (pl_broker P) c i = Some ref)))"

lemma act_numbered:
  assumes "broker_act b b'"
  shows "next_stream b' = next_stream b \<and> nextStreamID b' = nextStreamID b \<and> stream_id b' = stream_id b"
  using assms
proof cases
  case (act_add cid u ws)
  obtain c' b'' where "br_AddConnection b cid u ws = (c', b'')" by (metis surj_pair)
  with act_add show ?thesis by (simp add: Add_effect)
qed (auto simp: Map_effect Unmap_effect Close_effect Remove_effect set_tunnels_def put_response_def stream_id_def
    fun_eq_iff option.map_comp o_def split: option.split)

lemma undone_close_refs: "undone (b\<lparr>stream_heap := close_refs rs (stream_heap b)\<rparr>) ref \<longleftrightarrow> undone b ref \<and> ref \<notin> set rs"
  by (auto simp: undone_def close_refs_def split: option.split)

lemma act_undone:
  assumes "broker_inv b" "broker_act b b'" "undone b' ref"
  shows "undone b ref \<and> (\<forall>c i. open_on b c i = Some ref \<longrightarrow> open_on b' c i = Some ref)"
  using assms(2)
proof cases
  case (act_add cid u ws)
  obtain c' b'' where add: "br_AddConnection b cid u ws = (c', b'')" by (metis surj_pair)
  have "stream_heap b' = stream_heap b" by (auto simp: act_add br_AddConnection_def Let_def)
  moreover have "open_on b c' i = None" for i
    using broker_invD(1) [OF assms(1), of c'] Add_effect(1) [OF add] by (simp add: conn_id_def open_on_def)
  ultimately show ?thesis using assms(3) act_add add by (auto simp: undone_def Add_effect(8))
next
  case (act_close c i)
  with assms(3) show ?thesis
    by (auto simp: br_CloseStream_def undone_def close_refs_def open_on_def split: option.splits if_splits)
next
  case (act_remove order cid)
  with assms(3) show ?thesis
    by (auto simp: br_RemoveConnection_def Let_def undone_def close_refs_def open_on_def split: option.splits if_splits)
next
  case (act_tunnels c ids)
  with assms(3) show ?thesis by (auto simp: set_tunnels_def undone_def open_on_def split: option.splits)
qed (use assms(3) in \<open>auto simp: undone_def br_MapSubdomain_def br_UnmapSubdomain_def put_response_def take_response_def
    open_on_def split: option.splits if_splits\<close>)

text \<open>A thread that is about to open a stream has just found its connection.\<close>

lemma no_open_conn:
  "conn_auth mac auth inp ws g = (Some x, g') \<Longrightarrow> \<not> opens_stream x"
  "conn_add inp ws reg token g = (Some x, g') \<Longrightarrow> \<not> opens_stream x"
  "conn_loop inp ss u tcs g = (Some x, g') \<Longrightarrow> \<not> opens_stream x"
  "conn_map ss u tc tcs g = (Some x, g') \<Longrightarrow> \<not> opens_stream x"
  "conn_read inp ss g = (Some x, g') \<Longrightarrow> \<not> opens_stream x"
  "conn_beat inp ss is g = (Some x, g') \<Longrightarrow> \<not> opens_stream x"
  "conn_deliver inp ss ref data g = Some (Some x, g') \<Longrightarrow> \<not> opens_stream x"
  "conn_clean inp ss is g = (Some x, g') \<Longrightarrow> \<not> opens_stream x"
  "conn_unregister ss i is g = (Some x, g') \<Longrightarrow> \<not> opens_stream x"
proof -
  show "conn_auth mac auth inp ws g = (Some x, g') \<Longrightarrow> \<not> opens_stream x"
    by (auto simp: conn_auth_def opens_stream_def split: option.splits sum.splits prod.splits if_splits)
  show "conn_add inp ws reg token g = (Some x, g') \<Longrightarrow> \<not> opens_stream x"
    by (auto simp: conn_add_def opens_stream_def Let_def case_prod_unfold)
  show "conn_loop inp ss u tcs g = (Some x, g') \<Longrightarrow> \<not> opens_stream x"
    by (cases tcs) (auto simp: opens_stream_def split: prod.splits option.splits)
  show "conn_map ss u tc tcs g = (Some x, g') \<Longrightarrow> \<not> opens_stream x"
    by (auto simp: conn_map_def opens_stream_def)
  show "conn_read inp ss g = (Some x, g') \<Longrightarrow> \<not> opens_stream x"
    by (auto simp: conn_read_def opens_stream_def split: option.splits sum.splits prod.splits if_splits)
  show "conn_beat inp ss is g = (Some x, g') \<Longrightarrow> \<not> opens_stream x"
    by (cases "is") (auto simp: opens_stream_def)
  show "conn_deliver inp ss ref data g = Some (Some x, g') \<Longrightarrow> \<not> opens_stream x"
    by (auto simp: conn_deliver_def opens_stream_def split: option.splits if_splits deliver.splits)
  show "conn_clean inp ss is g = (Some x, g') \<Longrightarrow> \<not> opens_stream x"
    by (cases "is") (auto simp: opens_stream_def split: sum.splits)
  show "conn_unregister ss i is g = (Some x, g') \<Longrightarrow> \<not> opens_stream x"
    by (auto simp: conn_unregister_def opens_stream_def split: prod.splits option.splits)
qed

lemma no_open_proxy:
  "proxy_lookup uni px r w g = (Some x, g') \<Longrightarrow> \<not> opens_stream x"
  "proxy_open_stream c tn r w g = (Some x, g') \<Longrightarrow> \<not> opens_stream x"
  "proxy_send_open wok c ref sid tun r w g = (Some x, g') \<Longrightarrow> \<not> opens_stream x"
  "proxy_send_data wok c ref sid r w g = (Some x, g') \<Longrightarrow> \<not> opens_stream x"
  "proxy_wait inp q g = Some (Some x, g') \<Longrightarrow> \<not> opens_stream x"
proof -
  have give: "proxy_give_up c ref sid r w h = (Some x, g') \<Longrightarrow> \<not> opens_stream x" for h
    by (auto simp: proxy_give_up_def opens_stream_def Let_def case_prod_unfold)
  show "proxy_lookup uni px r w g = (Some x, g') \<Longrightarrow> \<not> opens_stream x"
    by (auto simp: proxy_lookup_def opens_stream_def Let_def case_prod_unfold split: if_splits sum.splits)
  show "proxy_open_stream c tn r w g = (Some x, g') \<Longrightarrow> \<not> opens_stream x"
    by (auto simp: proxy_open_stream_def opens_stream_def Let_def case_prod_unfold)
  show "proxy_send_open wok c ref sid tun r w g = (Some x, g') \<Longrightarrow> \<not> opens_stream x"
    using give by (auto simp: proxy_send_open_def opens_stream_def Let_def case_prod_unfold split: sum.splits if_splits)
  show "proxy_send_data wok c ref sid r w g = (Some x, g') \<Longrightarrow> \<not> opens_stream x"
    using give
    by (auto simp: proxy_send_data_def opens_stream_def Let_def case_prod_unfold split: sum.splits option.splits if_splits)
  show "proxy_wait inp q g = Some (Some x, g') \<Longrightarrow> \<not> opens_stream x"
    by (auto simp: proxy_wait_def opens_stream_def Let_def case_prod_unfold split: if_splits)
qed

lemma opens_found:
  assumes "advance uni mac auth px inp t g = Some (Some (ProxyOpen c tn r w), g')" "broker_inv (gw_broker g)"
  shows "conn_id (gw_broker g') c \<noteq> None"
proof -
  have "opens_stream (ProxyOpen c tn r w)" by (simp add: opens_stream_def)
  with assms(1) no_open_conn no_open_proxy obtain sub tn' r' w' where t: "t = ProxyFind sub tn' r' w'"
    by (cases t) auto
  with assms(1) have g': "g' = g" and f: "br_GetConnectionBySubdomain (gw_broker g) sub = Some c"
    by (auto simp: proxy_find_def Let_def case_prod_unfold split: option.splits)
  from f broker_invD(3) [OF assms(2)] show ?thesis
    by (auto simp: g' br_GetConnectionBySubdomain_def split: option.splits)
qed

lemma listed_open:
  assumes "broker_inv b" "numbered b" "conn_id b c \<noteq> None" "br_OpenStream b c tid = (r, b')"
  shows "numbered b'"
    and "Suc (next_stream b) < 2 ^ 32 \<Longrightarrow> \<forall>ref. undone b ref \<longrightarrow> (\<exists>c i. open_on b c i = Some ref) \<Longrightarrow>
      undone b' ref \<Longrightarrow> \<exists>c i. open_on b' c i = Some ref"
proof -
  note eff = Open_effect [OF assms(4)]
  have num: "nextStreamID b + 1 = word_of_nat (Suc (next_stream b))" using assms(2) by (simp add: numbered_def)
  show "numbered b'" using assms(2) eff(1,3,7,8) num by (auto simp: numbered_def split: if_splits)
  assume le: "Suc (next_stream b) < 2 ^ 32" and all: "\<forall>ref. undone b ref \<longrightarrow> (\<exists>c i. open_on b c i = Some ref)"
    and u: "undone b' ref"
  show "\<exists>c i. open_on b' c i = Some ref"
  proof (cases "ref = r")
    case True
    have "open_on b' c (nextStreamID b + 1) = Some r" using eff(9) assms(3) by simp
    with True show ?thesis by blast
  next
    case False
    with u have "undone b ref" using assms(4) by (auto simp: undone_def br_OpenStream_def Let_def split: if_splits)
    with all obtain d i where d: "open_on b d i = Some ref" by blast
    from broker_invD(4) [OF assms(1) this] have id: "stream_id b ref = Some i" .
    with broker_invD(2) [OF assms(1), of ref] have "ref < next_stream b" by auto
    moreover have "i = word_of_nat (Suc ref)" using id assms(2) by (simp add: numbered_def)
    ultimately have "i \<noteq> nextStreamID b + 1" using le unfolding num by (simp add: word_of_nat_eq_iff take_bit_nat_eq_self)
    with d eff(9) have "open_on b' d i = Some ref" by simp
    then show ?thesis by blast
  qed
qed

lemma listed_thread:
  assumes "pool_inv mac P" "listed_inv P" "t \<in># pl_threads P"
    and "advance uni mac (sv_auth (pl_server P)) (sv_proxy (pl_server P)) inp t (pl_gateway P) = Some (t', g')"
  shows "listed_inv (replace_thread t t' g' P)"
proof -
  let ?Q = "replace_thread t t' g' P" and ?b = "pl_broker P"
  note inv = pool_invD [OF assms(1)]
  have Q: "pl_broker ?Q = gw_broker g'" "pl_threads ?Q = pl_threads P - {#t#} + threads_of t'"
    by (simp_all add: replace_thread_def)
  have num: "numbered ?b"
    and old: "next_stream ?b < 2 ^ 32 \<Longrightarrow> \<forall>ref. undone ?b ref \<longrightarrow> (\<exists>c i. open_on ?b c i = Some ref)"
    using assms(2) unfolding listed_inv_def by blast+
  have found: "conn_id ?b c \<noteq> None" if "ProxyOpen c tn r w \<in># pl_threads P" for c tn r w
    using assms(2) that unfolding listed_inv_def by blast
  have ext: "broker_extends ?b (gw_broker g')"
    using advance_ok [OF assms(4) inv(1) inv(3) [OF assms(3)]] by (simp add: action_ok_def)
  have find: "conn_id (gw_broker g') c \<noteq> None" if "ProxyOpen c tn r w \<in># pl_threads ?Q" for c tn r w
  proof (cases "ProxyOpen c tn r w \<in># pl_threads P")
    case True
    with found obtain cid where "conn_id ?b c = Some cid" by fastforce
    from broker_extendsD(2) [OF ext this] show ?thesis by simp
  next
    case False
    with that have "t' = Some (ProxyOpen c tn r w)" unfolding Q by (cases t') (auto dest: in_diffD)
    from opens_found [OF assms(4) [unfolded this] inv(1)] show ?thesis .
  qed
  have "numbered (gw_broker g') \<and> (next_stream (gw_broker g') < 2 ^ 32 \<longrightarrow>
      (\<forall>ref. undone (gw_broker g') ref \<longrightarrow> (\<exists>c i. open_on (gw_broker g') c i = Some ref)))"
  proof (cases "opens_stream t")
    case False
    note act = advance_act [OF assms(4) False]
    show ?thesis
      using act_numbered [OF act] num old act_undone [OF inv(1) act] by (simp add: numbered_def) blast
  next
    case True
    then obtain d tn r w where t: "t = ProxyOpen d tn r w" by (auto simp: opens_stream_def split: thread.splits)
    obtain r' b where o: "br_OpenStream ?b d (tun_ID tn) = (r', b)" by (metis surj_pair)
    from assms(4) t o have "gw_broker g' = b" by (auto simp: proxy_open_stream_def)
    with listed_open [OF inv(1) num found [OF assms(3) [unfolded t]] o] old Open_effect(1,3) [OF o] show ?thesis
      by auto
  qed
  with find show ?thesis unfolding listed_inv_def Q by blast
qed

lemma listed_step:
  assumes "pool_step uni mac new_limiter lim_allow P P'" "pool_inv mac P" "listed_inv P"
  shows "listed_inv P'"
  using assms
proof (induction rule: pool_step.induct)
  case (pool_http env P r act s')
  with server_handle_state(1) [OF pool_http(2)] show ?case by (simp add: listed_inv_def)
next
  case (pool_connect env P r s' upgraded)
  with server_handle_state(1) [OF pool_connect(2)] show ?case by (cases upgraded) (auto simp: listed_inv_def)
next
  case (pool_proxy env P r s')
  with server_handle_state(1) [OF pool_proxy(2)] show ?case by (simp add: listed_inv_def)
next
  case (pool_cleanup s' P order now)
  then show ?case by (simp add: listed_inv_def)
next
  case (pool_thread t P inp t' g')
  from pool_thread(3,4,1,2) show ?case by (rule listed_thread)
qed

definition live_inv :: "mac \<Rightarrow> 'lim pool \<Rightarrow> bool" where
  "live_inv mac P \<longleftrightarrow> pool_inv mac P \<and> served_inv P \<and> listed_inv P"

interpretation live: step_invariant "pool_step uni mac new_limiter lim_allow" "live_inv mac"
  for uni mac and new_limiter :: "int \<Rightarrow> int \<Rightarrow> 'lim" and lim_allow
  by unfold_locales (simp add: live_inv_def pool_inv_step served_step listed_step)

lemma live_start:
  assumes "NewServer uni open_file cfg = Inr s"
  shows "live_inv mac \<lparr>pl_server = s, pl_threads = {#}\<rparr>"
proof -
  have "gw_broker (sv_gateway s) = NewBroker" using NewServer_fields [OF assms] by simp
  with pool_inv_start [OF assms] show ?thesis
    by (simp add: live_inv_def served_inv_def listed_inv_def numbered_def undone_def NewBroker_def open_on_def stream_id_def)
qed

subsection \<open>Every thread can end\<close>

text \<open>An upper bound for the actions a thread needs when its reads and writes fail and its timers fire.\<close>

fun work :: "thread \<Rightarrow> nat" where
  "work (ConnAuth ws) = 1"
| "work (ConnReply ws code msg) = 1"
| "work (ConnAdd ws reg token) = 5 + 5 * length (reg_Tunnels reg)"
| "work (ConnLoop ss u tcs) = 4 + 3 * length (ss_tunnelIDs ss) + 5 * length tcs"
| "work (ConnMap ss u tc tcs) = 8 + 3 * length (ss_tunnelIDs ss) + 5 * length tcs"
| "work (ConnRefuse ss e) = 2 + 3 * length (ss_tunnelIDs ss)"
| "work (ConnWelcome ss) = 3 + 3 * length (ss_tunnelIDs ss)"
| "work (Reading ss) = 2 + 3 * length (ss_tunnelIDs ss)"
| "work (Beating ss is) = 3 + length is + 3 * length (ss_tunnelIDs ss)"
| "work (Delivering ss ref data) = 3 + 3 * length (ss_tunnelIDs ss)"
| "work (Cleaning ss is) = 1 + 3 * length is"
| "work (Unmapping ss sub i is) = 3 + 3 * length is"
| "work (Unregistering ss i is) = 2 + 3 * length is"
| "work (ProxyLookup r w) = 6"
| "work (ProxyFind sub t r w) = 5"
| "work (ProxyOpen c t r w) = 4"
| "work (ProxySendOpen c ref sid t r w) = 3"
| "work (ProxySendData c ref sid r w) = 3"
| "work (ProxyWait q) = 3"
| "work (ProxyClose c ref sid res) = 2"
| "work (Replied res) = 1"

text \<open>The requests that may still open a stream.\<close>

fun may_open :: "thread \<Rightarrow> bool" where
  "may_open (ProxyLookup r w) = True"
| "may_open (ProxyFind sub t r w) = True"
| "may_open (ProxyOpen c t r w) = True"
| "may_open t = False"

definition openers :: "thread multiset \<Rightarrow> nat" where
  "openers T = size (filter_mset may_open T)"

definition makes_way :: "thread \<Rightarrow> thread option \<Rightarrow> bool" where
  "makes_way t t' \<longleftrightarrow> (case t' of None \<Rightarrow> True | Some x \<Rightarrow> work x < work t \<and> (may_open x \<longrightarrow> may_open t \<and> \<not> opens_stream t))"

definition failing :: input where
  "failing = some_input\<lparr>in_wok := \<lambda>_ _. False, in_deliver := Discard\<rparr>"

lemma failing_sel [simp]:
  "in_msg failing = None" "in_wok failing ws n = False" "in_deliver failing = Discard" "in_select failing = TimedOut"
  by (simp_all add: failing_def some_input_def)

lemma failing_send: "\<not> fst (gw_send (in_wok failing) c data g)"
  by (auto simp: gw_send_def br_SendMessage_def ws_WriteMessage_def Let_def case_prod_unfold split: option.split)

lemma failing_give_up: "\<exists>res. fst (proxy_give_up c ref sid r w g) = Some (ProxyClose c ref sid res)"
  by (simp add: proxy_give_up_def Let_def case_prod_unfold)

lemma failing_request:
  assumes "thread_session t = None" "thread_ok (gw_broker g) t"
  shows "\<exists>t' g'. advance uni mac auth px failing t g = Some (t', g') \<and> makes_way t t'"
proof (cases t)
  case (ProxyLookup r w)
  then show ?thesis
    by (auto simp: proxy_lookup_def Let_def case_prod_unfold makes_way_def opens_stream_def split: sum.split)
next
  case (ProxyFind sub tn r w)
  then show ?thesis
    by (auto simp: proxy_find_def Let_def case_prod_unfold makes_way_def opens_stream_def split: option.split)
next
  case (ProxySendOpen c ref sid tn r w)
  have "fst (proxy_send_open (in_wok failing) c ref sid tn r w g) = fst (proxy_give_up c ref sid r w (snd (gw_send
      (in_wok failing) c (EncodeFrame FrameOpenStream (bytes_of_string (json_print (enc_OpenStream (open_message sid tn r))))) g)))"
    using failing_send by (simp add: proxy_send_open_def EncodeControlMessage_frame Let_def case_prod_unfold)
  then obtain res where "fst (proxy_send_open (in_wok failing) c ref sid tn r w g) = Some (ProxyClose c ref sid res)"
    using failing_give_up by metis
  with ProxySendOpen show ?thesis by (cases "proxy_send_open (in_wok failing) c ref sid tn r w g") (simp add: makes_way_def)
next
  case (ProxySendData c ref sid r w)
  have "\<exists>h. fst (proxy_send_data (in_wok failing) c ref sid r w g) = fst (proxy_give_up c ref sid r w h)"
    using failing_send
    by (auto simp: proxy_send_data_def Let_def case_prod_unfold split: option.split sum.split)
  then obtain res where "fst (proxy_send_data (in_wok failing) c ref sid r w g) = Some (ProxyClose c ref sid res)"
    using failing_give_up by metis
  with ProxySendData show ?thesis by (cases "proxy_send_data (in_wok failing) c ref sid r w g") (simp add: makes_way_def)
next
  case (ProxyWait q)
  with assms(2) have "select_ready (gw_broker g) (wt_stream q) TimedOut"
    by (auto simp: thread_ok_def owned_def select_ready_def stream_id_def split: option.split)
  with ProxyWait show ?thesis by (simp add: proxy_wait_def Let_def case_prod_unfold makes_way_def)
qed (use assms(1) in \<open>auto simp: conn_auth_def conn_add_def proxy_open_stream_def Let_def case_prod_unfold makes_way_def\<close>)

lemma failing_session:
  assumes "thread_session t = Some ss"
    and "\<And>ref data. t = Delivering ss ref data \<Longrightarrow> \<exists>s. stream_heap (gw_broker g) ref = Some s \<and> st_Done s"
  shows "\<exists>t' g'. advance uni mac auth px failing t g = Some (t', g') \<and> makes_way t t'"
proof (cases t)
  case (ConnLoop s u tcs)
  then show ?thesis by (cases tcs) (auto simp: makes_way_def split: prod.split option.split)
next
  case (Beating s "is")
  then show ?thesis by (cases "is") (simp_all add: makes_way_def)
next
  case (Delivering s ref data)
  with assms obtain st where "stream_heap (gw_broker g) ref = Some st" "st_Done st" by auto
  with Delivering show ?thesis by (simp add: conn_deliver_def deliver_ready_def makes_way_def)
next
  case (Cleaning s "is")
  then show ?thesis by (cases "is") (auto simp: makes_way_def split: sum.split)
next
  case (Unregistering s i "is")
  then show ?thesis by (auto simp: conn_unregister_def makes_way_def split: prod.split option.split)
qed (use assms(1) in \<open>auto simp: conn_map_def conn_read_def makes_way_def\<close>)

definition total_work :: "thread multiset \<Rightarrow> nat" where
  "total_work T = sum_mset (image_mset work T)"

lemma makes_way_step:
  assumes "t \<in># pl_threads P" "makes_way t t'"
    and "advance uni mac (sv_auth (pl_server P)) (sv_proxy (pl_server P)) inp t (pl_gateway P) = Some (t', g')"
  defines "Q \<equiv> replace_thread t t' g' P"
  shows "total_work (pl_threads Q) < total_work (pl_threads P)"
    and "next_stream (pl_broker Q) + openers (pl_threads Q) \<le> next_stream (pl_broker P) + openers (pl_threads P)"
proof -
  obtain T where T: "pl_threads P = add_mset t T" using multi_member_split [OF assms(1)] by blast
  then have Q: "pl_threads Q = T + threads_of t'" "pl_broker Q = gw_broker g'" by (simp_all add: Q_def replace_thread_def)
  have "0 < work t" by (cases t) simp_all
  with assms(2) show "total_work (pl_threads Q) < total_work (pl_threads P)"
    unfolding Q T by (cases t') (simp_all add: total_work_def makes_way_def)
  show "next_stream (pl_broker Q) + openers (pl_threads Q) \<le> next_stream (pl_broker P) + openers (pl_threads P)"
  proof (cases "opens_stream t")
    case True
    then obtain d tn r w where t: "t = ProxyOpen d tn r w" by (auto simp: opens_stream_def split: thread.splits)
    obtain r' b where o: "br_OpenStream (pl_broker P) d (tun_ID tn) = (r', b)" by (metis surj_pair)
    from assms(3) t o have "gw_broker g' = b" by (auto simp: proxy_open_stream_def)
    moreover have "\<not> may_open x" if "t' = Some x" for x using assms(2) that True by (auto simp: makes_way_def)
    ultimately show ?thesis unfolding Q T using Open_effect(1,3) [OF o] t by (cases t') (simp_all add: openers_def)
  next
    case False
    have "next_stream (gw_broker g') = next_stream (pl_broker P)"
      using act_numbered [OF advance_act [OF assms(3) False]] by simp
    with assms(2) show ?thesis unfolding Q T by (cases t') (auto simp: openers_def makes_way_def)
  qed
qed

text \<open>In a state with threads, one of them can act and come closer to its end.\<close>

lemma some_thread_acts:
  assumes "live_inv mac P" "pl_threads P \<noteq> {#}" "next_stream (pl_broker P) < 2 ^ 32"
  obtains t t' g' where "t \<in># pl_threads P" "makes_way t t'"
    "advance uni mac (sv_auth (pl_server P)) (sv_proxy (pl_server P)) failing t (pl_gateway P) = Some (t', g')"
proof -
  have inv: "pool_inv mac P" "served_inv P" "listed_inv P" using assms(1) by (simp_all add: live_inv_def)
  note ok = pool_invD(3) [OF inv(1)]
  show thesis
  proof (cases "\<exists>t \<in># pl_threads P. thread_session t = None")
    case True
    then obtain t where t: "t \<in># pl_threads P" "thread_session t = None" by blast
    from failing_request [OF t(2) ok [OF t(1)]] that [OF t(1)] show thesis by blast
  next
    case False
    obtain t where t: "t \<in># pl_threads P" using assms(2) by (meson multiset_nonemptyE)
    with False obtain ss where ss: "thread_session t = Some ss" by fastforce
    have closed: "\<exists>s. stream_heap (pl_broker P) ref = Some s \<and> st_Done s" if d: "t = Delivering ss ref data" for ref data
    proof -
      obtain s where s: "stream_heap (pl_broker P) ref = Some s"
        using ok [OF t] by (auto simp: d thread_ok_def owned_def stream_id_def)
      have "thread_session u = None" if "serves u c i ref" for u c i using that by (cases u) (auto simp: serves_def)
      with False have "open_on (pl_broker P) c i \<noteq> Some ref" for c i using inv(2) unfolding served_inv_def by blast
      with inv(3) assms(3) have "\<not> undone (pl_broker P) ref" unfolding listed_inv_def by blast
      with s show ?thesis by (simp add: undone_def)
    qed
    from failing_session [OF ss, where g = "pl_gateway P"] closed that [OF t] show thesis by blast
  qed
qed

lemma live_drains:
  assumes "live_inv mac P" "next_stream (pl_broker P) + openers (pl_threads P) < 2 ^ 32"
  shows "\<exists>Q. pool_reachable uni mac new_limiter lim_allow P Q \<and> pl_threads Q = {#}"
  using assms
proof (induction "total_work (pl_threads P)" arbitrary: P rule: less_induct)
  case less
  show ?case
  proof (cases "pl_threads P = {#}")
    case True
    then show ?thesis by (intro exI [of _ P]) (simp add: pool_reachable_def)
  next
    case False
    have "next_stream (pl_broker P) < 2 ^ 32" using less.prems(2) by simp
    from some_thread_acts [OF less.prems(1) False this, of uni] obtain t t' g' where t: "t \<in># pl_threads P" "makes_way t t'"
      "advance uni mac (sv_auth (pl_server P)) (sv_proxy (pl_server P)) failing t (pl_gateway P) = Some (t', g')" .
    let ?P = "replace_thread t t' g' P"
    have step: "pool_step uni mac new_limiter lim_allow P ?P" using t(1,3) by (rule pool_step.pool_thread)
    have "live_inv mac ?P" using step less.prems(1) by (rule live.inv_step)
    moreover have "next_stream (pl_broker ?P) + openers (pl_threads ?P) < 2 ^ 32"
      using makes_way_step(2) [OF t] less.prems(2) by (rule le_less_trans)
    ultimately obtain Q where "pool_reachable uni mac new_limiter lim_allow ?P Q" "pl_threads Q = {#}"
      using less.hyps [OF makes_way_step(1) [OF t]] by blast
    with step show ?thesis unfolding pool_reachable_def by (meson converse_rtranclp_into_rtranclp)
  qed
qed

subsection \<open>Properties\<close>

text \<open>C10. No stream outlives its request: in every state the gateway's goroutines can reach, each stream that
  a connection still lists belongs to a request that is running, that goes to this connection, and that
  will take the stream out of the list under the number it is listed under. A server that has just
  started satisfies the invariant (\<open>live_start\<close>).\<close>

theorem no_stream_leak:
  assumes "live_inv mac P0" "pool_reachable uni mac new_limiter lim_allow P0 P"
    and "open_on (pl_broker P) c i = Some ref"
  shows "\<exists>t \<in># pl_threads P. thread_stream t = Some (c, ref) \<and> thread_number t \<in> {None, Some i} \<and>
    stream_id (pl_broker P) ref = Some i"
proof -
  have "live_inv mac P" using assms(2,1) unfolding pool_reachable_def by (rule live.inv_steps)
  then have inv: "pool_inv mac P" "served_inv P" by (simp_all add: live_inv_def)
  from inv(2) assms(3) have "\<exists>t \<in># pl_threads P. serves t c i ref" unfolding served_inv_def by blast
  moreover have "stream_id (pl_broker P) ref = Some i" using pool_invD(1) [OF inv(1)] assms(3) by (rule broker_invD(4))
  ultimately show ?thesis by (auto simp: serves_def)
qed

text \<open>C9. No goroutine is stuck for good: from every state the gateway can reach in which fewer than
  \<open>2 ^ 32\<close> streams were opened or are about to be, all threads can run to their end, when reads and writes
  fail and timers fire. In particular a read loop that waits for room in the buffer of a stream is
  released, because the request of that stream ends and closes it. A server that has just started
  satisfies the invariant (\<open>live_start\<close>).\<close>

theorem gateway_can_drain:
  assumes "live_inv mac P0" "pool_reachable uni mac new_limiter lim_allow P0 P"
    and "next_stream (pl_broker P) + openers (pl_threads P) < 2 ^ 32"
  shows "\<exists>Q. pool_reachable uni mac new_limiter lim_allow P Q \<and> pl_threads Q = {#}"
proof (rule live_drains)
  show "live_inv mac P" using assms(2,1) unfolding pool_reachable_def by (rule live.inv_steps)
qed (rule assms(3))

text \<open>The example with a read loop that waits in \<open>deliverStreamData\<close> for the buffer of the waiting request.\<close>

definition ex_stuck :: "token_bucket pool" where
  "ex_stuck = \<lparr>pl_server = (wd_server ex_world)\<lparr>sv_gateway := ex_gateway\<lparr>gw_broker := put_response 0 [1] ex_broker\<rparr>\<rparr>,
     pl_threads = {#Delivering ex_session 0 [2], ProxyWait ex_waiter#}\<rparr>"

lemma ex_stuck_blocked:
  "advance id ex_mac (sv_auth (pl_server ex_stuck)) (sv_proxy (pl_server ex_stuck)) inp (Delivering ex_session 0 [2])
     (pl_gateway ex_stuck) = None"
  by (cases "in_deliver inp")
    (simp_all add: ex_stuck_def conn_deliver_def deliver_ready_def put_response_def ex_broker_def broker_eval)

lemma ex_stuck_live: "live_inv ex_mac ex_stuck"
proof -
  let ?b = "put_response 0 [1] ex_broker"
  have b: "conn_id ?b 0 = Some ''c1''" "stream_id ?b = [0 \<mapsto> 1]" "nextStreamID ?b = 1" "next_stream ?b = 1"
    by (simp_all add: ex_broker_def broker_eval conn_id_def stream_id_def put_response_def fun_eq_iff)
  have l: "open_on ?b d i = (if d = 0 \<and> i = 1 then Some 0 else None)" for d i
    by (simp add: ex_broker_def broker_eval open_on_def)
  have "thread_ok ?b (Delivering ex_session 0 [2])" "thread_ok ?b (ProxyWait ex_waiter)"
    using b l by (simp_all add: thread_ok_def owned_def ex_session_def ex_waiter_def new_response_def)
  moreover have "broker_inv ?b" using grows_put [OF ex_broker_inv] by (rule broker_growsD(1))
  ultimately have "pool_inv ex_mac ex_stuck"
    using ex_store_inv by (simp add: pool_inv_def ex_stuck_def ex_world_def ex_gateway_def users_def agree_def
        ex_session_def ex_waiter_def)
  moreover have "served_inv ex_stuck"
    using l by (auto simp: served_inv_def ex_stuck_def serves_def ex_waiter_def split: if_splits)
  moreover have "undone ?b ref \<Longrightarrow> ref = 0" for ref
    using fun_cong [OF b(2), of ref] by (auto simp: undone_def stream_id_def split: option.splits if_splits)
  then have "listed_inv ex_stuck"
    using b l by (auto simp: listed_inv_def ex_stuck_def numbered_def split: if_splits)
  ultimately show ?thesis by (simp add: live_inv_def)
qed

theorem no_stream_leak_witness:
  "\<exists>t \<in># pl_threads ex_stuck. thread_stream t = Some (0, 0)"
proof -
  have "pool_reachable id ex_mac ex_new ex_allow ex_stuck ex_stuck" by (simp add: pool_reachable_def)
  moreover have "open_on (pl_broker ex_stuck) 0 1 = Some 0" by (simp add: ex_stuck_def ex_broker_open)
  ultimately show ?thesis using no_stream_leak [OF ex_stuck_live] by blast
qed

theorem gateway_can_drain_witness:
  "(\<forall>inp. advance id ex_mac (sv_auth (pl_server ex_stuck)) (sv_proxy (pl_server ex_stuck)) inp
       (Delivering ex_session 0 [2]) (pl_gateway ex_stuck) = None) \<and>
   (\<exists>Q. pool_reachable id ex_mac ex_new ex_allow ex_stuck Q \<and> pl_threads Q = {#})"
proof -
  have r: "pool_reachable id ex_mac ex_new ex_allow ex_stuck ex_stuck" by (simp add: pool_reachable_def)
  have "next_stream (pl_broker ex_stuck) + openers (pl_threads ex_stuck) < 2 ^ 32"
    by (simp add: ex_stuck_def openers_def put_response_def ex_broker_def broker_eval)
  from gateway_can_drain [OF ex_stuck_live r this] ex_stuck_blocked show ?thesis by simp
qed

end
