(* ===== verification/Client.thy ===== *)
theory Client
  imports Http Broker Messages Config Logging
begin

text \<open>
  \<open>internal/client/client.go\<close>: the tunnel client. Its goroutines (the heartbeat, the read loop and one
  handler per stream) share the state \<open>Client\<close>; each is cut where it waits. Channels of pending streams
  are shared by reference, so they live in a heap, as in the broker; \<open>c.done\<close> is replaced on every
  reconnection while older goroutines still wait on the channel they read, so it is a reference too,
  with the set of the closed ones. The socket writes go to a log as on the gateway's side.

  Parameters: \<open>dial\<close> is the WebSocket dialer and \<open>pem_ok\<close> the certificate parser (third-party code and
  the operating system's trust store), \<open>read_file\<close> the file system, \<open>url_ok\<close> says which requests
  \<open>http.NewRequest\<close> accepts, and \<open>local\<close> is what the local service answers.
\<close>

subsection \<open>State\<close>

type_synonym chan_ref = nat

record Client =
  gc_cfg :: ClientConfig
  gc_ws :: "ws_id option"
  gc_logger :: Logger
  gc_done :: chan_ref
  gc_doneClosed :: "chan_ref set"
  gc_closed :: bool
  gc_pendingStreams :: "string \<rightharpoonup> chan_ref"
  gc_chans :: "chan_ref \<rightharpoonup> bytes list"
  gc_next :: chan_ref
  gc_log :: ws_log
  gc_shut :: "ws_id set"

datatype client_error =
  NilConfig | ReadCAFile string | ParseCA | DialFailed | EncodeRegister | SendRegister | ReadResponse
| DecodeResponse frame_error | UnexpectedFrame byte | DecodeControl | RegistrationFailed string "32 word"
| MaxReconnects int

definition NewClient :: "Logger \<Rightarrow> ws_log \<Rightarrow> ClientConfig option \<Rightarrow> client_error + Client" where
  "NewClient default_logger L cfg =
     (case cfg of
        None \<Rightarrow> Inl NilConfig
      | Some c \<Rightarrow>
          Inr \<lparr>gc_cfg = c, gc_ws = None, gc_logger = WithComponent default_logger ''client'', gc_done = 0,
               gc_doneClosed = {}, gc_closed = False, gc_pendingStreams = Map.empty, gc_chans = Map.empty, gc_next = 0,
               gc_log = L, gc_shut = {}\<rparr>)"

abbreviation settings :: "Client \<Rightarrow> ClientSettings" where
  "settings cl \<equiv> ccfg_Client (gc_cfg cl)"

text \<open>
  A write on the current socket under \<open>wsMu\<close>. The callers run after \<open>Connect\<close> has set the socket; without
  one nothing is written.
\<close>

definition client_write :: "write_ok \<Rightarrow> bytes \<Rightarrow> Client \<Rightarrow> bool \<times> Client" where
  "client_write wok data cl =
     (case gc_ws cl of
        None \<Rightarrow> (False, cl)
      | Some ws \<Rightarrow>
          (let (ok, L) = ws_WriteMessage wok ws data (gc_log cl) in (ok, cl\<lparr>gc_log := L\<rparr>)))"

subsection \<open>Connecting\<close>

record tls_config =
  tlsc_InsecureSkipVerify :: bool
  tlsc_RootCAs :: "bytes option"

definition client_tls ::
  "(string \<Rightarrow> bytes option) \<Rightarrow> (bytes \<Rightarrow> bool) \<Rightarrow> ClientTLSConfig \<Rightarrow> client_error + tls_config option" where
  "client_tls read_file pem_ok tlsCfg =
     (if ctls_SkipVerify tlsCfg \<or> ctls_CAFile tlsCfg \<noteq> [] then
        (let tc = \<lparr>tlsc_InsecureSkipVerify = ctls_SkipVerify tlsCfg, tlsc_RootCAs = None\<rparr>
         in if ctls_CAFile tlsCfg \<noteq> [] then
              (case read_file (ctls_CAFile tlsCfg) of
                 None \<Rightarrow> Inl (ReadCAFile (ctls_CAFile tlsCfg))
               | Some caCert \<Rightarrow>
                   (if \<not> pem_ok caCert then Inl ParseCA else Inr (Some (tc\<lparr>tlsc_RootCAs := Some caCert\<rparr>))))
            else Inr (Some tc))
      else Inr None)"

definition register_message :: "string \<Rightarrow> ClientSettings \<Rightarrow> Register" where
  "register_message goos c =
     \<lparr>reg_Type = ''register'', reg_Token = cl_Token c,
      reg_Tunnels = map (\<lambda>t. \<lparr>tc_Name = ct_Name t, tc_Protocol = ct_Protocol t, tc_Port = ct_Port t,
                               tc_Subdomain = ct_Subdomain t\<rparr>) (cl_Tunnels c),
      reg_ClientID = [], reg_Metadata = \<lparr>cm_OS = goos, cm_Version = ''1.0.0''\<rparr>\<rparr>"

definition ws_shut :: "ws_id \<Rightarrow> Client \<Rightarrow> Client" where
  "ws_shut ws cl = cl\<lparr>gc_shut := insert ws (gc_shut cl)\<rparr>"

text \<open>What the client makes of the first message; \<open>None\<close> when reading fails.\<close>

definition register_reply :: "bytes option \<Rightarrow> client_error option" where
  "register_reply reply =
     (case reply of
        None \<Rightarrow> Some ReadResponse
      | Some raw \<Rightarrow>
          (case decode_msg raw of
             Inl e \<Rightarrow> Some (DecodeResponse e)
           | Inr (frameType, payload) \<Rightarrow>
               (if frameType \<noteq> FrameControlResponse then Some (UnexpectedFrame frameType)
                else
                  (case DecodeControlMessage dec_ControlResponse payload zero_ControlResponse of
                     Inl e \<Rightarrow> Some DecodeControl
                   | Inr resp \<Rightarrow>
                       (if cr_Code resp \<noteq> CodeOK then Some (RegistrationFailed (cr_Message resp) (cr_Code resp))
                        else None)))))"

text \<open>\<open>reply\<close> is the message the gateway answers with, \<open>None\<close> as the result is success.\<close>

definition client_Connect ::
  "(string \<Rightarrow> bytes option) \<Rightarrow> (bytes \<Rightarrow> bool) \<Rightarrow> (tls_config option \<Rightarrow> string \<Rightarrow> ws_id option) \<Rightarrow> string
     \<Rightarrow> write_ok \<Rightarrow> bytes option \<Rightarrow> Client \<Rightarrow> client_error option \<times> Client"
where
  "client_Connect read_file pem_ok dial goos wok reply cl =
     (case client_tls read_file pem_ok (cl_TLS (settings cl)) of
        Inl e \<Rightarrow> (Some e, cl)
      | Inr tc \<Rightarrow>
          (case dial tc (cl_GatewayURL (settings cl)) of
             None \<Rightarrow> (Some DialFailed, cl)
           | Some ws \<Rightarrow>
               (let cl1 = cl\<lparr>gc_ws := Some ws\<rparr>
                in case EncodeControlMessage FrameRegister (enc_Register (register_message goos (settings cl))) of
                     Inl e \<Rightarrow> (Some EncodeRegister, ws_shut ws cl1)
                   | Inr frame \<Rightarrow>
                       (let (ok, cl2) = client_write wok frame cl1
                        in if \<not> ok then (Some SendRegister, ws_shut ws cl2)
                           else
                             (case register_reply reply of
                                Some e \<Rightarrow> (Some e, ws_shut ws cl2)
                              | None \<Rightarrow> (None, cl2))))))"

subsection \<open>Sending\<close>

definition sendStreamData :: "write_ok \<Rightarrow> string \<Rightarrow> bytes \<Rightarrow> Client \<Rightarrow> Client" where
  "sendStreamData wok streamID data cl =
     (case EncodeControlMessage FrameStreamData (enc_StreamData \<lparr>sd_StreamID = streamID, sd_Data = data\<rparr>) of
        Inl e \<Rightarrow> cl
      | Inr frame \<Rightarrow> snd (client_write wok frame cl))"

definition sendCloseStream :: "write_ok \<Rightarrow> string \<Rightarrow> Client \<Rightarrow> Client" where
  "sendCloseStream wok streamID cl =
     (case EncodeControlMessage FrameCloseStream (enc_CloseStream \<lparr>cs_StreamID = streamID\<rparr>) of
        Inl e \<Rightarrow> cl
      | Inr frame \<Rightarrow> snd (client_write wok frame cl))"

definition sendErrorResponse :: "write_ok \<Rightarrow> string \<Rightarrow> int \<Rightarrow> string \<Rightarrow> Client \<Rightarrow> Client" where
  "sendErrorResponse wok streamID statusCode message cl =
     (let resp = \<lparr>rs_StatusCode = statusCode, rs_Headers = [(''Content-Type'', ''text/plain'')],
                  rs_Body = bytes_of_string message\<rparr>
      in case json_Marshal (enc_httpResponse resp) of
           Inl e \<Rightarrow> cl
         | Inr respData \<Rightarrow> sendCloseStream wok streamID (sendStreamData wok streamID respData cl))"

subsection \<open>Heartbeats\<close>

definition heartbeat_interval :: "ClientSettings \<Rightarrow> duration" where
  "heartbeat_interval c =
     (let interval = dur_mult (cl_HeartbeatSeconds c) Second
      in if interval \<le> 0 then dur_mult 30 Second else interval)"

text \<open>
  One turn of \<open>heartbeatLoop\<close> for the case its \<open>select\<close> takes; the boolean says whether the loop goes on.
  \<open>time.Now().Unix()\<close> is the whole seconds of the clock. \<open>d\<close> is the \<open>c.done\<close> the \<open>select\<close> has read.
\<close>

datatype beat_case = BeatDone | BeatClosed | BeatTick

definition beat_ready :: "Client \<Rightarrow> chan_ref \<Rightarrow> beat_case \<Rightarrow> bool" where
  "beat_ready cl d b = (case b of BeatDone \<Rightarrow> d \<in> gc_doneClosed cl | BeatClosed \<Rightarrow> gc_closed cl | BeatTick \<Rightarrow> True)"

definition heartbeat_turn :: "write_ok \<Rightarrow> go_time \<Rightarrow> beat_case \<Rightarrow> Client \<Rightarrow> bool \<times> Client" where
  "heartbeat_turn wok now b cl =
     (case b of
        BeatDone \<Rightarrow> (False, cl)
      | BeatClosed \<Rightarrow> (False, cl)
      | BeatTick \<Rightarrow>
          (case EncodeControlMessage FrameHeartbeat
                  (enc_Heartbeat \<lparr>hb_Type = ''heartbeat'', hb_Timestamp = now div 1000000000\<rparr>) of
             Inl e \<Rightarrow> (True, cl)
           | Inr frame \<Rightarrow> client_write wok frame cl))"

subsection \<open>Streams\<close>

definition client_deliverStreamData :: "string \<Rightarrow> bytes \<Rightarrow> Client \<Rightarrow> Client" where
  "client_deliverStreamData streamID data cl =
     (case gc_pendingStreams cl streamID of
        None \<Rightarrow> cl
      | Some ch \<Rightarrow>
          (case gc_chans cl ch of
             Some [] \<Rightarrow> cl\<lparr>gc_chans := (gc_chans cl)(ch \<mapsto> [data])\<rparr>
           | _ \<Rightarrow> cl))"

fun match_port :: "string \<Rightarrow> ClientTunnel list \<Rightarrow> int option" where
  "match_port targetTunnel [] = None"
| "match_port targetTunnel (t # ts) =
     (if HasSuffix targetTunnel (''-'' @ ct_Subdomain t) then Some (ct_Port t) else match_port targetTunnel ts)"

definition resolvePort :: "ClientSettings \<Rightarrow> string \<Rightarrow> int" where
  "resolvePort c targetTunnel =
     (case match_port targetTunnel (cl_Tunnels c) of
        Some p \<Rightarrow> p
      | None \<Rightarrow> (case cl_Tunnels c of t # ts \<Rightarrow> ct_Port t | [] \<Rightarrow> 0))"

text \<open>One message of \<open>readLoop\<close>: the state, and the handler it starts in a goroutine of its own.\<close>

definition client_read :: "bytes \<Rightarrow> Client \<Rightarrow> OpenStream option \<times> Client" where
  "client_read raw cl =
     (case decode_msg raw of
        Inl e \<Rightarrow> (None, cl)
      | Inr (frameType, payload) \<Rightarrow>
          (if frameType = FrameOpenStream then
             (case DecodeControlMessage dec_OpenStream payload zero_OpenStream of
                Inl e \<Rightarrow> (None, cl)
              | Inr os \<Rightarrow> (Some os, cl))
           else if frameType = FrameStreamData then
             (case DecodeControlMessage dec_StreamData payload zero_StreamData of
                Inl e \<Rightarrow> (None, cl)
              | Inr sd \<Rightarrow> (None, client_deliverStreamData (sd_StreamID sd) (sd_Data sd) cl))
           else (None, cl)))"

text \<open>The deferred guarded \<open>close(c.done)\<close> of the read loop.\<close>

definition readLoop_end :: "Client \<Rightarrow> Client" where
  "readLoop_end cl =
     (if gc_done cl \<in> gc_doneClosed cl then cl
      else cl\<lparr>gc_doneClosed := insert (gc_done cl) (gc_doneClosed cl)\<rparr>)"

subsection \<open>The handler of a stream\<close>

text \<open>A handler in its \<open>select\<close>: its data channel and the \<open>c.done\<close> it has read.\<close>

record pending =
  pn_data :: chan_ref
  pn_done :: chan_ref

definition handleOpenStream_begin :: "OpenStream \<Rightarrow> Client \<Rightarrow> pending \<times> Client" where
  "handleOpenStream_begin openMsg cl =
     (let ch = gc_next cl
      in (\<lparr>pn_data = ch, pn_done = gc_done cl\<rparr>,
          cl\<lparr>gc_chans := (gc_chans cl)(ch \<mapsto> []), gc_next := Suc ch,
             gc_pendingStreams := (gc_pendingStreams cl)(os_StreamID openMsg \<mapsto> ch)\<rparr>))"

datatype stream_case = StreamRequest bytes | ConnectionDone | ClientClosed | StreamTimeout

definition stream_ready :: "Client \<Rightarrow> pending \<Rightarrow> stream_case \<Rightarrow> bool" where
  "stream_ready cl p sc =
     (case sc of
        StreamRequest d \<Rightarrow> (case gc_chans cl (pn_data p) of Some (x # xs) \<Rightarrow> x = d | _ \<Rightarrow> False)
      | ConnectionDone \<Rightarrow> pn_done p \<in> gc_doneClosed cl
      | ClientClosed \<Rightarrow> gc_closed cl
      | StreamTimeout \<Rightarrow> True)"

definition unregister_stream :: "string \<Rightarrow> Client \<Rightarrow> Client" where
  "unregister_stream streamID cl =
     cl\<lparr>gc_pendingStreams := (gc_pendingStreams cl)(streamID := None)\<rparr>"

record local_request =
  lr_Method :: string
  lr_URL :: string
  lr_Header :: http_header
  lr_Body :: bytes

text \<open>
  What \<open>httpClient.Do\<close> and reading its body give: an error, a response whose body cannot be read, or a
  response with its header, the order of a \<open>range\<close> over the header, and its body.
\<close>

datatype local_reply = DoFailed | BodyFailed | LocalReply int "string list" http_header bytes

definition local_bind :: "ClientSettings \<Rightarrow> string" where
  "local_bind c = (if cl_LocalBind c = [] then ''127.0.0.1'' else cl_LocalBind c)"

definition target_url :: "ClientSettings \<Rightarrow> int \<Rightarrow> string \<Rightarrow> string" where
  "target_url c port path = ''http://'' @ local_bind c @ '':'' @ FormatInt port @ path"

text \<open>The request to the local service; \<open>order\<close> is the iteration order over the envelope's headers.\<close>

definition build_request :: "string list \<Rightarrow> ClientSettings \<Rightarrow> int \<Rightarrow> httpRequest \<Rightarrow> local_request" where
  "build_request order c port req =
     \<lparr>lr_Method = (if rq_Method req = [] then ''GET'' else rq_Method req),
      lr_URL = target_url c port (rq_Path req),
      lr_Header = set_headers order (rq_Headers req) Map.empty, lr_Body = rq_Body req\<rparr>"

text \<open>From the local response to the frames for the gateway.\<close>

definition answer_stream :: "write_ok \<Rightarrow> string \<Rightarrow> local_reply \<Rightarrow> Client \<Rightarrow> Client" where
  "answer_stream wok streamID reply cl =
     (case reply of
        DoFailed \<Rightarrow> sendErrorResponse wok streamID 502 ''local service unavailable'' cl
      | BodyFailed \<Rightarrow> cl
      | LocalReply statusCode keys header body \<Rightarrow>
          (case json_Marshal (enc_httpResponse
                  \<lparr>rs_StatusCode = statusCode, rs_Headers = join_headers keys header, rs_Body = body\<rparr>) of
             Inl e \<Rightarrow> cl
           | Inr respData \<Rightarrow> sendCloseStream wok streamID (sendStreamData wok streamID respData cl)))"

text \<open>The request it makes, if any, and the state after it; \<open>order\<close>, \<open>url_ok\<close> and \<open>local\<close> as above.\<close>

definition forward_request ::
  "(string \<Rightarrow> string \<Rightarrow> bool) \<Rightarrow> (local_request \<Rightarrow> local_reply) \<Rightarrow> string list \<Rightarrow> write_ok \<Rightarrow> OpenStream
     \<Rightarrow> bytes \<Rightarrow> Client \<Rightarrow> local_request option \<times> Client"
where
  "forward_request url_ok local order wok openMsg reqData cl =
     (case json_Unmarshal_into dec_httpRequest reqData zero_httpRequest of
        Inl e \<Rightarrow> (None, cl)
      | Inr req \<Rightarrow>
          (let port = resolvePort (settings cl) (os_TargetTunnel openMsg)
           in if port = 0 then (None, cl)
              else
                (let httpReq = build_request order (settings cl) port req
                 in if \<not> url_ok (rq_Method req) (lr_URL httpReq) then (None, cl)
                    else (Some httpReq, answer_stream wok (os_StreamID openMsg) (local httpReq) cl))))"

definition handleOpenStream_finish ::
  "(string \<Rightarrow> string \<Rightarrow> bool) \<Rightarrow> (local_request \<Rightarrow> local_reply) \<Rightarrow> string list \<Rightarrow> write_ok \<Rightarrow> OpenStream
     \<Rightarrow> pending \<Rightarrow> stream_case \<Rightarrow> Client \<Rightarrow> local_request option \<times> Client"
where
  "handleOpenStream_finish url_ok local order wok openMsg p sc cl =
     (case sc of
        StreamRequest reqData \<Rightarrow>
          (let cl1 = cl\<lparr>gc_chans := (gc_chans cl)(pn_data p := map_option tl (gc_chans cl (pn_data p)))\<rparr>;
               (made, cl2) = forward_request url_ok local order wok openMsg reqData cl1
           in (made, unregister_stream (os_StreamID openMsg) cl2))
      | _ \<Rightarrow> (None, unregister_stream (os_StreamID openMsg) cl))"

subsection \<open>Running\<close>

definition run_backoffMs :: "ReconnectConfig \<Rightarrow> int" where
  "run_backoffMs rc = (if rc_BackoffMs rc \<le> 0 then 1000 else rc_BackoffMs rc)"

text \<open>
  \<open>time.Duration(backoffMs) * time.Millisecond * time.Duration(int64(1) << shift)\<close> with
  \<open>shift = min(attempt-1, 10)\<close>; \<open>attempt\<close> is at least 1 here.
\<close>

definition backoff_wait :: "int \<Rightarrow> int \<Rightarrow> duration" where
  "backoff_wait backoffMs attempt =
     dur_mult (dur_mult backoffMs Millisecond) (2 ^ nat (min (attempt - 1) 10))"

definition run_reset :: "Client \<Rightarrow> Client" where
  "run_reset cl = cl\<lparr>gc_done := Suc (gc_done cl), gc_pendingStreams := Map.empty\<rparr>"

text \<open>
  The loop of \<open>Run\<close>. \<open>conn i\<close> is what happens from the \<open>i\<close>-th \<open>Connect\<close> until it has failed or the
  connection has dropped, \<open>closed_in i\<close> whether \<open>Close\<close> is called during the wait after it. \<open>None\<close>: the loop
  has not returned within the fuel. Beside the result it gives the waits.
\<close>

fun run_loop ::
  "nat \<Rightarrow> (nat \<Rightarrow> Client \<Rightarrow> client_error option \<times> Client) \<Rightarrow> (nat \<Rightarrow> bool) \<Rightarrow> int \<Rightarrow> int \<Rightarrow> nat \<Rightarrow> int
     \<Rightarrow> Client \<Rightarrow> (client_error option \<times> duration list \<times> Client) option"
where
  "run_loop 0 conn closed_in maxRetries backoffMs i attempt cl = None"
| "run_loop (Suc fuel) conn closed_in maxRetries backoffMs i attempt cl =
     (let (err, cl1) = conn i (run_reset cl);
          attempt1 = (if err = None then 0 else attempt)
      in if gc_closed cl1 then Some (None, [], cl1)
         else
           (let attempt2 = attempt1 + 1
            in if 0 < maxRetries \<and> maxRetries \<le> attempt2 then Some (Some (MaxReconnects maxRetries), [], cl1)
               else
                 (let wait = backoff_wait backoffMs attempt2
                  in if closed_in i then Some (None, [wait], cl1\<lparr>gc_closed := True\<rparr>)
                     else
                       (case run_loop fuel conn closed_in maxRetries backoffMs (Suc i) attempt2 cl1 of
                          None \<Rightarrow> None
                        | Some (res, waits, cl2) \<Rightarrow> Some (res, wait # waits, cl2)))))"

definition client_Run ::
  "nat \<Rightarrow> (nat \<Rightarrow> Client \<Rightarrow> client_error option \<times> Client) \<Rightarrow> (nat \<Rightarrow> bool) \<Rightarrow> Client
     \<Rightarrow> (client_error option \<times> duration list \<times> Client) option"
where
  "client_Run fuel conn closed_in cl =
     (let rc = cl_Reconnect (settings cl)
      in run_loop fuel conn closed_in (rc_MaxRetries rc) (run_backoffMs rc) 0 0 cl)"

text \<open>\<open>Close\<close>; the closing message of the protocol is written by the third-party library.\<close>

definition client_Close :: "Client \<Rightarrow> Client" where
  "client_Close cl =
     (if gc_closed cl then cl
      else
        (let cl1 = cl\<lparr>gc_closed := True\<rparr>
         in case gc_ws cl1 of None \<Rightarrow> cl1 | Some ws \<Rightarrow> ws_shut ws cl1))"

subsection \<open>Choosing the local port\<close>

lemma last_separator:
  assumes "xs @ c # s = ys @ c # t" "c \<notin> set s" "c \<notin> set t"
  shows "s = t"
proof -
  have split: "takeWhile (\<lambda>x. x \<noteq> c) (rev (zs @ c # r)) = rev r" if "c \<notin> set r" for zs r
    using that by (auto simp: takeWhile_append)
  from split [OF assms(2), of xs] split [OF assms(3), of ys] have "rev s = rev t"
    unfolding assms(1) by simp
  then show ?thesis by simp
qed

lemma suffix_label:
  assumes "CHR ''-'' \<notin> set s" "CHR ''-'' \<notin> set t"
  shows "HasSuffix (cid @ ''-'' @ s) (''-'' @ t) \<longleftrightarrow> s = t"
proof
  assume "HasSuffix (cid @ ''-'' @ s) (''-'' @ t)"
  then obtain p where "cid @ CHR ''-'' # s = p @ CHR ''-'' # t" by (auto simp: HasSuffix_iff)
  then show "s = t" using assms by (rule last_separator)
qed (simp add: HasSuffix_iff)

lemma match_port_first:
  assumes "t \<in> set ts" "HasSuffix target (''-'' @ ct_Subdomain t)"
    and "\<And>u. u \<in> set ts \<Longrightarrow> HasSuffix target (''-'' @ ct_Subdomain u) \<Longrightarrow> ct_Port u = ct_Port t"
  shows "match_port target ts = Some (ct_Port t)"
  using assms
proof (induction ts)
  case (Cons u ts)
  show ?case
  proof (cases "HasSuffix target (''-'' @ ct_Subdomain u)")
    case True
    with Cons.prems(3) [of u] show ?thesis by simp
  next
    case False
    then have "t \<noteq> u" using Cons.prems(2) by (elim contrapos_nn) simp
    then have "t \<in> set ts" using Cons.prems(1) by simp
    from Cons.IH [OF this Cons.prems(2)] Cons.prems(3) False show ?thesis by simp
  qed
qed simp

subsection \<open>The reconnection loop\<close>

lemma backoff_wait_exact:
  assumes "0 < b" "b \<le> 9007199254" "1 \<le> n"
  shows "backoff_wait b n = b * 1000000 * 2 ^ nat (min (n - 1) 10)"
proof -
  have base: "dur_mult b Millisecond = b * 1000000"
    using assms(1,2) by (simp add: dur_mult_exact Millisecond_def max_int64_def)
  have "(2::int) ^ nat (min (n - 1) 10) \<le> 2 ^ 10"
    by (rule power_increasing) auto
  moreover have "b * 1000000 * 2 ^ 10 \<le> max_int64" using assms(2) by (simp add: max_int64_def)
  ultimately have "b * 1000000 * 2 ^ nat (min (n - 1) 10) \<le> max_int64"
    using assms(1) by (smt (verit) mult_left_mono)
  then show ?thesis
    using assms(1) by (simp add: backoff_wait_def base dur_mult_exact)
qed

lemma run_loop_retry:
  assumes "conn i (run_reset cl) = (Some e, cl1)" "\<not> gc_closed cl1" "\<not> (0 < m \<and> m \<le> n + 1)"
    and "\<not> closed_in i" "run_loop fuel conn closed_in m b (Suc i) (n + 1) cl1 = Some (r, ws, cl2)"
  shows "run_loop (Suc fuel) conn closed_in m b i n cl = Some (r, backoff_wait b (n + 1) # ws, cl2)"
  using assms by (simp add: Let_def)

lemma run_loop_fails:
  assumes "\<And>i cl. fst (conn i cl) \<noteq> None" "\<And>i cl. gc_closed (snd (conn i cl)) = gc_closed cl"
    and "\<And>i. \<not> closed_in i" "\<not> gc_closed cl" "0 < m" "m = n + int k + 1" "0 \<le> n" "Suc k \<le> fuel"
  shows "\<exists>cl'. run_loop fuel conn closed_in m b i n cl =
    Some (Some (MaxReconnects m), map (\<lambda>j. backoff_wait b (n + int j + 1)) [0..<k], cl')"
  using assms(4-)
proof (induction k arbitrary: fuel i n cl)
  case 0
  obtain err cl1 where c: "conn i (run_reset cl) = (err, cl1)" by (metis surj_pair)
  obtain f where "fuel = Suc f" using 0 by (cases fuel) auto
  moreover have "err \<noteq> None" "\<not> gc_closed cl1"
    using assms(1,2) [of i "run_reset cl"] c 0 by (simp_all add: run_reset_def)
  ultimately show ?case using 0 c by auto
next
  case (Suc k)
  obtain err cl1 where c: "conn i (run_reset cl) = (err, cl1)" by (metis surj_pair)
  obtain f where f: "fuel = Suc f" "Suc k \<le> f" using Suc.prems by (cases fuel) auto
  have e: "err \<noteq> None" "\<not> gc_closed cl1"
    using assms(1,2) [of i "run_reset cl"] c Suc.prems(1) by (simp_all add: run_reset_def)
  have "m = (n + 1) + int k + 1" "0 \<le> n + 1" using Suc.prems by simp_all
  from Suc.IH [OF e(2) Suc.prems(2) this f(2), of "Suc i"] obtain cl' where rest:
    "run_loop f conn closed_in m b (Suc i) (n + 1) cl1 =
      Some (Some (MaxReconnects m), map (\<lambda>j. backoff_wait b (n + 1 + int j + 1)) [0..<k], cl')"
    by (elim exE)
  have "map (\<lambda>j. backoff_wait b (n + int j + 1)) [0..<Suc k] =
      backoff_wait b (n + 1) # map (\<lambda>j. backoff_wait b (n + 1 + int j + 1)) [0..<k]"
    by (subst upt_conv_Cons) (simp_all add: map_Suc_upt [symmetric] o_def add_ac del: upt_Suc)
  moreover have "\<not> (0 < m \<and> m \<le> n + 1)" using Suc.prems(3) by simp
  moreover obtain x where "err = Some x" using e(1) by auto
  ultimately show ?case unfolding f(1) using run_loop_retry [OF _ e(2) _ assms(3) rest] c by auto
qed

lemma run_loop_forever:
  assumes "\<And>i cl. gc_closed (snd (conn i cl)) = gc_closed cl" "\<And>i. \<not> closed_in i" "m \<le> 0" "\<not> gc_closed cl"
  shows "run_loop fuel conn closed_in m b i n cl = None"
  using assms(4)
proof (induction fuel arbitrary: i n cl)
  case (Suc fuel)
  obtain err cl1 where c: "conn i (run_reset cl) = (err, cl1)" by (metis surj_pair)
  have "\<not> gc_closed cl1" using assms(1) [of i "run_reset cl"] c Suc.prems by (simp add: run_reset_def)
  with Suc.IH [OF this] c assms(2,3) show ?case by simp
qed simp

subsection \<open>The frames of an answer\<close>

definition stream_frames :: "string \<Rightarrow> bytes \<Rightarrow> bytes list" where
  "stream_frames sid d =
     [EncodeFrame FrameStreamData (bytes_of_string (json_print (enc_StreamData \<lparr>sd_StreamID = sid, sd_Data = d\<rparr>))),
      EncodeFrame FrameCloseStream (bytes_of_string (json_print (enc_CloseStream \<lparr>cs_StreamID = sid\<rparr>)))]"

lemma client_write_fields [simp]:
  "gc_ws (snd (client_write wok d cl)) = gc_ws cl" "gc_cfg (snd (client_write wok d cl)) = gc_cfg cl"
  "gc_pendingStreams (snd (client_write wok d cl)) = gc_pendingStreams cl"
  "gc_chans (snd (client_write wok d cl)) = gc_chans cl" "gc_closed (snd (client_write wok d cl)) = gc_closed cl"
  by (simp_all add: client_write_def split: option.split prod.split)

lemma client_write_received:
  assumes "gc_ws cl = Some ws" "\<And>n. wok ws n"
  shows "ws_received (gc_log (snd (client_write wok d cl))) ws = ws_received (gc_log cl) ws @ [d]"
  using assms by (simp add: client_write_def ws_WriteMessage_def ws_received_def Let_def)

lemma send_fields [simp]:
  "gc_ws (sendStreamData wok sid d cl) = gc_ws cl" "gc_ws (sendCloseStream wok sid cl) = gc_ws cl"
  "gc_pendingStreams (sendStreamData wok sid d cl) = gc_pendingStreams cl"
  "gc_pendingStreams (sendCloseStream wok sid cl) = gc_pendingStreams cl"
  by (simp_all add: sendStreamData_def sendCloseStream_def EncodeControlMessage_frame)

lemma send_stream_received:
  assumes "gc_ws cl = Some ws" "\<And>n. wok ws n"
  shows "ws_received (gc_log (sendCloseStream wok sid (sendStreamData wok sid d cl))) ws
    = ws_received (gc_log cl) ws @ stream_frames sid d"
  using client_write_received [of cl ws wok] client_write_received [of "snd (client_write wok f cl)" ws wok for f] assms
  by (simp add: sendStreamData_def sendCloseStream_def EncodeControlMessage_frame stream_frames_def)

lemma stream_frames_read:
  assumes "valid_utf8 sid" "length (json_print (enc_StreamData \<lparr>sd_StreamID = sid, sd_Data = d\<rparr>)) < 2 ^ 32"
  obtains f1 f2 where "stream_frames sid d = [f1, f2]"
    "read_message f1 = Some (MStreamData \<lparr>sd_StreamID = sid, sd_Data = d\<rparr>)"
    "read_message f2 = Some (MCloseStream \<lparr>cs_StreamID = sid\<rparr>)"
proof -
  have "length (json_print (enc_CloseStream \<lparr>cs_StreamID = sid\<rparr>))
      \<le> length (json_print (enc_StreamData \<lparr>sd_StreamID = sid, sd_Data = d\<rparr>))"
    by (simp add: enc_CloseStream_def enc_StreamData_def enc_bytes_def)
  with assms(2) have "length (json_print (enc_CloseStream \<lparr>cs_StreamID = sid\<rparr>)) < 2 ^ 32" by simp
  then show thesis
    using that read_wire [of "MStreamData \<lparr>sd_StreamID = sid, sd_Data = d\<rparr>"]
      read_wire [of "MCloseStream \<lparr>cs_StreamID = sid\<rparr>"] assms
    by (simp add: stream_frames_def valid_StreamData_def valid_CloseStream_def)
qed

text \<open>What the gateway is told about a local reply, if anything.\<close>

definition local_envelope :: "local_reply \<Rightarrow> httpResponse option" where
  "local_envelope reply =
     (case reply of
        DoFailed \<Rightarrow> Some \<lparr>rs_StatusCode = 502, rs_Headers = [(''Content-Type'', ''text/plain'')],
                          rs_Body = bytes_of_string ''local service unavailable''\<rparr>
      | BodyFailed \<Rightarrow> None
      | LocalReply st keys h body \<Rightarrow>
          Some \<lparr>rs_StatusCode = st, rs_Headers = join_headers keys h, rs_Body = body\<rparr>)"

lemma answer_stream_envelope:
  "answer_stream wok sid reply cl =
     (case local_envelope reply of
        None \<Rightarrow> cl
      | Some resp \<Rightarrow> sendCloseStream wok sid (sendStreamData wok sid
          (bytes_of_string (json_print (enc_httpResponse resp))) cl))"
  by (simp add: answer_stream_def local_envelope_def sendErrorResponse_def json_Marshal_def Let_def
      split: local_reply.split)

lemma forward_request_made:
  assumes "valid_httpRequest q" "resolvePort (settings cl) (os_TargetTunnel om) = port" "port \<noteq> 0"
    and "url_ok (rq_Method q) (target_url (settings cl) port (rq_Path q))"
  shows "forward_request url_ok local order wok om (bytes_of_string (json_print (enc_httpRequest q))) cl =
    (Some (build_request order (settings cl) port q),
     answer_stream wok (os_StreamID om) (local (build_request order (settings cl) port q)) cl)"
  using assms
  by (simp add: forward_request_def http_request.unmarshal_marshal Let_def build_request_def)

subsection \<open>An example\<close>

definition ex_tunnels :: "ClientTunnel list" where
  "ex_tunnels =
     [\<lparr>ct_Name = ''web'', ct_Port = 3000, ct_Protocol = ''http'', ct_Subdomain = ''app''\<rparr>,
      \<lparr>ct_Name = ''beta'', ct_Port = 4000, ct_Protocol = ''http'', ct_Subdomain = ''my-app''\<rparr>,
      \<lparr>ct_Name = ''blog'', ct_Port = 5000, ct_Protocol = ''http'', ct_Subdomain = ''blog''\<rparr>]"

definition ex_settings :: ClientSettings where
  "ex_settings =
     (ccfg_Client clientDefaults)\<lparr>cl_GatewayURL := ''ws://gw/connect'', cl_Token := ''t'', cl_Tunnels := ex_tunnels,
        cl_Reconnect := \<lparr>rc_MaxRetries = 4, rc_BackoffMs = 500\<rparr>,
        cl_TLS := \<lparr>ctls_SkipVerify = False, ctls_CAFile = []\<rparr>\<rparr>"

definition ex_cl :: Client where
  "ex_cl =
     \<lparr>gc_cfg = \<lparr>ccfg_Client = ex_settings\<rparr>, gc_ws = Some 7,
      gc_logger = fst (logging_Default None), gc_done = 1, gc_doneClosed = {0}, gc_closed = False,
      gc_pendingStreams = [''1'' \<mapsto> 0],
      gc_chans = [0 \<mapsto> [bytes_of_string (json_print (enc_httpRequest ex_request))]],
      gc_next = 1, gc_log = (\<lambda>_. []), gc_shut = {}\<rparr>"

definition ex_open :: OpenStream where
  "ex_open =
     \<lparr>os_Type = ''open_stream'', os_StreamID = ''1'', os_TargetTunnel = ''conn-5-blog'',
      os_Metadata = \<lparr>sm_Method = ''GET'', sm_Path = ''/x''\<rparr>\<rparr>"

lemma ex_settings_tunnels: "cl_Tunnels ex_settings = ex_tunnels"
  by (simp add: ex_settings_def)

subsection \<open>Properties\<close>

text \<open>C25. When the subdomains of a client are distinct and have no hyphen, every stream goes to the local
  port of the tunnel it was opened for, whatever connection ID the gateway has chosen.\<close>

theorem resolvePort_exact:
  assumes "t \<in> set (cl_Tunnels c)" "distinct (map ct_Subdomain (cl_Tunnels c))"
    and "list_all (\<lambda>u. CHR ''-'' \<notin> set (ct_Subdomain u)) (cl_Tunnels c)"
  shows "resolvePort c (connID @ ''-'' @ ct_Subdomain t) = ct_Port t"
proof -
  have h: "CHR ''-'' \<notin> set (ct_Subdomain u)" if "u \<in> set (cl_Tunnels c)" for u
    using assms(3) that by (simp add: list_all_iff)
  have "match_port (connID @ ''-'' @ ct_Subdomain t) (cl_Tunnels c) = Some (ct_Port t)"
  proof (rule match_port_first [OF assms(1)])
    show "HasSuffix (connID @ ''-'' @ ct_Subdomain t) (''-'' @ ct_Subdomain t)"
      unfolding suffix_label [OF h [OF assms(1)] h [OF assms(1)]] ..
    fix u assume u: "u \<in> set (cl_Tunnels c)"
      "HasSuffix (connID @ ''-'' @ ct_Subdomain t) (''-'' @ ct_Subdomain u)"
    from u(2) have "ct_Subdomain t = ct_Subdomain u"
      unfolding suffix_label [OF h [OF assms(1)] h [OF u(1)]] .
    then have "u = t" using assms(1,2) u(1) by (simp add: distinct_map inj_on_def)
    then show "ct_Port u = ct_Port t" by simp
  qed
  then show ?thesis by (simp add: resolvePort_def)
qed

theorem resolvePort_exact_witness:
  "resolvePort (ex_settings\<lparr>cl_Tunnels := [ex_tunnels ! 0, ex_tunnels ! 2]\<rparr>) (''conn-5'' @ ''-'' @ ct_Subdomain (ex_tunnels ! 2))
     = ct_Port (ex_tunnels ! 2)"
  by (rule resolvePort_exact) (simp_all add: ex_tunnels_def)

text \<open>The port is chosen by the end of the tunnel ID, so a tunnel whose subdomain ends in a hyphen and the
  subdomain of the client's first tunnel loses its requests: they all go to the first tunnel's port.\<close>

theorem resolvePort_suffix_confusion:
  assumes "cl_Tunnels c = t # ts" "u \<in> set ts" "ct_Subdomain u = x @ ''-'' @ ct_Subdomain t"
  shows "resolvePort c (connID @ ''-'' @ ct_Subdomain u) = ct_Port t"
proof -
  have "HasSuffix ((connID @ ''-'' @ x) @ (''-'' @ ct_Subdomain t)) (''-'' @ ct_Subdomain t)"
    by (rule HasSuffix_append)
  then show ?thesis unfolding assms(3) by (simp add: resolvePort_def assms(1))
qed

theorem resolvePort_suffix_confusion_witness:
  "resolvePort ex_settings (''conn-5'' @ ''-'' @ ct_Subdomain (ex_tunnels ! 1)) = ct_Port (ex_tunnels ! 0)
   \<and> ct_Port (ex_tunnels ! 0) \<noteq> ct_Port (ex_tunnels ! 1)"
proof
  show "resolvePort ex_settings (''conn-5'' @ ''-'' @ ct_Subdomain (ex_tunnels ! 1)) = ct_Port (ex_tunnels ! 0)"
    by (rule resolvePort_suffix_confusion [of _ _ "tl ex_tunnels" _ "''my''"])
      (simp_all add: ex_settings_def ex_tunnels_def)
  show "ct_Port (ex_tunnels ! 0) \<noteq> ct_Port (ex_tunnels ! 1)" by (simp add: ex_tunnels_def)
qed

text \<open>The state in which a stream leaves the client, with its two frames sent.\<close>

lemma handler_sends:
  assumes "gc_ws cl = Some ws" "\<And>n. wok ws n" "valid_httpRequest q"
    and "resolvePort (settings cl) (os_TargetTunnel om) = port" "port \<noteq> 0"
    and "url_ok (rq_Method q) (target_url (settings cl) port (rq_Path q))"
    and "local_envelope (local (build_request order (settings cl) port q)) = Some resp"
    and "handleOpenStream_finish url_ok local order wok om p
      (StreamRequest (bytes_of_string (json_print (enc_httpRequest q)))) cl = (made, cl')"
  shows "made = Some (build_request order (settings cl) port q)"
    and "ws_received (gc_log cl') ws = ws_received (gc_log cl) ws @
      stream_frames (os_StreamID om) (bytes_of_string (json_print (enc_httpResponse resp)))"
    and "gc_pendingStreams cl' (os_StreamID om) = None"
proof -
  let ?cl = "cl\<lparr>gc_chans := (gc_chans cl)(pn_data p := map_option tl (gc_chans cl (pn_data p)))\<rparr>"
  have "made = Some (build_request order (settings cl) port q) \<and> cl' = unregister_stream (os_StreamID om)
      (sendCloseStream wok (os_StreamID om) (sendStreamData wok (os_StreamID om)
        (bytes_of_string (json_print (enc_httpResponse resp))) ?cl))"
    using forward_request_made [of q ?cl om port url_ok local order wok] assms(3-8)
    by (simp add: handleOpenStream_finish_def answer_stream_envelope)
  with send_stream_received [of ?cl ws wok] assms(1,2)
  show "made = Some (build_request order (settings cl) port q)"
    "ws_received (gc_log cl') ws = ws_received (gc_log cl) ws @
      stream_frames (os_StreamID om) (bytes_of_string (json_print (enc_httpResponse resp)))"
    "gc_pendingStreams cl' (os_StreamID om) = None"
    by (simp_all add: unregister_stream_def)
qed

text \<open>A stream whose request has arrived is forwarded to the local service under the method, path, headers
  and body of the envelope, and the reply of the service, or a 502 when it cannot be reached, goes back
  as one \<open>stream_data\<close> frame for the same stream that decodes to exactly that response, followed by a
  \<open>close_stream\<close> frame.\<close>

theorem client_forwards_stream:
  assumes "gc_ws cl = Some ws" "\<forall>n. wok ws n" "valid_httpRequest q" "valid_utf8 (os_StreamID om)"
    and "resolvePort (settings cl) (os_TargetTunnel om) = port" "port \<noteq> 0"
    and "url_ok (rq_Method q) (target_url (settings cl) port (rq_Path q))"
    and "local_envelope (local (build_request order (settings cl) port q)) = Some resp" "valid_httpResponse resp"
    and "length (json_print (enc_StreamData \<lparr>sd_StreamID = os_StreamID om,
      sd_Data = bytes_of_string (json_print (enc_httpResponse resp))\<rparr>)) < 2 ^ 32"
  shows "\<exists>cl' f1 f2 d.
    handleOpenStream_finish url_ok local order wok om p
      (StreamRequest (bytes_of_string (json_print (enc_httpRequest q)))) cl
      = (Some (build_request order (settings cl) port q), cl')
    \<and> ws_received (gc_log cl') ws = ws_received (gc_log cl) ws @ [f1, f2]
    \<and> read_message f1 = Some (MStreamData \<lparr>sd_StreamID = os_StreamID om, sd_Data = d\<rparr>)
    \<and> json_Unmarshal_into dec_httpResponse d zero_httpResponse = Inr resp
    \<and> read_message f2 = Some (MCloseStream \<lparr>cs_StreamID = os_StreamID om\<rparr>)
    \<and> gc_pendingStreams cl' (os_StreamID om) = None"
proof -
  let ?d = "bytes_of_string (json_print (enc_httpResponse resp))"
  obtain made cl' where fin: "handleOpenStream_finish url_ok local order wok om p
      (StreamRequest (bytes_of_string (json_print (enc_httpRequest q)))) cl = (made, cl')" by (metis surj_pair)
  have wok: "wok ws n" for n using assms(2) by simp
  note sent = handler_sends [OF assms(1) wok assms(3,5-8) fin]
  obtain f1 f2 where "stream_frames (os_StreamID om) ?d = [f1, f2]"
    "read_message f1 = Some (MStreamData \<lparr>sd_StreamID = os_StreamID om, sd_Data = ?d\<rparr>)"
    "read_message f2 = Some (MCloseStream \<lparr>cs_StreamID = os_StreamID om\<rparr>)"
    using assms(4,10) by (rule stream_frames_read)
  with sent fin http_response.unmarshal_marshal [OF assms(9)] show ?thesis by auto
qed

lemma length_enc_StreamData:
  "length (json_print (enc_StreamData \<lparr>sd_StreamID = sid, sd_Data = d\<rparr>)) \<le> 6 * length sid + 12 * length d + 200"
  using length_escape [of sid] length_escape [of "b64_EncodeToString d"] length_b64 [of d]
    length_escape [of "''stream_id''"] length_escape [of "''data''"]
  by (simp add: enc_StreamData_def enc_bytes_def)

lemma length_enc_502:
  "length (json_print (enc_httpResponse \<lparr>rs_StatusCode = 502, rs_Headers = [(''Content-Type'', ''text/plain'')],
     rs_Body = bytes_of_string ''local service unavailable''\<rparr>)) \<le> 1500"
  using length_escape [of "b64_EncodeToString (bytes_of_string ''local service unavailable'')"]
    length_b64 [of "bytes_of_string ''local service unavailable''"] length_FormatUint [of 502]
    length_escape [of "''Content-Type''"] length_escape [of "''text/plain''"] length_escape [of "''status_code''"]
    length_escape [of "''headers''"] length_escape [of "''body''"]
  by (simp add: enc_httpResponse_def enc_int_def enc_string_map_def enc_bytes_def omitempty_def FormatInt_def
      del: b64_EncodeToString.simps)

theorem client_forwards_stream_witness:
  "\<exists>cl' f1 f2 d.
    handleOpenStream_finish (\<lambda>_ _. True) (\<lambda>_. DoFailed) [''Accept''] (\<lambda>_ _. True) ex_open \<lparr>pn_data = 0, pn_done = 1\<rparr>
      (StreamRequest (bytes_of_string (json_print (enc_httpRequest ex_request)))) ex_cl
      = (Some (build_request [''Accept''] ex_settings 5000 ex_request), cl')
    \<and> ws_received (gc_log cl') 7 = [f1, f2]
    \<and> read_message f1 = Some (MStreamData \<lparr>sd_StreamID = ''1'', sd_Data = d\<rparr>)
    \<and> json_Unmarshal_into dec_httpResponse d zero_httpResponse
        = Inr \<lparr>rs_StatusCode = 502, rs_Headers = [(''Content-Type'', ''text/plain'')],
               rs_Body = bytes_of_string ''local service unavailable''\<rparr>"
proof -
  let ?resp = "\<lparr>rs_StatusCode = 502, rs_Headers = [(''Content-Type'', ''text/plain'')],
               rs_Body = bytes_of_string ''local service unavailable''\<rparr>"
  have port: "resolvePort (settings ex_cl) (os_TargetTunnel ex_open) = 5000"
    by (simp add: ex_cl_def ex_settings_def ex_open_def ex_tunnels_def resolvePort_def HasSuffix_def)
  have v: "valid_httpResponse ?resp" "valid_utf8 (os_StreamID ex_open)"
    by (simp_all add: valid_httpResponse_def int64_ok_def min_int64_def max_int64_def valid_utf8_ascii
        is_ascii_def sorted_map_def ex_open_def)
  have len: "length (json_print (enc_StreamData \<lparr>sd_StreamID = os_StreamID ex_open,
      sd_Data = bytes_of_string (json_print (enc_httpResponse ?resp))\<rparr>)) < 2 ^ 32"
    using length_enc_StreamData [of "os_StreamID ex_open" "bytes_of_string (json_print (enc_httpResponse ?resp))"]
      length_enc_502 by (simp add: ex_open_def)
  have ws: "gc_ws ex_cl = Some 7" "settings ex_cl = ex_settings" "ws_received (gc_log ex_cl) 7 = []"
    "os_StreamID ex_open = ''1''"
    by (simp_all add: ex_cl_def ex_open_def ws_received_def)
  have env: "local_envelope DoFailed = Some ?resp" by (simp add: local_envelope_def)
  show ?thesis
    using client_forwards_stream [of ex_cl 7 "\<lambda>_ _. True" ex_request ex_open 5000 "\<lambda>_ _. True" "\<lambda>_. DoFailed"
        "[''Accept'']" ?resp "\<lparr>pn_data = 0, pn_done = 1\<rparr>", OF ws(1) _ ex_request_valid v(2) port _ _ env v(1) len]
    unfolding ws by auto
qed

text \<open>C31. The handler of a stream ends without sending any frame when it times out or loses its connection
  before the request comes, when the request's envelope is malformed, when there is no tunnel to
  forward to (no tunnel is configured, or the chosen tunnel's port is zero), when the URL of this
  request is not accepted, or when the body of the local response to this request breaks off.\<close>

theorem client_stays_silent:
  assumes "case sc of
      StreamRequest d \<Rightarrow>
        (case json_Unmarshal_into dec_httpRequest d zero_httpRequest of
           Inl e \<Rightarrow> True
         | Inr req \<Rightarrow>
             cl_Tunnels (settings cl) = [] \<or> port = 0 \<or> \<not> url_ok (rq_Method req) (target_url (settings cl) port (rq_Path req))
             \<or> local (build_request order (settings cl) port req) = BodyFailed)
    | _ \<Rightarrow> True"
    and "port = resolvePort (settings cl) (os_TargetTunnel om)"
  shows "gc_log (snd (handleOpenStream_finish url_ok local order wok om p sc cl)) = gc_log cl"
proof (cases sc)
  case (StreamRequest d)
  let ?cl = "cl\<lparr>gc_chans := (gc_chans cl)(pn_data p := map_option tl (gc_chans cl (pn_data p)))\<rparr>"
  have "cl_Tunnels (settings cl) = [] \<Longrightarrow> resolvePort (settings cl) x = 0" for x
    by (simp add: resolvePort_def)
  with assms StreamRequest have "gc_log (snd (forward_request url_ok local order wok om d ?cl)) = gc_log cl"
    by (auto simp: forward_request_def Let_def answer_stream_envelope local_envelope_def build_request_def
        split: sum.splits)
  with StreamRequest show ?thesis
    by (simp add: handleOpenStream_finish_def unregister_stream_def case_prod_unfold Let_def)
qed (simp_all add: handleOpenStream_finish_def unregister_stream_def)

theorem client_stays_silent_witness:
  "gc_log (snd (handleOpenStream_finish (\<lambda>_ _. True) (\<lambda>_. DoFailed) [] (\<lambda>_ _. True) ex_open
      \<lparr>pn_data = 0, pn_done = 1\<rparr> StreamTimeout ex_cl)) = gc_log ex_cl
   \<and> gc_log (snd (handleOpenStream_finish (\<lambda>m u. u \<noteq> ''http://127.0.0.1:5000'' @ rq_Path ex_request) (\<lambda>_. DoFailed) []
      (\<lambda>_ _. True) ex_open \<lparr>pn_data = 0, pn_done = 1\<rparr>
      (StreamRequest (bytes_of_string (json_print (enc_httpRequest ex_request)))) ex_cl)) = gc_log ex_cl
   \<and> gc_log (snd (handleOpenStream_finish (\<lambda>_ _. True)
      (\<lambda>q. if lr_URL q = ''http://127.0.0.1:5000'' @ rq_Path ex_request then BodyFailed else DoFailed) []
      (\<lambda>_ _. True) ex_open \<lparr>pn_data = 0, pn_done = 1\<rparr>
      (StreamRequest (bytes_of_string (json_print (enc_httpRequest ex_request)))) ex_cl)) = gc_log ex_cl"
proof -
  have port: "5000 = resolvePort (settings ex_cl) (os_TargetTunnel ex_open)"
    by (simp add: ex_cl_def ex_settings_def ex_open_def ex_tunnels_def resolvePort_def HasSuffix_def)
  have "FormatInt 5000 = ''5000''" by code_simp
  then have url: "target_url (settings ex_cl) 5000 (rq_Path ex_request) = ''http://127.0.0.1:5000'' @ rq_Path ex_request"
    by (simp add: target_url_def local_bind_def ex_cl_def ex_settings_def clientDefaults_def)
  note dec = http_request.unmarshal_marshal [OF ex_request_valid]
  show ?thesis
    by (intro conjI; rule client_stays_silent [OF _ port]) (simp_all add: dec url build_request_def)
qed

text \<open>C38. The handler of a stream runs in a goroutine of its own, and the data of the stream is dropped when it
  is read before the handler has registered its channel: the handler then waits for a request that
  never comes.\<close>

theorem early_stream_data_is_lost:
  assumes "read_message raw = Some (MStreamData sd)" "gc_pendingStreams cl (sd_StreamID sd) = None"
    and "client_read raw cl = (started, cl1)" "handleOpenStream_begin om cl1 = (p, cl2)"
  shows "started = None \<and> cl1 = cl \<and> (\<forall>d. \<not> stream_ready cl2 p (StreamRequest d))"
proof -
  have "client_read raw cl = (None, client_deliverStreamData (sd_StreamID sd) (sd_Data sd) cl)"
    using assms(1)
    by (auto simp: read_message_def client_read_def to_option_def frame_types split: sum.splits if_splits)
  then have "started = None" "cl1 = cl"
    using assms(2,3) by (simp_all add: client_deliverStreamData_def)
  moreover have "gc_chans cl2 (pn_data p) = Some []"
    using assms(4) by (auto simp: handleOpenStream_begin_def Let_def)
  ultimately show ?thesis by (simp add: stream_ready_def)
qed

text \<open>Data that comes after the registration is delivered.\<close>

lemma ordered_stream_data:
  assumes "handleOpenStream_begin om cl = (p, cl1)"
    and "read_message raw = Some (MStreamData \<lparr>sd_StreamID = os_StreamID om, sd_Data = d\<rparr>)"
  shows "\<exists>cl2. client_read raw cl1 = (None, cl2) \<and> stream_ready cl2 p (StreamRequest d) \<and>
    gc_ws cl2 = gc_ws cl \<and> gc_log cl2 = gc_log cl \<and> gc_cfg cl2 = gc_cfg cl"
proof -
  have "client_read raw cl1 = (None, client_deliverStreamData (os_StreamID om) d cl1)"
    using assms(2)
    by (auto simp: read_message_def client_read_def to_option_def frame_types split: sum.splits if_splits)
  moreover have "gc_pendingStreams cl1 (os_StreamID om) = Some (pn_data p)" "gc_chans cl1 (pn_data p) = Some []"
    "gc_ws cl1 = gc_ws cl" "gc_log cl1 = gc_log cl" "gc_cfg cl1 = gc_cfg cl"
    using assms(1) by (auto simp: handleOpenStream_begin_def Let_def)
  ultimately show ?thesis by (simp add: client_deliverStreamData_def stream_ready_def)
qed

lemma client_read_open:
  "read_message raw = Some (MOpenStream om) \<Longrightarrow> client_read raw cl = (Some om, cl)"
  by (auto simp: read_message_def client_read_def to_option_def frame_types split: sum.splits if_splits)

definition ex_early :: StreamData where
  "ex_early = \<lparr>sd_StreamID = ''2'', sd_Data = [1]\<rparr>"

lemma ex_early_read:
  "read_message (EncodeFrame FrameStreamData (bytes_of_string (json_print (enc_StreamData ex_early))))
     = Some (MStreamData ex_early)"
  using length_enc_StreamData [of "''2''" "[1]"]
  by (intro read_wire [of "MStreamData ex_early", simplified])
    (simp_all add: ex_early_def valid_StreamData_def valid_utf8_ascii is_ascii_def)

theorem early_stream_data_is_lost_witness:
  "\<exists>p cl2. client_read (EncodeFrame FrameStreamData (bytes_of_string (json_print (enc_StreamData ex_early)))) ex_cl
      = (None, ex_cl) \<and> handleOpenStream_begin (ex_open\<lparr>os_StreamID := ''2''\<rparr>) ex_cl = (p, cl2)
      \<and> \<not> stream_ready cl2 p (StreamRequest [1])"
proof -
  let ?raw = "EncodeFrame FrameStreamData (bytes_of_string (json_print (enc_StreamData ex_early)))"
  obtain st cl1 where r: "client_read ?raw ex_cl = (st, cl1)" by (metis surj_pair)
  obtain p cl2 where b: "handleOpenStream_begin (ex_open\<lparr>os_StreamID := ''2''\<rparr>) cl1 = (p, cl2)" by (metis surj_pair)
  have "gc_pendingStreams ex_cl (sd_StreamID ex_early) = None" by (simp add: ex_cl_def ex_early_def)
  from early_stream_data_is_lost [OF ex_early_read this r b] r b show ?thesis by auto
qed



text \<open>Without a limit on the retries \<open>Run\<close> does not return as long as nobody closes the client, whether
  the attempts succeed or fail.\<close>

theorem Run_retries_forever:
  assumes "\<forall>i cl. gc_closed (snd (conn i cl)) = gc_closed cl" "\<forall>i. \<not> closed_in i" "\<not> gc_closed cl"
    and "rc_MaxRetries (cl_Reconnect (settings cl)) \<le> 0"
  shows "client_Run fuel conn closed_in cl = None"
  using assms by (simp add: client_Run_def Let_def run_loop_forever)

theorem Run_retries_forever_witness:
  "client_Run 1000 (\<lambda>i cl. (if even i then Some DialFailed else None, cl)) (\<lambda>_. False)
     (ex_cl\<lparr>gc_cfg := clientDefaults\<rparr>) = None"
  by (rule Run_retries_forever) (simp_all add: ex_cl_def clientDefaults_def)

text \<open>Closing ends the loop at its next turn, without an error, and closing twice is closing once.\<close>

lemma Run_stops_when_closed:
  "gc_closed (snd (conn 0 (run_reset cl))) \<Longrightarrow>
     client_Run (Suc fuel) conn closed_in cl = Some (None, [], snd (conn 0 (run_reset cl)))"
  by (simp add: client_Run_def Let_def case_prod_unfold)

lemma client_Close_idem: "client_Close (client_Close cl) = client_Close cl"
  by (simp add: client_Close_def Let_def ws_shut_def split: option.split)

lemma register_reply_OK:
  "register_reply (Some raw) = None \<longleftrightarrow>
     (\<exists>cr. read_message raw = Some (MControlResponse cr) \<and> cr_Code cr = CodeOK)"
proof (cases "decode_msg raw")
  case (Inr fp)
  obtain ft payload where fp: "fp = (ft, payload)" by (cases fp)
  show ?thesis
  proof (cases "ft = FrameControlResponse")
    case True
    then have "read_message raw = map_option MControlResponse
        (to_option (DecodeControlMessage dec_ControlResponse payload zero_ControlResponse))"
      using Inr fp by (simp add: read_message_def frame_types)
    with Inr fp True show ?thesis
      by (cases "DecodeControlMessage dec_ControlResponse payload zero_ControlResponse")
        (simp_all add: register_reply_def to_option_def)
  next
    case False
    then have "read_message raw \<noteq> Some (MControlResponse cr)" for cr
      using Inr fp by (auto simp: read_message_def split: if_splits)
    with Inr fp False show ?thesis by (simp add: register_reply_def)
  qed
qed (simp add: register_reply_def read_message_def)

text \<open>C26. A connection attempt whose TLS settings are readable and whose dialing and sending succeed puts one
  frame on the new socket, which the gateway reads as a registration with the configured token, the
  configured tunnels in their order with their name, protocol, port and subdomain, no client ID, and the
  operating system and version \<open>1.0.0\<close> as metadata, provided these strings are UTF-8, the ports fit an
  \<open>int\<close> and the JSON is shorter than \<open>2 ^ 32\<close> bytes; the attempt succeeds exactly when the first answer of
  the gateway is a control response with code 1000, and the socket is closed otherwise.\<close>

theorem Connect_registers_tunnels:
  assumes "client_tls read_file pem_ok (cl_TLS (settings cl)) = Inr tc"
    and "dial tc (cl_GatewayURL (settings cl)) = Some ws" "\<forall>n. wok ws n" "ws \<notin> gc_shut cl"
    and "reg = \<lparr>reg_Type = ''register'', reg_Token = cl_Token (settings cl),
      reg_Tunnels = map (\<lambda>t. \<lparr>tc_Name = ct_Name t, tc_Protocol = ct_Protocol t, tc_Port = ct_Port t,
                               tc_Subdomain = ct_Subdomain t\<rparr>) (cl_Tunnels (settings cl)),
      reg_ClientID = [], reg_Metadata = \<lparr>cm_OS = goos, cm_Version = ''1.0.0''\<rparr>\<rparr>"
    and "valid_Register reg" "length (json_print (enc_Register reg)) < 2 ^ 32"
    and "client_Connect read_file pem_ok dial goos wok (Some raw) cl = (err, cl')"
  shows "(\<exists>frame. ws_received (gc_log cl') ws = ws_received (gc_log cl) ws @ [frame] \<and>
       read_message frame = Some (MRegister reg))
    \<and> gc_ws cl' = Some ws
    \<and> (err = None \<longleftrightarrow> (\<exists>cr. read_message raw = Some (MControlResponse cr) \<and> cr_Code cr = CodeOK))
    \<and> (err = None \<longleftrightarrow> ws \<notin> gc_shut cl')"
proof -
  have reg: "register_message goos (settings cl) = reg" by (simp add: register_message_def assms(5))
  let ?f = "EncodeFrame FrameRegister (bytes_of_string (json_print (enc_Register reg)))"
  let ?cl = "cl\<lparr>gc_ws := Some ws\<rparr>"
  obtain ok cl2 where w: "client_write wok ?f ?cl = (ok, cl2)" by (metis surj_pair)
  have cl2: "ok" "gc_ws cl2 = Some ws" "gc_shut cl2 = gc_shut cl"
    "ws_received (gc_log cl2) ws = ws_received (gc_log cl) ws @ [?f]"
    using w assms(3) client_write_received [of ?cl ws wok ?f]
    by (auto simp: client_write_def ws_WriteMessage_def Let_def)
  have "(err, cl') = (register_reply (Some raw),
      (case register_reply (Some raw) of None \<Rightarrow> cl2 | Some e \<Rightarrow> ws_shut ws cl2))"
    using assms(1,2,8) w cl2(1)
    by (auto simp: client_Connect_def reg EncodeControlMessage_frame Let_def split: option.splits)
  then have err: "err = register_reply (Some raw)" and st: "gc_log cl' = gc_log cl2" "gc_ws cl' = gc_ws cl2"
    "err = None \<longleftrightarrow> ws \<notin> gc_shut cl'"
    using assms(4) cl2(3) by (auto simp: ws_shut_def split: option.splits)
  moreover have "read_message ?f = Some (MRegister reg)"
    using read_wire [of "MRegister reg"] assms(6,7) by simp
  ultimately show ?thesis using cl2 register_reply_OK [of raw] by auto
qed

lemma ex_register_message: "valid_Register (register_message ''linux'' ex_settings)"
  "length (json_print (enc_Register (register_message ''linux'' ex_settings))) < 2 ^ 32"
  by (simp_all add: register_message_def ex_settings_def ex_tunnels_def valid_Register_def valid_TunnelConfig_def
      int64_ok_def min_int64_def max_int64_def valid_utf8_ascii is_ascii_def enc_Register_def enc_TunnelConfig_def
      enc_ClientMetadata_def enc_int_def FormatInt_def FormatUint.simps escape_plain escape_free_def escape_ascii_def)

theorem Connect_registers_tunnels_witness:
  "\<exists>err cl'. client_Connect (\<lambda>_. None) (\<lambda>_. True) (\<lambda>_ _. Some 8) ''linux'' (\<lambda>_ _. True) (Some []) ex_cl = (err, cl')
     \<and> err \<noteq> None \<and> 8 \<in> gc_shut cl' \<and> length (ws_received (gc_log cl') 8) = 1"
proof -
  obtain err cl' where c: "client_Connect (\<lambda>_. None) (\<lambda>_. True) (\<lambda>_ _. Some 8) ''linux'' (\<lambda>_ _. True) (Some []) ex_cl
      = (err, cl')" by (metis surj_pair)
  have st: "settings ex_cl = ex_settings" "8 \<notin> gc_shut ex_cl" "ws_received (gc_log ex_cl) 8 = []"
    by (simp_all add: ex_cl_def ws_received_def)
  have tls: "client_tls (\<lambda>_. None) (\<lambda>_. True) (cl_TLS (settings ex_cl)) = Inr None"
    by (simp add: st client_tls_def ex_settings_def)
  have bad: "read_message [] = None" by (simp add: read_message_def DecodeFrame_def ReadFull_def HeaderSize_def)
  from Connect_registers_tunnels [OF tls, of "\<lambda>_ _. Some 8" 8 "\<lambda>_ _. True"
      "register_message ''linux'' ex_settings" "''linux''" "[]" err cl'] c st ex_register_message bad
  show ?thesis by (auto simp: register_message_def)
qed

end
