(* ===== verification/Client_System.thy ===== *)
theory Client_System
  imports Client Server "HOL-Library.Multiset"
begin

text \<open>
  The tunnel client as a system of goroutines: \<open>Run\<close>, which connects and reconnects, and the goroutines
  it leaves behind, at the granularity of the accesses to the shared state. \<open>run_point\<close> is where \<open>Run\<close>
  stands (with its local variable \<open>attempt\<close>), \<open>client_thread\<close> a goroutine at one of its program points:
  the heartbeat loop, the read loop and the handlers of streams. \<open>run_action\<close> and \<open>thread_action\<close> are
  their next actions for given inputs from outside; \<open>None\<close> says that the goroutine is blocked.

  A reconnection does not wait for the goroutines of the old connection. \<open>c.ws\<close> and \<open>c.done\<close> are read
  again whenever they are used, so an old handler writes on the new socket and an old heartbeat loop
  that misses the closing of its channel waits on the new one.
\<close>

subsection \<open>Goroutines\<close>

datatype run_point =
  RunTop int | RunClear int | RunDial int | RunRegister int ws_id | RunReply int ws_id | RunWait
| RunCheck int | RunSleep int | RunReturned "client_error option"

datatype client_thread =
  BeatTop | BeatSelect chan_ref | Reader
| Starting OpenStream | Selecting OpenStream chan_ref | Pending OpenStream pending
| Calling OpenStream local_request | Answering OpenStream bytes | Closing OpenStream | Ending OpenStream

text \<open>What does not change while the client runs, and the inputs of an action.\<close>

record client_env =
  ce_read_file :: "string \<Rightarrow> bytes option"
  ce_pem_ok :: "bytes \<Rightarrow> bool"
  ce_goos :: string
  ce_url_ok :: "string \<Rightarrow> string \<Rightarrow> bool"

record client_input =
  ci_dial :: "tls_config option \<Rightarrow> string \<Rightarrow> ws_id option"
  ci_wok :: write_ok
  ci_now :: go_time
  ci_msg :: "bytes option"
  ci_beat :: beat_case
  ci_stream :: stream_case
  ci_keys :: "string list"
  ci_local :: local_reply
  ci_slept :: bool

subsection \<open>The actions of \<open>Run\<close>\<close>

definition run_dial :: "client_env \<Rightarrow> client_input \<Rightarrow> int \<Rightarrow> Client \<Rightarrow> run_point \<times> Client" where
  "run_dial env inp attempt cl =
     (case client_tls (ce_read_file env) (ce_pem_ok env) (cl_TLS (settings cl)) of
        Inl e \<Rightarrow> (RunCheck attempt, cl)
      | Inr tc \<Rightarrow>
          (case ci_dial inp tc (cl_GatewayURL (settings cl)) of
             None \<Rightarrow> (RunCheck attempt, cl)
           | Some ws \<Rightarrow> (RunRegister attempt ws, cl\<lparr>gc_ws := Some ws\<rparr>)))"

text \<open>\<open>Connect\<close> writes on its own variable \<open>ws\<close> and does not take \<open>wsMu\<close>.\<close>

definition run_register :: "client_env \<Rightarrow> client_input \<Rightarrow> int \<Rightarrow> ws_id \<Rightarrow> Client \<Rightarrow> run_point \<times> Client" where
  "run_register env inp attempt ws cl =
     (case EncodeControlMessage FrameRegister (enc_Register (register_message (ce_goos env) (settings cl))) of
        Inl e \<Rightarrow> (RunCheck attempt, ws_shut ws cl)
      | Inr frame \<Rightarrow>
          (let (ok, L) = ws_WriteMessage (ci_wok inp) ws frame (gc_log cl);
               cl' = cl\<lparr>gc_log := L\<rparr>
           in if \<not> ok then (RunCheck attempt, ws_shut ws cl') else (RunReply attempt ws, cl')))"

definition run_reply :: "client_input \<Rightarrow> int \<Rightarrow> ws_id \<Rightarrow> Client \<Rightarrow> run_point \<times> client_thread multiset \<times> Client" where
  "run_reply inp attempt ws cl =
     (case register_reply (ci_msg inp) of
        Some e \<Rightarrow> (RunCheck attempt, {#}, ws_shut ws cl)
      | None \<Rightarrow> (RunWait, {#BeatTop, Reader#}, cl))"

definition run_check :: "int \<Rightarrow> Client \<Rightarrow> run_point" where
  "run_check attempt cl =
     (let maxRetries = rc_MaxRetries (cl_Reconnect (settings cl))
      in if gc_closed cl then RunReturned None
         else if 0 < maxRetries \<and> maxRetries \<le> attempt + 1 then RunReturned (Some (MaxReconnects maxRetries))
         else RunSleep (attempt + 1))"

definition run_sleep :: "client_input \<Rightarrow> int \<Rightarrow> Client \<Rightarrow> run_point option" where
  "run_sleep inp attempt cl =
     (if ci_slept inp then Some (RunTop attempt)
      else if gc_closed cl then Some (RunReturned None) else None)"

fun run_action ::
  "client_env \<Rightarrow> client_input \<Rightarrow> run_point \<Rightarrow> Client \<Rightarrow> (run_point \<times> client_thread multiset \<times> Client) option"
where
  "run_action env inp (RunTop a) cl = Some (RunClear a, {#}, cl\<lparr>gc_done := Suc (gc_done cl)\<rparr>)"
| "run_action env inp (RunClear a) cl = Some (RunDial a, {#}, cl\<lparr>gc_pendingStreams := Map.empty\<rparr>)"
| "run_action env inp (RunDial a) cl = (let (pc, cl') = run_dial env inp a cl in Some (pc, {#}, cl'))"
| "run_action env inp (RunRegister a ws) cl = (let (pc, cl') = run_register env inp a ws cl in Some (pc, {#}, cl'))"
| "run_action env inp (RunReply a ws) cl = Some (run_reply inp a ws cl)"
| "run_action env inp RunWait cl = (if gc_done cl \<in> gc_doneClosed cl then Some (RunCheck 0, {#}, cl) else None)"
| "run_action env inp (RunCheck a) cl = Some (run_check a cl, {#}, cl)"
| "run_action env inp (RunSleep a) cl = map_option (\<lambda>pc. (pc, {#}, cl)) (run_sleep inp a cl)"
| "run_action env inp (RunReturned res) cl = None"

subsection \<open>The actions of the other goroutines\<close>

definition beat_select :: "client_input \<Rightarrow> chan_ref \<Rightarrow> Client \<Rightarrow> (client_thread multiset \<times> Client) option" where
  "beat_select inp d cl =
     (if \<not> beat_ready cl d (ci_beat inp) then None
      else
        (let (go_on, cl') = heartbeat_turn (ci_wok inp) (ci_now inp) (ci_beat inp) cl
         in Some (if go_on then {#BeatTop#} else {#}, cl')))"

definition reader_turn :: "client_input \<Rightarrow> Client \<Rightarrow> client_thread multiset \<times> Client" where
  "reader_turn inp cl =
     (case ci_msg inp of
        None \<Rightarrow> ({#}, readLoop_end cl)
      | Some raw \<Rightarrow>
          (case client_read raw cl of
             (None, cl') \<Rightarrow> ({#Reader#}, cl')
           | (Some om, cl') \<Rightarrow> ({#Reader, Starting om#}, cl')))"

text \<open>The handler of a stream, from the case of its \<open>select\<close> to the call of the local service.\<close>

definition handler_request :: "client_env \<Rightarrow> client_input \<Rightarrow> OpenStream \<Rightarrow> bytes \<Rightarrow> Client \<Rightarrow> client_thread" where
  "handler_request env inp openMsg reqData cl =
     (case json_Unmarshal_into dec_httpRequest reqData zero_httpRequest of
        Inl e \<Rightarrow> Ending openMsg
      | Inr req \<Rightarrow>
          (let port = resolvePort (settings cl) (os_TargetTunnel openMsg)
           in if port = 0 then Ending openMsg
              else
                (let httpReq = build_request (ci_keys inp) (settings cl) port req
                 in if \<not> ce_url_ok env (rq_Method req) (lr_URL httpReq) then Ending openMsg
                    else Calling openMsg httpReq)))"

definition handler_select ::
  "client_env \<Rightarrow> client_input \<Rightarrow> OpenStream \<Rightarrow> pending \<Rightarrow> Client \<Rightarrow> (client_thread multiset \<times> Client) option" where
  "handler_select env inp openMsg p cl =
     (if \<not> stream_ready cl p (ci_stream inp) then None
      else
        (case ci_stream inp of
           StreamRequest reqData \<Rightarrow>
             Some ({#handler_request env inp openMsg reqData cl#},
               cl\<lparr>gc_chans := (gc_chans cl)(pn_data p := map_option tl (gc_chans cl (pn_data p)))\<rparr>)
         | _ \<Rightarrow> Some ({#Ending openMsg#}, cl)))"

text \<open>After the local service has answered: what is sent, if anything.\<close>

definition handler_reply :: "local_reply \<Rightarrow> OpenStream \<Rightarrow> client_thread" where
  "handler_reply reply openMsg =
     (case reply of
        DoFailed \<Rightarrow>
          (case json_Marshal (enc_httpResponse
                  \<lparr>rs_StatusCode = 502, rs_Headers = [(''Content-Type'', ''text/plain'')],
                   rs_Body = bytes_of_string ''local service unavailable''\<rparr>) of
             Inl e \<Rightarrow> Ending openMsg
           | Inr respData \<Rightarrow> Answering openMsg respData)
      | BodyFailed \<Rightarrow> Ending openMsg
      | LocalReply statusCode keys header body \<Rightarrow>
          (case json_Marshal (enc_httpResponse
                  \<lparr>rs_StatusCode = statusCode, rs_Headers = join_headers keys header, rs_Body = body\<rparr>) of
             Inl e \<Rightarrow> Ending openMsg
           | Inr respData \<Rightarrow> Answering openMsg respData))"

fun thread_action ::
  "client_env \<Rightarrow> client_input \<Rightarrow> client_thread \<Rightarrow> Client \<Rightarrow> (client_thread multiset \<times> Client) option"
where
  "thread_action env inp BeatTop cl = Some ({#BeatSelect (gc_done cl)#}, cl)"
| "thread_action env inp (BeatSelect d) cl = beat_select inp d cl"
| "thread_action env inp Reader cl = Some (reader_turn inp cl)"
| "thread_action env inp (Starting om) cl =
     (let (p, cl') = handleOpenStream_begin om cl in Some ({#Selecting om (pn_data p)#}, cl'))"
| "thread_action env inp (Selecting om ch) cl = Some ({#Pending om \<lparr>pn_data = ch, pn_done = gc_done cl\<rparr>#}, cl)"
| "thread_action env inp (Pending om p) cl = handler_select env inp om p cl"
| "thread_action env inp (Calling om req) cl = Some ({#handler_reply (ci_local inp) om#}, cl)"
| "thread_action env inp (Answering om data) cl =
     Some ({#Closing om#}, sendStreamData (ci_wok inp) (os_StreamID om) data cl)"
| "thread_action env inp (Closing om) cl = Some ({#Ending om#}, sendCloseStream (ci_wok inp) (os_StreamID om) cl)"
| "thread_action env inp (Ending om) cl = Some ({#}, unregister_stream (os_StreamID om) cl)"

record client_pool =
  cp_client :: Client
  cp_run :: run_point
  cp_threads :: "client_thread multiset"

text \<open>Dialing gives a new socket, on which nothing has been written and which is not closed.\<close>

definition fresh_dial :: "client_input \<Rightarrow> Client \<Rightarrow> bool" where
  "fresh_dial inp cl \<longleftrightarrow> (\<forall>tc url ws. ci_dial inp tc url = Some ws \<longrightarrow> gc_log cl ws = [] \<and> ws \<notin> gc_shut cl)"

inductive client_step :: "client_env \<Rightarrow> client_pool \<Rightarrow> client_pool \<Rightarrow> bool" for env where
  step_run:
    "fresh_dial inp (cp_client P) \<Longrightarrow> run_action env inp (cp_run P) (cp_client P) = Some (pc, new, cl) \<Longrightarrow>
     client_step env P \<lparr>cp_client = cl, cp_run = pc, cp_threads = cp_threads P + new\<rparr>"
| step_thread:
    "t \<in># cp_threads P \<Longrightarrow> thread_action env inp t (cp_client P) = Some (new, cl) \<Longrightarrow>
     client_step env P (P\<lparr>cp_client := cl, cp_threads := cp_threads P - {#t#} + new\<rparr>)"
| step_close:
    "client_step env P (P\<lparr>cp_client := client_Close (cp_client P)\<rparr>)"

definition client_reachable :: "client_env \<Rightarrow> client_pool \<Rightarrow> client_pool \<Rightarrow> bool" where
  "client_reachable env = (client_step env)\<^sup>*\<^sup>*"

definition client_start :: "Client \<Rightarrow> client_pool" where
  "client_start cl = \<lparr>cp_client = cl, cp_run = RunTop 0, cp_threads = {#}\<rparr>"

subsection \<open>The read loop, the socket and the done channel\<close>

text \<open>\<open>Run\<close> has made a new done channel and has not started the read loop that will close it.\<close>

fun connecting :: "run_point \<Rightarrow> bool" where
  "connecting (RunClear a) = True"
| "connecting (RunDial a) = True"
| "connecting (RunRegister a ws) = True"
| "connecting (RunReply a ws) = True"
| "connecting pc = False"

fun socket_ok :: "run_point \<Rightarrow> ws_id option \<Rightarrow> bool" where
  "socket_ok (RunRegister a ws) s = (s = Some ws)"
| "socket_ok (RunReply a ws) s = (s = Some ws)"
| "socket_ok RunWait s = (s \<noteq> None)"
| "socket_ok pc s = True"

definition run_inv :: "client_pool \<Rightarrow> bool" where
  "run_inv P \<longleftrightarrow>
     count (cp_threads P) Reader =
       (if cp_run P = RunWait \<and> gc_done (cp_client P) \<notin> gc_doneClosed (cp_client P) then 1 else 0) \<and>
     (connecting (cp_run P) \<longrightarrow> gc_done (cp_client P) \<notin> gc_doneClosed (cp_client P)) \<and>
     (\<forall>d \<in> gc_doneClosed (cp_client P). d \<le> gc_done (cp_client P)) \<and>
     socket_ok (cp_run P) (gc_ws (cp_client P)) \<and> (cp_threads P \<noteq> {#} \<longrightarrow> gc_ws (cp_client P) \<noteq> None)"

lemma run_invD:
  assumes "run_inv P"
  shows "Reader \<in># cp_threads P \<Longrightarrow> cp_run P = RunWait \<and> gc_done (cp_client P) \<notin> gc_doneClosed (cp_client P)"
    and "count (cp_threads P) Reader \<le> 1" "cp_threads P \<noteq> {#} \<Longrightarrow> gc_ws (cp_client P) \<noteq> None"
  using assms by (auto simp: run_inv_def split: if_splits simp flip: count_greater_zero_iff)

text \<open>The parts of the state that the run of \<open>Run\<close> depends on.\<close>

definition link :: "Client \<Rightarrow> ws_id option \<times> chan_ref \<times> chan_ref set" where
  "link cl = (gc_ws cl, gc_done cl, gc_doneClosed cl)"

lemma link_write [simp]: "link (snd (client_write wok data cl)) = link cl"
  by (simp add: link_def client_write_def Let_def case_prod_unfold split: option.split)

lemma link_send [simp]:
  "link (sendStreamData wok i data cl) = link cl" "link (sendCloseStream wok i cl) = link cl"
  "link (unregister_stream i cl) = link cl"
  by (simp_all add: sendStreamData_def sendCloseStream_def unregister_stream_def split: sum.split)
    (simp add: link_def)

lemma link_read: "client_read raw cl = (om, cl') \<Longrightarrow> link cl' = link cl"
  by (auto simp: client_read_def client_deliverStreamData_def link_def
      split: sum.splits prod.splits if_splits option.splits list.splits)

lemma link_begin: "link (snd (handleOpenStream_begin om cl)) = link cl"
  by (simp add: handleOpenStream_begin_def Let_def link_def)

lemma link_beat: "beat_select inp d cl = Some (new, cl') \<Longrightarrow> link cl' = link cl \<and> Reader \<notin># new"
  by (auto simp: beat_select_def heartbeat_turn_def Let_def case_prod_unfold split: if_splits beat_case.splits sum.splits)

lemma handler_no_reader:
  "handler_request env inp om d cl \<noteq> Reader" "handler_reply rep om \<noteq> Reader"
  by (auto simp: handler_request_def handler_reply_def Let_def split: sum.split local_reply.split)

lemma link_select: "handler_select env inp om p cl = Some (new, cl') \<Longrightarrow> link cl' = link cl \<and> Reader \<notin># new"
  using handler_no_reader(1) [symmetric]
  by (auto simp: handler_select_def link_def split: if_splits stream_case.splits)

text \<open>Every goroutine but the read loop keeps the link and starts no read loop.\<close>

lemma thread_link:
  assumes "thread_action env inp t cl = Some (new, cl')" "t \<noteq> Reader"
  shows "link cl' = link cl \<and> Reader \<notin># new"
proof (cases t)
  case (Starting om)
  with assms(1) link_begin show ?thesis by (auto simp: case_prod_unfold Let_def)
next
  case (BeatSelect d)
  with assms(1) show ?thesis by (intro link_beat) simp
next
  case (Pending om p)
  with assms(1) show ?thesis by (intro link_select) simp
next
  case (Calling om req)
  with assms(1) handler_no_reader(2) [of "ci_local inp" om] show ?thesis by auto
qed (use assms in auto)

lemma link_eq: "link cl' = link cl \<longleftrightarrow> gc_ws cl' = gc_ws cl \<and> gc_done cl' = gc_done cl \<and> gc_doneClosed cl' = gc_doneClosed cl"
  by (auto simp: link_def)

lemma run_inv_thread:
  assumes "run_inv P" "t \<in># cp_threads P" "thread_action env inp t (cp_client P) = Some (new, cl)"
  shows "run_inv (P\<lparr>cp_client := cl, cp_threads := cp_threads P - {#t#} + new\<rparr>)"
proof (cases "t = Reader")
  case False
  from thread_link [OF assms(3) this] have "link cl = link (cp_client P)" "Reader \<notin># new" by simp_all
  moreover have "gc_ws (cp_client P) \<noteq> None" using assms(2) run_invD(3) [OF assms(1)] by fastforce
  ultimately show ?thesis
    using assms(1) False by (auto simp: run_inv_def link_eq not_in_iff)
next
  case True
  note wait = run_invD(1) [OF assms(1), OF assms(2) [unfolded True]]
  have one: "count (cp_threads P) Reader = 1" using assms(1) wait by (simp add: run_inv_def)
  have ws: "gc_ws (cp_client P) \<noteq> None" using assms(2) run_invD(3) [OF assms(1)] by fastforce
  show ?thesis
  proof (cases "ci_msg inp")
    case None
    with assms(3) True have "new = {#}" "cl = readLoop_end (cp_client P)" by (auto simp: reader_turn_def)
    with assms(1) wait one ws True show ?thesis by (auto simp: run_inv_def readLoop_end_def)
  next
    case (Some raw)
    obtain om cl1 where r: "client_read raw (cp_client P) = (om, cl1)" by (metis surj_pair)
    from assms(3) True Some r have "cl = cl1" "count new Reader = 1"
      by (auto simp: reader_turn_def split: option.splits)
    with link_read [OF r] assms(1) wait one ws True show ?thesis by (auto simp: run_inv_def link_eq)
  qed
qed

lemma run_inv_run:
  assumes "run_inv P" "run_action env inp (cp_run P) (cp_client P) = Some (pc, new, cl)"
  shows "run_inv \<lparr>cp_client = cl, cp_run = pc, cp_threads = cp_threads P + new\<rparr>"
proof (cases "cp_run P")
  case (RunTop a)
  with assms show ?thesis by (force simp: run_inv_def)
next
  case (RunClear a)
  with assms show ?thesis by (auto simp: run_inv_def)
next
  case (RunDial a)
  with assms show ?thesis by (auto simp: run_inv_def run_dial_def Let_def split: sum.splits option.splits)
next
  case (RunRegister a ws)
  with assms show ?thesis
    by (auto simp: run_inv_def run_register_def ws_shut_def Let_def case_prod_unfold split: sum.splits if_splits)
next
  case (RunReply a ws)
  with assms show ?thesis
    by (auto simp: run_inv_def run_reply_def ws_shut_def split: option.splits)
next
  case RunWait
  with assms show ?thesis by (auto simp: run_inv_def split: if_splits)
next
  case (RunCheck a)
  with assms show ?thesis by (auto simp: run_inv_def run_check_def Let_def split: if_splits)
next
  case (RunSleep a)
  with assms show ?thesis by (auto simp: run_inv_def run_sleep_def split: if_splits)
next
  case (RunReturned res)
  with assms show ?thesis by simp
qed

lemma run_inv_close: "run_inv P \<Longrightarrow> run_inv (P\<lparr>cp_client := client_Close (cp_client P)\<rparr>)"
  by (auto simp: run_inv_def client_Close_def Let_def ws_shut_def split: option.split)

subsection \<open>The channels of the handlers\<close>

fun thread_chan :: "client_thread \<Rightarrow> chan_ref option" where
  "thread_chan (Selecting om ch) = Some ch"
| "thread_chan (Pending om p) = Some (pn_data p)"
| "thread_chan t = None"

definition chans_ok :: "Client \<Rightarrow> bool" where
  "chans_ok cl \<longleftrightarrow>
     (\<forall>ch. gc_chans cl ch = None \<longleftrightarrow> gc_next cl \<le> ch) \<and> (\<forall>ch xs. gc_chans cl ch = Some xs \<longrightarrow> length xs \<le> 1) \<and>
     (\<forall>i ch. gc_pendingStreams cl i = Some ch \<longrightarrow> ch < gc_next cl)"

definition chan_users :: "chan_ref \<Rightarrow> client_thread multiset \<Rightarrow> nat" where
  "chan_users ch T = size {#t \<in># T. thread_chan t = Some ch#}"

definition chan_inv :: "client_pool \<Rightarrow> bool" where
  "chan_inv P \<longleftrightarrow> chans_ok (cp_client P) \<and>
     (\<forall>t \<in># cp_threads P. \<forall>ch. thread_chan t = Some ch \<longrightarrow> ch < gc_next (cp_client P)) \<and>
     (\<forall>ch. chan_users ch (cp_threads P) \<le> 1)"

text \<open>What an action does to the channels: it keeps them in order, and a goroutine goes on with its own channel
  or makes a new one.\<close>

definition chan_act :: "Client \<Rightarrow> client_thread \<Rightarrow> client_thread multiset \<Rightarrow> Client \<Rightarrow> bool" where
  "chan_act cl t new cl' \<longleftrightarrow> (chans_ok cl \<longrightarrow> chans_ok cl') \<and> gc_next cl \<le> gc_next cl' \<and>
     (\<forall>x \<in># new. thread_chan x = None) \<or>
     (chans_ok cl \<longrightarrow> chans_ok cl') \<and> gc_next cl' = Suc (gc_next cl) \<and> (\<exists>x. new = {#x#} \<and> thread_chan x = Some (gc_next cl)) \<or>
     cl' = cl \<and> (\<exists>x. new = {#x#} \<and> thread_chan x = thread_chan t)"

lemma chan_users_add:
  "chan_users ch (add_mset t T) = (if thread_chan t = Some ch then 1 else 0) + chan_users ch T"
  by (simp add: chan_users_def)

lemma chan_inv_act:
  assumes "chan_inv P" "chan_act (cp_client P) t new cl" "t \<in># cp_threads P"
  shows "chan_inv (P\<lparr>cp_client := cl, cp_threads := cp_threads P - {#t#} + new\<rparr>)"
proof -
  obtain T where T: "cp_threads P = add_mset t T" using multi_member_split [OF assms(3)] by blast
  have ok: "chans_ok (cp_client P)" and le: "\<And>x ch. x \<in># cp_threads P \<Longrightarrow> thread_chan x = Some ch \<Longrightarrow> ch < gc_next (cp_client P)"
    and one: "\<And>ch. chan_users ch (cp_threads P) \<le> 1"
    using assms(1) by (simp_all add: chan_inv_def)
  have T1: "chan_users ch T \<le> 1" for ch using one [of ch] by (simp add: T chan_users_add split: if_splits)
  show ?thesis
    using assms(2) unfolding chan_act_def
  proof (elim disjE conjE exE)
    assume a: "gc_next (cp_client P) \<le> gc_next cl" "chans_ok (cp_client P) \<longrightarrow> chans_ok cl" "\<forall>x \<in># new. thread_chan x = None"
    then have "chan_users ch (T + new) = chan_users ch T" for ch by (simp add: chan_users_def filter_mset_eq_mempty_iff)
    with a ok le T1 show ?thesis by (fastforce simp: chan_inv_def T)
  next
    fix x assume a: "chans_ok (cp_client P) \<longrightarrow> chans_ok cl" "gc_next cl = Suc (gc_next (cp_client P))" "new = {#x#}"
      "thread_chan x = Some (gc_next (cp_client P))"
    have "thread_chan y \<noteq> Some (gc_next (cp_client P))" if "y \<in># T" for y using le [of y] that by (auto simp: T)
    then have "chan_users (gc_next (cp_client P)) T = 0" by (auto simp: chan_users_def filter_mset_eq_mempty_iff)
    then have "chan_users ch (T + new) \<le> 1" for ch using T1 [of ch] a(3,4) by (auto simp: chan_users_add)
    moreover have "ch < gc_next cl" if "y \<in># T + new" "thread_chan y = Some ch" for y ch
      using that le [of y ch] a by (auto simp: T)
    ultimately show ?thesis using a ok by (simp add: chan_inv_def T)
  next
    fix x assume a: "cl = cp_client P" "new = {#x#}" "thread_chan x = thread_chan t"
    then have "chan_users ch (T + new) = chan_users ch (cp_threads P)" for ch by (simp add: chan_users_add T)
    moreover have "ch < gc_next cl" if "y \<in># T + new" "thread_chan y = Some ch" for y ch
      using that le [of y ch] le [of t ch] a by (auto simp: T)
    ultimately show ?thesis using a ok one by (simp add: chan_inv_def T)
  qed
qed

lemma chans_ok_cong:
  "gc_chans cl' = gc_chans cl \<Longrightarrow> gc_next cl' = gc_next cl \<Longrightarrow>
     (\<And>i ch. gc_pendingStreams cl' i = Some ch \<Longrightarrow> gc_pendingStreams cl i = Some ch) \<Longrightarrow> chans_ok cl \<Longrightarrow> chans_ok cl'"
  by (simp add: chans_ok_def) blast

lemma chan_act_frame:
  assumes "gc_chans cl' = gc_chans cl" "gc_next cl' = gc_next cl" "gc_pendingStreams cl' \<subseteq>\<^sub>m gc_pendingStreams cl"
    and "\<And>x. x \<in># new \<Longrightarrow> thread_chan x = None"
  shows "chan_act cl t new cl'"
proof -
  have "chans_ok cl'" if "chans_ok cl"
    using assms(1-3) that by (intro chans_ok_cong [of cl' cl]) (auto simp: map_le_def dom_def)
  with assms show ?thesis by (simp add: chan_act_def)
qed

lemma write_frame:
  "gc_chans (snd (client_write wok data cl)) = gc_chans cl" "gc_next (snd (client_write wok data cl)) = gc_next cl"
  "gc_pendingStreams (snd (client_write wok data cl)) = gc_pendingStreams cl"
  by (simp_all add: client_write_def Let_def case_prod_unfold split: option.split)

lemma thread_chan_none:
  "thread_chan (handler_request env inp om d cl) = None" "thread_chan (handler_reply rep om) = None"
  by (auto simp: handler_request_def handler_reply_def Let_def split: sum.split local_reply.split)

lemma chan_act_read:
  assumes "client_read raw cl = (om, cl')"
  shows "(chans_ok cl \<longrightarrow> chans_ok cl') \<and> gc_next cl' = gc_next cl"
proof -
  have "chans_ok cl \<longrightarrow> chans_ok (client_deliverStreamData i data cl)" "gc_next (client_deliverStreamData i data cl) = gc_next cl" for i data
    by (auto simp: client_deliverStreamData_def chans_ok_def split: option.split list.split)
      (metis option.distinct(1))
  with assms show ?thesis
    by (auto simp: client_read_def split: sum.splits prod.splits if_splits)
qed

lemma chan_act_select:
  assumes "handler_select env inp om p cl = Some (new, cl')"
  shows "chan_act cl t new cl'"
proof (cases "ci_stream inp")
  case (StreamRequest d)
  let ?cl = "cl\<lparr>gc_chans := (gc_chans cl)(pn_data p := map_option tl (gc_chans cl (pn_data p)))\<rparr>"
  have "chans_ok cl \<longrightarrow> chans_ok ?cl"
    by (auto simp: chans_ok_def)
  with StreamRequest assms show ?thesis
    by (auto simp: handler_select_def chan_act_def thread_chan_none split: if_splits)
qed (use assms in \<open>auto simp: handler_select_def intro!: chan_act_frame split: if_splits\<close>)

lemma thread_chan_act:
  assumes "thread_action env inp t cl = Some (new, cl')"
  shows "chan_act cl t new cl'"
proof (cases t)
  case BeatTop
  with assms show ?thesis by (auto intro!: chan_act_frame)
next
  case (BeatSelect d)
  with assms show ?thesis
    by (auto simp: beat_select_def heartbeat_turn_def Let_def case_prod_unfold write_frame intro!: chan_act_frame
        split: if_splits beat_case.splits sum.splits)
next
  case Reader
  show ?thesis
  proof (cases "ci_msg inp")
    case None
    with Reader assms show ?thesis by (auto simp: reader_turn_def readLoop_end_def intro!: chan_act_frame)
  next
    case (Some raw)
    obtain om cl1 where r: "client_read raw cl = (om, cl1)" by (metis surj_pair)
    from chan_act_read [OF r] Reader Some assms r show ?thesis
      by (auto simp: reader_turn_def chan_act_def split: option.splits)
  qed
next
  case (Starting om)
  let ?cl = "snd (handleOpenStream_begin om cl)"
  have "chans_ok cl \<longrightarrow> chans_ok ?cl"
    by (auto simp: chans_ok_def handleOpenStream_begin_def Let_def less_Suc_eq)
  with Starting assms show ?thesis
    by (auto simp: handleOpenStream_begin_def Let_def chan_act_def)
next
  case (Selecting om ch)
  with assms show ?thesis by (auto simp: chan_act_def)
next
  case (Pending om p)
  with assms chan_act_select show ?thesis by simp
next
  case (Calling om req)
  with assms show ?thesis by (auto simp: thread_chan_none intro!: chan_act_frame)
next
  case (Answering om data)
  with assms show ?thesis
    by (auto simp: sendStreamData_def write_frame intro!: chan_act_frame split: sum.split)
next
  case (Closing om)
  with assms show ?thesis
    by (auto simp: sendCloseStream_def write_frame intro!: chan_act_frame split: sum.split)
next
  case (Ending om)
  with assms show ?thesis by (auto simp: unregister_stream_def map_le_def intro!: chan_act_frame)
qed

lemma chan_inv_run:
  assumes "chan_inv P" "run_action env inp (cp_run P) (cp_client P) = Some (pc, new, cl)"
  shows "chan_inv \<lparr>cp_client = cl, cp_run = pc, cp_threads = cp_threads P + new\<rparr>"
proof -
  have "gc_chans cl = gc_chans (cp_client P) \<and> gc_next cl = gc_next (cp_client P) \<and>
      (gc_pendingStreams cl = gc_pendingStreams (cp_client P) \<or> gc_pendingStreams cl = Map.empty) \<and>
      (\<forall>x \<in># new. thread_chan x = None)"
    using assms(2)
    by (cases "cp_run P") (auto simp: run_dial_def run_register_def run_reply_def ws_shut_def Let_def case_prod_unfold
        split: sum.splits option.splits if_splits)
  moreover from this have "chan_users ch (cp_threads P + new) = chan_users ch (cp_threads P)" for ch
    by (auto simp: chan_users_def filter_mset_eq_mempty_iff)
  ultimately show ?thesis using assms(1) by (fastforce simp: chan_inv_def chans_ok_def)
qed

lemma chan_inv_close: "chan_inv P \<Longrightarrow> chan_inv (P\<lparr>cp_client := client_Close (cp_client P)\<rparr>)"
  by (simp add: chan_inv_def client_Close_def Let_def ws_shut_def chans_ok_def split: option.split)

definition client_inv :: "client_pool \<Rightarrow> bool" where
  "client_inv P \<longleftrightarrow> run_inv P \<and> chan_inv P"

lemma client_inv_step: "client_step env P P' \<Longrightarrow> client_inv P \<Longrightarrow> client_inv P'"
proof (induction rule: client_step.induct)
  case (step_run inp P pc new cl)
  then show ?case by (simp add: client_inv_def run_inv_run chan_inv_run)
next
  case (step_thread t P inp new cl)
  then show ?case using run_inv_thread chan_inv_act [OF _ thread_chan_act] unfolding client_inv_def by blast
next
  case (step_close P)
  then show ?case by (simp add: client_inv_def run_inv_close chan_inv_close)
qed

interpretation clients: step_invariant "client_step env" client_inv for env
  by unfold_locales (rule client_inv_step)

lemma client_inv_start: "NewClient lg L cfg = Inr cl \<Longrightarrow> client_inv (client_start cl)"
  by (auto simp: NewClient_def client_inv_def run_inv_def chan_inv_def chans_ok_def chan_users_def client_start_def
      split: option.splits)

subsection \<open>Undisturbed goroutines\<close>

lemma reach_run:
  assumes "fresh_dial inp cl" "run_action env inp pc cl = Some (pc', new, cl')"
    and "client_reachable env \<lparr>cp_client = cl', cp_run = pc', cp_threads = T + new\<rparr> Q"
  shows "client_reachable env \<lparr>cp_client = cl, cp_run = pc, cp_threads = T\<rparr> Q"
proof -
  let ?P = "\<lparr>cp_client = cl, cp_run = pc, cp_threads = T\<rparr>"
  have "client_step env ?P \<lparr>cp_client = cl', cp_run = pc', cp_threads = cp_threads ?P + new\<rparr>"
    by (rule client_step.step_run) (use assms(1,2) in simp_all)
  with assms(3) show ?thesis by (simp add: client_reachable_def converse_rtranclp_into_rtranclp)
qed

lemma reach_thread:
  assumes "thread_action env inp t cl = Some (new, cl')"
    and "client_reachable env \<lparr>cp_client = cl', cp_run = pc, cp_threads = T + new\<rparr> Q"
  shows "client_reachable env \<lparr>cp_client = cl, cp_run = pc, cp_threads = add_mset t T\<rparr> Q"
proof -
  let ?P = "\<lparr>cp_client = cl, cp_run = pc, cp_threads = add_mset t T\<rparr>"
  have "client_step env ?P (?P\<lparr>cp_client := cl', cp_threads := cp_threads ?P - {#t#} + new\<rparr>)"
    by (rule client_step.step_thread [where inp = inp]) (use assms(1) in simp_all)
  with assms(2) show ?thesis by (simp add: client_reachable_def converse_rtranclp_into_rtranclp)
qed

lemmas reach_thread0 = reach_thread [where new = "{#}", simplified]
  and reach_thread1 = reach_thread [where new = "{#x#}" for x, simplified]
  and reach_run0 = reach_run [where new = "{#}", simplified]

lemma reach_refl: "client_reachable env P P"
  by (simp add: client_reachable_def)

definition quiet :: client_input where
  "quiet = \<lparr>ci_dial = \<lambda>_ _. None, ci_wok = \<lambda>_ _. True, ci_now = 0, ci_msg = None, ci_beat = BeatTick,
     ci_stream = StreamTimeout, ci_keys = [], ci_local = BodyFailed, ci_slept = True\<rparr>"

lemma quiet_sel [simp]:
  "ci_dial quiet = (\<lambda>_ _. None)" "ci_wok quiet = (\<lambda>_ _. True)" "ci_msg quiet = None" "ci_slept quiet" "fresh_dial quiet cl"
  by (simp_all add: quiet_def fresh_dial_def)

abbreviation envelope_data :: "httpResponse \<Rightarrow> bytes" where
  "envelope_data resp \<equiv> bytes_of_string (json_print (enc_httpResponse resp))"

lemma handler_reply_envelope:
  "handler_reply reply om =
     (case local_envelope reply of None \<Rightarrow> Ending om | Some resp \<Rightarrow> Answering om (envelope_data resp))"
  by (simp add: handler_reply_def local_envelope_def json_Marshal_def split: local_reply.split)

lemma reach_ending:
  "client_reachable env \<lparr>cp_client = unregister_stream (os_StreamID om) cl, cp_run = pc, cp_threads = T\<rparr> Q \<Longrightarrow>
     client_reachable env \<lparr>cp_client = cl, cp_run = pc, cp_threads = add_mset (Ending om) T\<rparr> Q"
  by (rule reach_thread0 [where inp = quiet]) simp_all

lemma reach_answer:
  assumes "client_reachable env \<lparr>cp_client = unregister_stream (os_StreamID om) (answer_stream wok (os_StreamID om) reply cl),
      cp_run = pc, cp_threads = T\<rparr> Q"
  shows "client_reachable env \<lparr>cp_client = cl, cp_run = pc, cp_threads = add_mset (Calling om req) T\<rparr> Q"
proof (rule reach_thread1 [where inp = "quiet\<lparr>ci_local := reply\<rparr>"])
  show "thread_action env (quiet\<lparr>ci_local := reply\<rparr>) (Calling om req) cl = Some ({#handler_reply reply om#}, cl)" by simp
  show "client_reachable env \<lparr>cp_client = cl, cp_run = pc, cp_threads = add_mset (handler_reply reply om) T\<rparr> Q"
  proof (cases "local_envelope reply")
    case None
    with assms reach_ending [of env om cl pc T Q] show ?thesis
      by (simp add: handler_reply_envelope answer_stream_envelope)
  next
    case (Some resp)
    let ?cl1 = "sendStreamData wok (os_StreamID om) (envelope_data resp) cl"
    have "client_reachable env \<lparr>cp_client = sendCloseStream wok (os_StreamID om) ?cl1, cp_run = pc,
        cp_threads = add_mset (Ending om) T\<rparr> Q"
      by (rule reach_ending) (use assms Some in \<open>simp add: answer_stream_envelope\<close>)
    then have "client_reachable env \<lparr>cp_client = ?cl1, cp_run = pc, cp_threads = add_mset (Closing om) T\<rparr> Q"
      by (rule reach_thread1 [where inp = "quiet\<lparr>ci_wok := wok\<rparr>", rotated]) simp
    then have "client_reachable env \<lparr>cp_client = cl, cp_run = pc, cp_threads = add_mset (Answering om (envelope_data resp)) T\<rparr> Q"
      by (rule reach_thread1 [where inp = "quiet\<lparr>ci_wok := wok\<rparr>", rotated]) simp
    with Some show ?thesis by (simp add: handler_reply_envelope)
  qed
qed

lemma forward_handler:
  assumes "forward_request (ce_url_ok env) local (ci_keys inp) wok om d cl = (made, cl')" "gc_cfg cl0 = gc_cfg cl"
  shows "handler_request env inp om d cl0 = Ending om \<and> cl' = cl \<or>
    (\<exists>req. handler_request env inp om d cl0 = Calling om req \<and> cl' = answer_stream wok (os_StreamID om) (local req) cl)"
  using assms by (auto simp: forward_request_def handler_request_def Let_def split: sum.splits if_splits)

lemma decode_frame_type: "decode_msg (EncodeFrame ft p) = Inr (ft', p') \<Longrightarrow> ft' = ft"
  by (auto simp: DecodeFrame_def EncodeFrame_def ReadFull_def HeaderSize_def Let_def split: if_splits prod.splits sum.splits)

lemma connect_begin_wrong_frame:
  assumes "ft \<noteq> FrameRegister"
  shows "connect_begin wok mac clock order auth ws (Some (EncodeFrame ft p)) g =
    (Rejected, sendControlResponse wok ws CodeInvalidRequest ''expected register frame'' g)"
  using assms decode_frame_type [of ft p]
  by (cases "decode_msg (EncodeFrame ft p)") (auto simp: connect_begin_def)

text \<open>From the end of a connection to the next socket, before the register frame is sent.\<close>

lemma reach_redial:
  assumes "gc_closed cl = False" "rc_MaxRetries (cl_Reconnect (settings cl)) \<noteq> 1"
    and "client_tls (ce_read_file env) (ce_pem_ok env) (cl_TLS (settings cl)) = Inr tc"
    and "gc_log cl ws = []" "ws \<notin> gc_shut cl"
    and "client_reachable env \<lparr>cp_client = (readLoop_end cl)\<lparr>gc_done := Suc (gc_done cl), gc_pendingStreams := Map.empty,
        gc_ws := Some ws\<rparr>, cp_run = RunRegister 1 ws, cp_threads = T\<rparr> Q"
  shows "client_reachable env \<lparr>cp_client = cl, cp_run = RunWait, cp_threads = add_mset Reader T\<rparr> Q"
proof (rule reach_thread0 [where inp = quiet])
  let ?c0 = "readLoop_end cl" and ?inp = "quiet\<lparr>ci_dial := \<lambda>_ _. Some ws\<rparr>"
  let ?c1 = "?c0\<lparr>gc_done := Suc (gc_done cl)\<rparr>"
  let ?c2 = "?c1\<lparr>gc_pendingStreams := Map.empty\<rparr>"
  have c0: "gc_closed ?c0 = False" "settings ?c0 = settings cl" "gc_log ?c0 = gc_log cl" "gc_shut ?c0 = gc_shut cl"
    "gc_done ?c0 = gc_done cl" "gc_done cl \<in> gc_doneClosed ?c0"
    using assms(1) by (simp_all add: readLoop_end_def)
  have m: "run_check 0 ?c0 = RunSleep 1" using assms(2) c0(1,2) by (simp add: run_check_def Let_def)
  show "thread_action env quiet Reader cl = Some ({#}, ?c0)" by (simp add: reader_turn_def)
  have "client_reachable env \<lparr>cp_client = ?c2, cp_run = RunDial 1, cp_threads = T\<rparr> Q"
  proof (rule reach_run0 [where inp = ?inp])
    show "fresh_dial ?inp ?c2" using assms(4,5) c0(3,4) by (simp add: fresh_dial_def)
    show "run_action env ?inp (RunDial 1) ?c2 = Some (RunRegister 1 ws, {#}, ?c2\<lparr>gc_ws := Some ws\<rparr>)"
      using assms(3) c0(2) by (simp add: run_dial_def)
  qed (rule assms(6))
  then have "client_reachable env \<lparr>cp_client = ?c1, cp_run = RunClear 1, cp_threads = T\<rparr> Q"
    by (rule reach_run0 [where inp = quiet, rotated 2]) simp_all
  then have "client_reachable env \<lparr>cp_client = ?c0, cp_run = RunTop 1, cp_threads = T\<rparr> Q"
    by (rule reach_run0 [where inp = quiet, rotated 2]) (simp_all add: c0(5))
  then have "client_reachable env \<lparr>cp_client = ?c0, cp_run = RunSleep 1, cp_threads = T\<rparr> Q"
    by (rule reach_run0 [where inp = quiet, rotated 2]) (simp_all add: run_sleep_def)
  then have "client_reachable env \<lparr>cp_client = ?c0, cp_run = RunCheck 0, cp_threads = T\<rparr> Q"
    by (rule reach_run0 [where inp = quiet, rotated 2]) (simp_all add: m)
  then show "client_reachable env \<lparr>cp_client = ?c0, cp_run = RunWait, cp_threads = T\<rparr> Q"
    by (rule reach_run0 [where inp = quiet, rotated 2]) (simp_all add: c0(5,6))
qed

text \<open>\<open>Connect\<close>, from dialing to its result.\<close>

lemma reach_reply:
  assumes "client_reachable env \<lparr>cp_client = (case register_reply reply of None \<Rightarrow> cl | Some e \<Rightarrow> ws_shut ws cl),
      cp_run = (case register_reply reply of None \<Rightarrow> RunWait | Some e \<Rightarrow> RunCheck a),
      cp_threads = (case register_reply reply of None \<Rightarrow> T + {#BeatTop, Reader#} | Some e \<Rightarrow> T)\<rparr> Q"
  shows "client_reachable env \<lparr>cp_client = cl, cp_run = RunReply a ws, cp_threads = T\<rparr> Q"
proof (rule reach_run [where inp = "quiet\<lparr>ci_msg := reply\<rparr>"])
  show "fresh_dial (quiet\<lparr>ci_msg := reply\<rparr>) cl" by (simp add: fresh_dial_def)
  show "run_action env (quiet\<lparr>ci_msg := reply\<rparr>) (RunReply a ws) cl = Some (
      case register_reply reply of None \<Rightarrow> RunWait | Some e \<Rightarrow> RunCheck a,
      case register_reply reply of None \<Rightarrow> {#BeatTop, Reader#} | Some e \<Rightarrow> {#},
      case register_reply reply of None \<Rightarrow> cl | Some e \<Rightarrow> ws_shut ws cl)"
    by (simp add: run_reply_def split: option.split)
qed (use assms in \<open>simp split: option.splits\<close>)

lemma reach_register:
  assumes "gc_ws cl = Some ws" "client_write wok (EncodeFrame FrameRegister (bytes_of_string (json_print (enc_Register
      (register_message (ce_goos env) (settings cl)))))) cl = (ok, cl')"
    and "client_reachable env \<lparr>cp_client = (if ok then cl' else ws_shut ws cl'),
      cp_run = (if ok then RunReply a ws else RunCheck a), cp_threads = T\<rparr> Q"
  shows "client_reachable env \<lparr>cp_client = cl, cp_run = RunRegister a ws, cp_threads = T\<rparr> Q"
proof (rule reach_run0 [where inp = "quiet\<lparr>ci_wok := wok\<rparr>", OF _ _ assms(3)])
  show "fresh_dial (quiet\<lparr>ci_wok := wok\<rparr>) cl" by (simp add: fresh_dial_def)
  show "run_action env (quiet\<lparr>ci_wok := wok\<rparr>) (RunRegister a ws) cl =
      Some (if ok then RunReply a ws else RunCheck a, {#}, if ok then cl' else ws_shut ws cl')"
    using assms(1,2) by (auto simp: run_register_def client_write_def EncodeControlMessage_frame Let_def case_prod_unfold)
qed

lemma reach_connect:
  assumes "client_Connect (ce_read_file env) (ce_pem_ok env) dial (ce_goos env) wok reply cl = (res, cl')"
    and "fresh_dial (quiet\<lparr>ci_dial := dial\<rparr>) cl"
    and "client_reachable env \<lparr>cp_client = cl', cp_run = (case res of None \<Rightarrow> RunWait | Some e \<Rightarrow> RunCheck a),
      cp_threads = (case res of None \<Rightarrow> T + {#BeatTop, Reader#} | Some e \<Rightarrow> T)\<rparr> Q"
  shows "client_reachable env \<lparr>cp_client = cl, cp_run = RunDial a, cp_threads = T\<rparr> Q"
proof -
  let ?inp = "quiet\<lparr>ci_dial := dial\<rparr>"
  obtain pc cl1 where d: "run_dial env ?inp a cl = (pc, cl1)" by (metis surj_pair)
  then have act: "run_action env ?inp (RunDial a) cl = Some (pc, {#}, cl1)" by simp
  have "pc = RunCheck a \<and> res \<noteq> None \<and> cl' = cl1 \<or> (\<exists>ws. pc = RunRegister a ws \<and> cl1 = cl\<lparr>gc_ws := Some ws\<rparr>)"
    using assms(1) d by (auto simp: client_Connect_def run_dial_def split: sum.splits option.splits)
  then have "client_reachable env \<lparr>cp_client = cl1, cp_run = pc, cp_threads = T\<rparr> Q"
  proof (elim disjE exE conjE)
    assume "pc = RunCheck a" "res \<noteq> None" "cl' = cl1"
    with assms(3) show ?thesis by auto
  next
    fix ws assume pc: "pc = RunRegister a ws" "cl1 = cl\<lparr>gc_ws := Some ws\<rparr>"
    obtain ok cl2 where w: "client_write wok (EncodeFrame FrameRegister (bytes_of_string (json_print (enc_Register
        (register_message (ce_goos env) (settings cl1)))))) cl1 = (ok, cl2)" by (metis surj_pair)
    have res: "(res, cl') = (if ok then (case register_reply reply of None \<Rightarrow> (None, cl2) | Some e \<Rightarrow> (Some e, ws_shut ws cl2))
        else (Some SendRegister, ws_shut ws cl2))"
      using assms(1) d pc w
      by (auto simp: client_Connect_def run_dial_def EncodeControlMessage_frame split: sum.splits option.splits)
    have ws: "gc_ws cl1 = Some ws" using pc(2) by simp
    show ?thesis unfolding pc(1)
    proof (rule reach_register [OF ws w])
      show "client_reachable env \<lparr>cp_client = (if ok then cl2 else ws_shut ws cl2),
          cp_run = (if ok then RunReply a ws else RunCheck a), cp_threads = T\<rparr> Q"
        using assms(3) res reach_reply [where reply = reply and cl = cl2 and ws = ws and a = a and T = T] by (cases "register_reply reply"; cases ok) auto
    qed
  qed
  with assms(2) act show ?thesis by (rule reach_run0)
qed

subsection \<open>Properties\<close>

text \<open>C13. However the client's goroutines interleave with \<open>Run\<close> and \<open>Close\<close>, from its creation on: there is at
  most one read loop, and only while \<open>Run\<close> waits for the end of the connection; the channel \<open>c.done\<close> it
  will close is open, so it is closed exactly once; no goroutine finds \<open>c.ws\<close> nil; and every handler waits
  on an allocated channel of its own, which holds at most one message.\<close>

theorem client_threads_valid:
  assumes "NewClient lg L cfg = Inr cl" "client_reachable env (client_start cl) P"
  shows "count (cp_threads P) Reader \<le> 1 \<and>
    (Reader \<in># cp_threads P \<longrightarrow> cp_run P = RunWait \<and> gc_done (cp_client P) \<notin> gc_doneClosed (cp_client P)) \<and>
    (cp_threads P \<noteq> {#} \<longrightarrow> gc_ws (cp_client P) \<noteq> None) \<and>
    (\<forall>t \<in># cp_threads P. \<forall>ch. thread_chan t = Some ch \<longrightarrow>
       (\<exists>xs. gc_chans (cp_client P) ch = Some xs \<and> length xs \<le> 1) \<and>
       (\<forall>u \<in># cp_threads P - {#t#}. thread_chan u \<noteq> Some ch))"
proof -
  have "client_inv P" using assms(2) client_inv_start [OF assms(1)] unfolding client_reachable_def by (rule clients.inv_steps)
  then have inv: "run_inv P" "chan_inv P" by (simp_all add: client_inv_def)
  have cell: "\<exists>xs. gc_chans (cp_client P) ch = Some xs \<and> length xs \<le> 1"
    if "t \<in># cp_threads P" "thread_chan t = Some ch" for t ch
  proof -
    have "ch < gc_next (cp_client P)" "chans_ok (cp_client P)" using inv(2) that by (simp_all add: chan_inv_def)
    then show ?thesis by (cases "gc_chans (cp_client P) ch") (auto simp: chans_ok_def)
  qed
  have own: "thread_chan u \<noteq> Some ch"
    if t: "t \<in># cp_threads P" "thread_chan t = Some ch" "u \<in># cp_threads P - {#t#}" for t u ch
  proof
    assume u: "thread_chan u = Some ch"
    obtain T where T: "cp_threads P = add_mset t T" using multi_member_split [OF t(1)] by blast
    with t(3) obtain T' where "T = add_mset u T'" using multi_member_split [of u T] by auto
    with T t(2) u have "2 \<le> chan_users ch (cp_threads P)" by (simp add: chan_users_add)
    moreover have "chan_users ch (cp_threads P) \<le> 1" using inv(2) by (simp add: chan_inv_def)
    ultimately show False by simp
  qed
  show ?thesis
  proof (intro conjI ballI allI impI)
    show "count (cp_threads P) Reader \<le> 1" using inv(1) by (rule run_invD(2))
    show "cp_run P = RunWait" "gc_done (cp_client P) \<notin> gc_doneClosed (cp_client P)" if "Reader \<in># cp_threads P"
      using run_invD(1) [OF inv(1) that] by simp_all
    show "gc_ws (cp_client P) \<noteq> None" if "cp_threads P \<noteq> {#}" using inv(1) that by (rule run_invD(3))
  qed (use cell own in blast)+
qed

text \<open>A client that is created and connects.\<close>

definition ex_client_env :: client_env where
  "ex_client_env = \<lparr>ce_read_file = \<lambda>_. None, ce_pem_ok = \<lambda>_. True, ce_goos = ''linux'', ce_url_ok = \<lambda>_ _. True\<rparr>"

definition ex_welcome :: bytes where
  "ex_welcome = EncodeFrame FrameControlResponse (bytes_of_string (json_print
     (enc_ControlResponse \<lparr>cr_Code = CodeOK, cr_Message = ''registered'', cr_Data = None\<rparr>)))"

lemma ex_welcome_OK: "register_reply (Some ex_welcome) = None"
proof -
  let ?m = "\<lparr>cr_Code = CodeOK, cr_Message = ''registered'', cr_Data = None\<rparr>"
  have "read_message ex_welcome = Some (MControlResponse ?m)"
    unfolding ex_welcome_def
    by (rule read_wire [of "MControlResponse ?m", simplified])
      (simp_all add: valid_ControlResponse_def enc_ControlResponse_def valid_utf8_ascii is_ascii_def escape_plain
        escape_free_def escape_ascii_def enc_uint32_def CodeOK_def FormatUint.simps)
  then show ?thesis unfolding register_reply_OK by auto
qed

theorem client_threads_valid_witness:
  "\<exists>cl P. NewClient (fst (logging_Default None)) (\<lambda>_. []) (Some \<lparr>ccfg_Client = ex_settings\<rparr>) = Inr cl \<and>
     client_reachable ex_client_env (client_start cl) P \<and> cp_threads P = {#BeatTop, Reader#} \<and>
     gc_ws (cp_client P) \<noteq> None"
proof -
  obtain cl where cl: "NewClient (fst (logging_Default None)) (\<lambda>_. []) (Some \<lparr>ccfg_Client = ex_settings\<rparr>) = Inr cl"
    "gc_log cl = (\<lambda>_. [])" "gc_shut cl = {}" "settings cl = ex_settings"
    by (simp add: NewClient_def)
  let ?c = "cl\<lparr>gc_done := Suc (gc_done cl), gc_pendingStreams := Map.empty\<rparr>" and ?env = ex_client_env
  obtain cl' where con: "client_Connect (ce_read_file ?env) (ce_pem_ok ?env) (\<lambda>_ _. Some 8) (ce_goos ?env) (\<lambda>_ _. True)
      (Some ex_welcome) ?c = (None, cl')"
    using cl(4) ex_welcome_OK
    by (simp add: client_Connect_def ex_client_env_def client_tls_def ex_settings_def EncodeControlMessage_frame
        client_write_def ws_WriteMessage_def Let_def)
  let ?P = "\<lparr>cp_client = cl', cp_run = RunWait, cp_threads = {#BeatTop, Reader#}\<rparr>"
  have "client_reachable ?env \<lparr>cp_client = ?c, cp_run = RunDial 0, cp_threads = {#}\<rparr> ?P"
    by (rule reach_connect [OF con]) (simp_all add: fresh_dial_def cl reach_refl)
  then have "client_reachable ?env \<lparr>cp_client = cl\<lparr>gc_done := Suc (gc_done cl)\<rparr>, cp_run = RunClear 0, cp_threads = {#}\<rparr> ?P"
    by (rule reach_run0 [where inp = quiet, rotated 2]) simp_all
  then have r: "client_reachable ?env (client_start cl) ?P" unfolding client_start_def
    by (rule reach_run0 [where inp = quiet, rotated 2]) simp_all
  from client_threads_valid [OF cl(1) r] have "gc_ws (cp_client ?P) \<noteq> None" by simp
  with cl(1) r show ?thesis by (intro exI [of _ cl] exI [of _ ?P]) simp
qed

text \<open>The handler of a stream that is not disturbed does what \<open>handleOpenStream_finish\<close> says in one go: from
  its \<open>select\<close> it reaches its end, with the frames sent and the stream unregistered.\<close>

theorem handler_runs_alone:
  assumes "Pending om p \<in># cp_threads P" "stream_ready (cp_client P) p sc"
    and "handleOpenStream_finish (ce_url_ok env) local order wok om p sc (cp_client P) = (made, cl')"
  shows "client_reachable env P (P\<lparr>cp_client := cl', cp_threads := cp_threads P - {#Pending om p#}\<rparr>)"
proof -
  let ?cl = "cp_client P" and ?inp = "quiet\<lparr>ci_stream := sc, ci_keys := order\<rparr>"
  obtain T where T: "cp_threads P = add_mset (Pending om p) T" using multi_member_split [OF assms(1)] by blast
  let ?Q = "\<lparr>cp_client = cl', cp_run = cp_run P, cp_threads = T\<rparr>"
  have "client_reachable env \<lparr>cp_client = ?cl, cp_run = cp_run P, cp_threads = add_mset (Pending om p) T\<rparr> ?Q"
  proof (cases "\<exists>d. sc = StreamRequest d")
    case True
    then obtain d where sc: "sc = StreamRequest d" by blast
    let ?c1 = "?cl\<lparr>gc_chans := (gc_chans ?cl)(pn_data p := map_option tl (gc_chans ?cl (pn_data p)))\<rparr>"
    obtain cl2 where fwd: "forward_request (ce_url_ok env) local (ci_keys ?inp) wok om d ?c1 = (made, cl2)"
      "cl' = unregister_stream (os_StreamID om) cl2"
      using assms(3) by (auto simp: handleOpenStream_finish_def sc Let_def split: prod.splits)
    have "client_reachable env \<lparr>cp_client = ?c1, cp_run = cp_run P, cp_threads = add_mset (handler_request env ?inp om d ?cl) T\<rparr> ?Q"
      using forward_handler [OF fwd(1), of ?cl] fwd(2) reach_ending [OF reach_refl] reach_answer [OF reach_refl] by auto
    then show ?thesis
      by (rule reach_thread1 [where inp = ?inp, rotated]) (use assms(2) in \<open>simp add: handler_select_def sc\<close>)
  next
    case False
    then have "client_reachable env \<lparr>cp_client = ?cl, cp_run = cp_run P, cp_threads = add_mset (Ending om) T\<rparr> ?Q"
      using assms(3) reach_ending [OF reach_refl]
      by (auto simp: handleOpenStream_finish_def split: stream_case.splits)
    then show ?thesis
      by (rule reach_thread1 [where inp = ?inp, rotated])
        (use assms(2) False in \<open>auto simp: handler_select_def split: stream_case.split\<close>)
  qed
  moreover have "\<lparr>cp_client = ?cl, cp_run = cp_run P, cp_threads = add_mset (Pending om p) T\<rparr> = P" using T by simp
  moreover have "?Q = P\<lparr>cp_client := cl', cp_threads := cp_threads P - {#Pending om p#}\<rparr>" using T by simp
  ultimately show ?thesis by simp
qed

text \<open>The handler of the example client, whose local service does not answer.\<close>

definition ex_client_pool :: client_pool where
  "ex_client_pool = \<lparr>cp_client = ex_cl, cp_run = RunWait,
     cp_threads = {#Reader, BeatTop, Pending ex_open \<lparr>pn_data = 0, pn_done = 1\<rparr>#}\<rparr>"

theorem handler_runs_alone_witness:
  "\<exists>cl'. client_reachable ex_client_env ex_client_pool \<lparr>cp_client = cl', cp_run = RunWait, cp_threads = {#Reader, BeatTop#}\<rparr>"
proof -
  let ?p = "\<lparr>pn_data = 0, pn_done = 1\<rparr>" and ?d = "bytes_of_string (json_print (enc_httpRequest ex_request))"
  obtain made cl' where f: "handleOpenStream_finish (ce_url_ok ex_client_env) (\<lambda>_. DoFailed) [] (\<lambda>_ _. True) ex_open ?p
      (StreamRequest ?d) (cp_client ex_client_pool) = (made, cl')" by (metis surj_pair)
  have "Pending ex_open ?p \<in># cp_threads ex_client_pool" "stream_ready (cp_client ex_client_pool) ?p (StreamRequest ?d)"
    by (simp_all add: ex_client_pool_def stream_ready_def ex_cl_def)
  from handler_runs_alone [OF this f] show ?thesis by (auto simp: ex_client_pool_def)
qed

text \<open>C36. Goroutines of a lost connection are not stopped by a reconnection. When a connection drops while a
  handler waits for its local service, the client may dial again before the service answers, and the
  handler then writes its answer on the new socket before \<open>Connect\<close> has sent the register frame there.
  The gateway refuses a connection whose first message is not a register frame, so this attempt to
  reconnect fails.\<close>

theorem late_answer_precedes_register:
  assumes "cp_run P = RunWait" "Reader \<in># cp_threads P" "Calling om req \<in># cp_threads P"
    and "\<not> gc_closed (cp_client P)" "rc_MaxRetries (cl_Reconnect (settings (cp_client P))) \<noteq> 1"
    and "client_tls (ce_read_file env) (ce_pem_ok env) (cl_TLS (settings (cp_client P))) = Inr tc"
    and "gc_log (cp_client P) ws = []" "ws \<notin> gc_shut (cp_client P)" "local_envelope reply = Some resp"
  shows "\<exists>Q first. client_reachable env P Q \<and> cp_run Q = RunReply 1 ws \<and>
    ws_received (gc_log (cp_client Q)) ws = [first, EncodeFrame FrameRegister (bytes_of_string (json_print (enc_Register
      (register_message (ce_goos env) (settings (cp_client P))))))] \<and>
    (\<forall>wok mac clock order auth gws g. connect_begin wok mac clock order auth gws (Some first) g =
       (Rejected, sendControlResponse wok gws CodeInvalidRequest ''expected register frame'' g))"
proof -
  let ?cl = "cp_client P" and ?all = "\<lambda>_ _. True"
  obtain N where N: "cp_threads P = add_mset Reader N" using multi_member_split [OF assms(2)] by blast
  with assms(3) obtain T where T: "cp_threads P = add_mset Reader (add_mset (Calling om req) T)"
    by (auto dest: multi_member_split)
  let ?c1 = "(readLoop_end ?cl)\<lparr>gc_done := Suc (gc_done ?cl), gc_pendingStreams := Map.empty, gc_ws := Some ws\<rparr>"
  let ?first = "EncodeFrame FrameStreamData (bytes_of_string (json_print (enc_StreamData
    \<lparr>sd_StreamID = os_StreamID om, sd_Data = envelope_data resp\<rparr>)))"
  let ?reg = "EncodeFrame FrameRegister (bytes_of_string (json_print (enc_Register
    (register_message (ce_goos env) (settings ?cl)))))"
  let ?c2 = "snd (client_write ?all ?first ?c1)"
  let ?c3 = "snd (client_write ?all ?reg ?c2)"
  have c1: "gc_ws ?c1 = Some ws" "settings ?c1 = settings ?cl" "gc_log ?c1 = gc_log ?cl"
    by (simp_all add: readLoop_end_def)
  have c2: "gc_ws ?c2 = Some ws" "settings ?c2 = settings ?cl" using c1 by simp_all
  have w: "client_write ?all ?reg ?c2 = (True, ?c3)"
    using c2(1) by (simp add: client_write_def ws_WriteMessage_def Let_def)
  let ?Q = "\<lparr>cp_client = ?c3, cp_run = RunReply 1 ws, cp_threads = add_mset (Closing om) T\<rparr>"
  have "client_reachable env \<lparr>cp_client = ?c2, cp_run = RunRegister 1 ws, cp_threads = add_mset (Closing om) T\<rparr> ?Q"
    by (rule reach_register [OF c2(1), unfolded c2(2), OF w]) (simp add: reach_refl)
  then have "client_reachable env \<lparr>cp_client = ?c1, cp_run = RunRegister 1 ws,
      cp_threads = add_mset (Answering om (envelope_data resp)) T\<rparr> ?Q"
    by (rule reach_thread1 [where inp = quiet, rotated]) (simp add: sendStreamData_def EncodeControlMessage_frame)
  then have "client_reachable env \<lparr>cp_client = ?c1, cp_run = RunRegister 1 ws, cp_threads = add_mset (Calling om req) T\<rparr> ?Q"
    by (rule reach_thread1 [where inp = "quiet\<lparr>ci_local := reply\<rparr>", rotated]) (simp add: handler_reply_envelope assms(9))
  from reach_redial [OF _ assms(5-8) this] assms(4)
  have "client_reachable env \<lparr>cp_client = ?cl, cp_run = RunWait, cp_threads = add_mset Reader (add_mset (Calling om req) T)\<rparr> ?Q"
    by simp
  then have "client_reachable env P ?Q" using T assms(1) by (metis client_pool.surjective unit.exhaust)
  moreover have "ws_received (gc_log ?c3) ws = [?first, ?reg]"
    using c1(1,3) c2(1) client_write_received [of ?c2 ws ?all ?reg] client_write_received [of ?c1 ws ?all ?first] assms(7)
    by (simp add: ws_received_def)
  moreover have "connect_begin wok mac clock order auth gws (Some ?first) g =
       (Rejected, sendControlResponse wok gws CodeInvalidRequest ''expected register frame'' g)" for wok mac clock order auth gws g
    by (rule connect_begin_wrong_frame) (simp add: frame_types)
  ultimately show ?thesis by (intro exI [of _ ?Q] exI [of _ ?first]) simp
qed

theorem late_answer_precedes_register_witness:
  "\<exists>Q. client_reachable ex_client_env (ex_client_pool\<lparr>cp_threads := {#Reader, Calling ex_open (build_request [] ex_settings 5000
      ex_request)#}\<rparr>) Q \<and> cp_run Q = RunReply 1 8 \<and> length (ws_received (gc_log (cp_client Q)) 8) = 2"
proof -
  let ?P = "ex_client_pool\<lparr>cp_threads := {#Reader, Calling ex_open (build_request [] ex_settings 5000 ex_request)#}\<rparr>"
  obtain resp where resp: "local_envelope DoFailed = Some resp" by (simp add: local_envelope_def)
  have p: "cp_run ?P = RunWait" "Reader \<in># cp_threads ?P"
    "Calling ex_open (build_request [] ex_settings 5000 ex_request) \<in># cp_threads ?P"
    "\<not> gc_closed (cp_client ?P)" "rc_MaxRetries (cl_Reconnect (settings (cp_client ?P))) \<noteq> 1"
    "client_tls (ce_read_file ex_client_env) (ce_pem_ok ex_client_env) (cl_TLS (settings (cp_client ?P))) = Inr None"
    "gc_log (cp_client ?P) 8 = []" "8 \<notin> gc_shut (cp_client ?P)"
    by (simp_all add: ex_client_pool_def ex_cl_def ex_settings_def client_tls_def)
  from late_answer_precedes_register [OF p resp] show ?thesis by fastforce
qed

text \<open>A heartbeat loop that is between two turns while the client reconnects goes on with the done channel of the
  new connection, next to the loop that \<open>Connect\<close> starts.\<close>

theorem heartbeat_loops_accumulate:
  assumes "gc_closed cl = False" "rc_MaxRetries (cl_Reconnect (settings cl)) \<noteq> 1"
    and "client_tls (ce_read_file env) (ce_pem_ok env) (cl_TLS (settings cl)) = Inr tc"
    and "gc_log cl ws = []" "ws \<notin> gc_shut cl" "register_reply reply = None"
  shows "\<exists>cl'. client_reachable env \<lparr>cp_client = cl, cp_run = RunWait, cp_threads = {#Reader, BeatTop#}\<rparr>
    \<lparr>cp_client = cl', cp_run = RunWait, cp_threads = {#Reader, BeatTop, BeatTop#}\<rparr>"
proof -
  let ?c1 = "(readLoop_end cl)\<lparr>gc_done := Suc (gc_done cl), gc_pendingStreams := Map.empty, gc_ws := Some ws\<rparr>"
  let ?frame = "EncodeFrame FrameRegister (bytes_of_string (json_print (enc_Register
    (register_message (ce_goos env) (settings ?c1)))))"
  let ?c2 = "snd (client_write (\<lambda>_ _. True) ?frame ?c1)"
  let ?Q = "\<lparr>cp_client = ?c2, cp_run = RunWait, cp_threads = {#Reader, BeatTop, BeatTop#}\<rparr>"
  have ws: "gc_ws ?c1 = Some ws" by simp
  then have w: "client_write (\<lambda>_ _. True) ?frame ?c1 = (True, ?c2)"
    by (simp add: client_write_def ws_WriteMessage_def Let_def)
  have "client_reachable env \<lparr>cp_client = ?c2, cp_run = RunReply 1 ws, cp_threads = {#BeatTop#}\<rparr> ?Q"
    by (rule reach_reply [where reply = reply]) (simp add: assms(6) add_mset_commute reach_refl)
  then have "client_reachable env \<lparr>cp_client = ?c1, cp_run = RunRegister 1 ws, cp_threads = {#BeatTop#}\<rparr> ?Q"
    by (intro reach_register [OF ws w]) simp
  from reach_redial [OF assms(1-5) this] show ?thesis by blast
qed

end
