(* ===== verification/Cli.thy ===== *)
theory Cli
  imports Server Client
begin

text \<open>
  \<open>cmd/gotunnel/main.go\<close>: the command line. The \<open>flag\<close> package is modelled for the two string flags
  both commands define. What a command does to the outside is a value: the text it prints (without the
  error it wraps), the exit status, or that it goes on to run the server or the client. Files, environment, YAML and the rest of
  the world are the parameters of the functions that are called.
\<close>

subsection \<open>Flags\<close>

text \<open>
  \<open>FlagSet.Parse\<close> with \<open>ExitOnError\<close> on string flags: \<open>-name value\<close>, \<open>-name=value\<close> and the same with two
  dashes; parsing stops at the first argument that is not a flag and after \<open>--\<close>. An unknown flag, a
  flag without its value and a malformed one end the process with status 2, asking for help with
  status 0.
\<close>

datatype flags = ParsedFlags "string \<rightharpoonup> string" | ExitFlags int

definition flag_name :: "string \<Rightarrow> string" where
  "flag_name s = (if HasPrefix s ''--'' then drop 2 s else drop 1 s)"

definition split_eq :: "string \<Rightarrow> string \<times> string option" where
  "split_eq s =
     (case IndexByte (tl s) (CHR ''='') of
        None \<Rightarrow> (s, None)
      | Some i \<Rightarrow> (take (Suc i) s, Some (drop (i + 2) s)))"

fun parse_flags :: "string set \<Rightarrow> (string \<rightharpoonup> string) \<Rightarrow> string list \<Rightarrow> flags" where
  "parse_flags known m [] = ParsedFlags m"
| "parse_flags known m (s # args) =
     (if length s < 2 \<or> hd s \<noteq> CHR ''-'' then ParsedFlags m
      else if s = ''--'' then ParsedFlags m
      else
        (let name0 = flag_name s
         in if name0 = [] \<or> hd name0 = CHR ''-'' \<or> hd name0 = CHR ''='' then ExitFlags 2
            else
              (case split_eq name0 of
                 (name, v) \<Rightarrow>
                   (if name \<notin> known then (if name = ''help'' \<or> name = ''h'' then ExitFlags 0 else ExitFlags 2)
                    else
                      (case v of
                         Some x \<Rightarrow> parse_flags known (m(name \<mapsto> x)) args
                       | None \<Rightarrow>
                           (case args of
                              [] \<Rightarrow> ExitFlags 2
                            | x # rest \<Rightarrow> parse_flags known (m(name \<mapsto> x)) rest))))))"

definition command_flags :: "string set" where
  "command_flags = {''config'', ''log-level''}"

definition flag_or :: "(string \<rightharpoonup> string) \<Rightarrow> string \<Rightarrow> string \<Rightarrow> string" where
  "flag_or m name value = (case m name of Some v \<Rightarrow> v | None \<Rightarrow> value)"

subsection \<open>Commands\<close>

datatype 'lim command =
  Print string | Exit int string | StartServer "'lim Server" | StartClient Client

definition usage_text :: string where
  "usage_text =
     ''Usage: gotunnel <command> [flags]'' @ [char_of (10 :: nat), char_of (10 :: nat)] @
     ''Commands:'' @ [char_of (10 :: nat)] @
     ''  server   Start the GoTunnel server'' @ [char_of (10 :: nat)] @
     ''  client   Start the GoTunnel client'' @ [char_of (10 :: nat)] @
     ''  token    Manage API tokens'' @ [char_of (10 :: nat)] @
     ''  tunnel   Manage active tunnels'' @ [char_of (10 :: nat)] @
     ''  version  Print version information'' @ [char_of (10 :: nat), char_of (10 :: nat)] @
     ''Flags:'' @ [char_of (10 :: nat)] @
     ''  --config     Path to config file'' @ [char_of (10 :: nat)] @
     ''  --log-level  Override log level (info|warn|debug|error)''"

definition run_server ::
  "(string \<Rightarrow> string) \<Rightarrow> (string \<Rightarrow> bool) \<Rightarrow> (string \<Rightarrow> string) \<Rightarrow> (string \<Rightarrow> bytes option)
     \<Rightarrow> (bytes \<Rightarrow> Config \<Rightarrow> Config option) \<Rightarrow> string list \<Rightarrow> 'lim command"
where
  "run_server uni open_file getenv read_file yaml args =
     (case parse_flags command_flags Map.empty args of
        ExitFlags n \<Rightarrow> Exit n []
      | ParsedFlags m \<Rightarrow>
          (case Load getenv read_file yaml (flag_or m ''config'' ''/etc/gotunnel/config.yml'') of
             Inl e \<Rightarrow> Exit 1 ''error loading config''
           | Inr cfg0 \<Rightarrow>
               (let logLevel = flag_or m ''log-level'' [];
                    cfg = (if logLevel \<noteq> []
                           then cfg0\<lparr>cfg_Logging := (cfg_Logging cfg0)\<lparr>log_Level := logLevel\<rparr>\<rparr> else cfg0)
                in case NewServer uni open_file cfg of
                     Inl e \<Rightarrow> Exit 1 ''error creating server''
                   | Inr srv \<Rightarrow> StartServer srv)))"

text \<open>The exit status after \<open>Start\<close>, and after \<open>Run\<close>, has returned.\<close>

definition server_exit :: "start_error option \<Rightarrow> int" where
  "server_exit err = (case err of None \<Rightarrow> 0 | Some e \<Rightarrow> 1)"

definition client_exit :: "client_error option \<Rightarrow> int" where
  "client_exit err = (case err of None \<Rightarrow> 0 | Some e \<Rightarrow> 1)"

definition run_client ::
  "Logger \<Rightarrow> (string \<Rightarrow> string) \<Rightarrow> (string \<Rightarrow> bytes option)
     \<Rightarrow> (bytes \<Rightarrow> ClientConfig \<Rightarrow> ClientConfig option) \<Rightarrow> string list \<Rightarrow> 'lim command"
where
  "run_client default_logger getenv read_file yaml args =
     (case parse_flags command_flags Map.empty args of
        ExitFlags n \<Rightarrow> Exit n []
      | ParsedFlags m \<Rightarrow>
          (case LoadClientConfig getenv read_file yaml (flag_or m ''config'' ''~/.gotunnel/client.yml'') of
             Inl e \<Rightarrow> Exit 1 ''error loading client config''
           | Inr cfg \<Rightarrow>
               (case NewClient default_logger (\<lambda>_. []) (Some cfg) of
                  Inl e \<Rightarrow> Exit 1 ''error creating client''
                | Inr c \<Rightarrow> StartClient c)))"

text \<open>\<open>main\<close>, on the arguments after the program name.\<close>

definition main_action ::
  "(string list \<Rightarrow> 'lim command) \<Rightarrow> (string list \<Rightarrow> 'lim command) \<Rightarrow> string list \<Rightarrow> 'lim command"
where
  "main_action server_cmd client_cmd args =
     (case args of
        [] \<Rightarrow> Exit 0 usage_text
      | c # rest \<Rightarrow>
          (if c = ''server'' then server_cmd rest
           else if c = ''client'' then client_cmd rest
           else if c = ''token'' then Exit 1 ''token management is not implemented yet''
           else if c = ''tunnel'' then Exit 1 ''tunnel management is not implemented yet''
           else if c = ''version'' then Print ''GoTunnel v0.1.0''
           else Exit 0 usage_text))"

subsection \<open>Flags in their four spellings\<close>

definition good_flag :: "string \<Rightarrow> bool" where
  "good_flag name \<longleftrightarrow> name \<noteq> [] \<and> hd name \<noteq> CHR ''-'' \<and> CHR ''='' \<notin> set name"

lemma split_eq_plain: "good_flag name \<Longrightarrow> split_eq name = (name, None)"
  using IndexByte_None [of "tl name" "CHR ''=''"] by (cases name) (auto simp: good_flag_def split_eq_def)

lemma split_eq_value: "good_flag name \<Longrightarrow> split_eq (name @ CHR ''='' # v) = (name, Some v)"
  using IndexByte_append [of "CHR ''=''" "tl name" v] by (cases name) (auto simp: good_flag_def split_eq_def)

lemma flag_name_dashes:
  assumes "good_flag name" "dash \<in> {''-'', ''--''}"
  shows "flag_name (dash @ name @ r) = name @ r"
  using assms by (cases name) (auto simp: good_flag_def flag_name_def HasPrefix_def)

lemma parse_flags_value:
  assumes "good_flag name" "name \<in> known" "dash \<in> {''-'', ''--''}"
  shows "parse_flags known m ((dash @ name) # v # args) = parse_flags known (m(name \<mapsto> v)) args"
    and "parse_flags known m ((dash @ name @ CHR ''='' # v) # args) = parse_flags known (m(name \<mapsto> v)) args"
proof -
  have g: "name \<noteq> []" "hd name \<noteq> CHR ''-''" "CHR ''='' \<notin> set name"
    using assms(1) unfolding good_flag_def by simp_all
  have h: "name \<noteq> []" "hd name \<noteq> CHR ''-''" "hd name \<noteq> CHR ''=''"
    using g hd_in_set [OF g(1)] by metis+
  have d: "dash @ name \<noteq> ''--''" "dash @ name @ r \<noteq> ''--''" "\<not> length (dash @ name @ r) < 2"
    "hd (dash @ name @ r) = CHR ''-''" for r
    using assms(3) h by (cases name; auto)+
  show "parse_flags known m ((dash @ name) # v # args) = parse_flags known (m(name \<mapsto> v)) args"
    using flag_name_dashes [OF assms(1,3), of "[]"] d(1) d(3,4) [of "[]"] h assms(2)
    by (simp add: split_eq_plain [OF assms(1)] Let_def)
  show "parse_flags known m ((dash @ name @ CHR ''='' # v) # args) = parse_flags known (m(name \<mapsto> v)) args"
    using flag_name_dashes [OF assms(1,3), of "CHR ''='' # v"] d(2-4) [of "CHR ''='' # v"] h assms(2)
    by (simp add: split_eq_value [OF assms(1)] Let_def)
qed

subsection \<open>The environment of the server command\<close>

lemma NewServer_cfg: "NewServer uni open_file cfg = Inr s \<Longrightarrow> sv_cfg s = cfg"
  by (auto simp: NewServer_def Let_def split: sum.splits)

text \<open>Whether a server can be created depends on the logging settings only.\<close>

lemma NewServer_starts:
  assumes "NewServer uni open_file cfg = Inr (s :: 'lim Server)" "cfg_Logging cfg' = cfg_Logging cfg"
  shows "\<exists>s' :: 'lim Server. NewServer uni open_file cfg' = Inr s'"
  using assms by (auto simp: NewServer_def Let_def split: sum.splits)

lemma env_or_other: "name \<noteq> k \<Longrightarrow> env_or (getenv(k := x)) name old = env_or getenv name old"
  by (simp add: env_or_def)

lemma port_or_other: "k \<noteq> ''PORT'' \<Longrightarrow> port_or (getenv(k := x)) old = port_or getenv old"
  by (auto simp: port_or_def split: option.split)

lemma applyServerEnv_config: "applyServerEnv (getenv(''GOTUNNEL_CONFIG'' := x)) cfg = applyServerEnv getenv cfg"
  by (simp add: applyServerEnv_eq env_or_other port_or_other)

lemma applyServerEnv_port:
  "cfg_Logging (applyServerEnv (getenv(''PORT'' := x)) cfg) = cfg_Logging (applyServerEnv getenv cfg)"
  by (simp add: applyServerEnv_eq env_or_other)

text \<open>\<open>run_server\<close> once its flags are known.\<close>

definition with_level :: "string \<Rightarrow> Config \<Rightarrow> Config" where
  "with_level l cfg = (if l \<noteq> [] then cfg\<lparr>cfg_Logging := (cfg_Logging cfg)\<lparr>log_Level := l\<rparr>\<rparr> else cfg)"

lemma run_server_parsed:
  assumes "parse_flags command_flags Map.empty args = ParsedFlags m"
    and "flag_or m ''config'' ''/etc/gotunnel/config.yml'' = path" "path \<noteq> []"
  shows "run_server uni open_file getenv read_file yaml args =
    (case read_file path of
       None \<Rightarrow> Exit 1 ''error loading config''
     | Some d \<Rightarrow>
         (case yaml d defaults of
            None \<Rightarrow> Exit 1 ''error loading config''
          | Some c \<Rightarrow>
              (case NewServer uni open_file
                      (with_level (flag_or m ''log-level'' []) (applyServerEnv getenv c)) of
                 Inl e \<Rightarrow> Exit 1 ''error creating server''
               | Inr srv \<Rightarrow> StartServer srv)))"
  unfolding run_server_def assms(1) flags.case assms(2) Load_explicit_path [OF assms(3)]
  by (simp add: with_level_def split: option.split)

text \<open>The server command has a path for its configuration file even without a flag, so
  \<open>GOTUNNEL_CONFIG\<close> has no effect on it, and \<open>PORT\<close> changes neither whether the server starts nor the
  address it listens on.\<close>

theorem server_command_environment:
  fixes srv :: "'lim Server"
  assumes "parse_flags command_flags Map.empty args = ParsedFlags m" "m ''config'' \<noteq> Some []"
    and "run_server uni open_file getenv read_file yaml args = StartServer srv"
  shows "run_server uni open_file (getenv(''GOTUNNEL_CONFIG'' := x)) read_file yaml args = StartServer srv \<and>
    (\<exists>srv' :: 'lim Server. run_server uni open_file (getenv(''PORT'' := x)) read_file yaml args = StartServer srv' \<and>
       listen_addr srv' = listen_addr srv)"
proof -
  let ?path = "flag_or m ''config'' ''/etc/gotunnel/config.yml''"
  have path: "?path \<noteq> []" using assms(2) by (auto simp: flag_or_def split: option.split)
  note run = run_server_parsed [OF assms(1) refl path]
  obtain d c where dc: "read_file ?path = Some d" "yaml d defaults = Some c"
    "NewServer uni open_file (with_level (flag_or m ''log-level'' []) (applyServerEnv getenv c)) = Inr srv"
    using assms(3) unfolding run by (auto split: option.splits sum.splits)
  let ?c = "\<lambda>env. with_level (flag_or m ''log-level'' []) (applyServerEnv env c)"
  have "cfg_Logging (?c (getenv(''PORT'' := x))) = cfg_Logging (?c getenv)"
    by (simp add: with_level_def applyServerEnv_port)
  with NewServer_starts [OF dc(3)] obtain srv' :: "'lim Server" where
    srv': "NewServer uni open_file (?c (getenv(''PORT'' := x))) = Inr srv'" by blast
  have "listen_addr srv' = listen_addr srv"
    using NewServer_cfg [OF srv'] NewServer_cfg [OF dc(3)]
    by (simp add: listen_addr_def with_level_def applyServerEnv_ListenHTTP)
  then show ?thesis using dc srv' by (simp add: run applyServerEnv_config)
qed

lemma ex_flags: "parse_flags command_flags Map.empty [''--log-level=warn''] = ParsedFlags [''log-level'' \<mapsto> ''warn'']"
  using parse_flags_value(2) [of "''log-level''" command_flags "''--''" Map.empty "''warn''" "[]"]
  by (simp add: good_flag_def command_flags_def)

theorem server_command_environment_witness:
  "\<exists>srv :: token_bucket Server.
     run_server id (\<lambda>_. True) ((\<lambda>_. [])(''GOTUNNEL_CONFIG'' := ''/x'')) (\<lambda>_. Some []) (\<lambda>_ c. Some c) [''--log-level=warn'']
       = StartServer srv"
proof -
  have "map lower_byte ''warn'' = ''warn''" "map lower_byte ''json'' = ''json''" by code_simp+
  then obtain srv :: "token_bucket Server" where
    srv: "run_server id (\<lambda>_. True) (\<lambda>_. []) (\<lambda>_. Some []) (\<lambda>_ c. Some c) [''--log-level=warn''] = StartServer srv"
    by (simp add: run_server_parsed [OF ex_flags] flag_or_def with_level_def applyServerEnv_eq env_or_def
        defaults_def NewServer_def logging_New_def parseLevel_def ToLower_def is_ascii_def Let_def)
  from server_command_environment [OF ex_flags _ srv, of "''/x''"] show ?thesis by auto
qed

end
