(* ===== verification/Spec2Isabelle.thy ===== *)
theory Spec2Isabelle
  imports Gateway_Liveness Client_System Cli
begin

text \<open>
  GoTunnel, verified. GoTunnel publishes local HTTP services under subdomains of a public host. A
  gateway (\<open>gotunnel server\<close>) accepts tunnel clients over WebSocket connections and HTTP requests from
  visitors; a tunnel client (\<open>gotunnel client\<close>) connects to the gateway, registers its subdomains, and
  answers the requests the gateway forwards with the help of local services. This library models the
  Go sources under \<open>src/\<close> as HOL functions and proves what makes them correct, and where they are not.

  \<^bold>\<open>Parts and theories.\<close> In the order of the imports:

  \<^item> \<open>Go_Prelude\<close>, \<open>Go_Strings\<close>, \<open>Utf8\<close>, \<open>Json\<close>, \<open>Base64\<close>, \<open>Json_Codec\<close>, \<open>Http\<close>: the language and the
    parts of its standard library the sources use: durations with their wrap-around, strings as bytes,
    \<open>encoding/json\<close>, base64, headers, response writers, \<open>ServeMux\<close>. \<open>Go_Prelude\<close> also holds the locales
    \<open>step_invariant\<close> and \<open>step_simulation\<close> for step relations.
  \<^item> \<open>Wire_Codec\<close> (a locale for self-delimiting codecs) and \<open>Protocol\<close>: the frames, codes and message
    structs of \<open>internal/protocol/protocol.go\<close>; \<open>Messages\<close>: the JSON of these messages and of the two HTTP
    envelopes, and \<open>EncodeControlMessage\<close> and \<open>DecodeControlMessage\<close>.
  \<^item> \<open>Registry\<close>: \<open>internal/registry/registry.go\<close>. The state is \<open>MemoryRegistry\<close>, an operation \<open>M\<close> of the
    code is \<open>mr_M\<close>. The locale \<open>tunnel_registry\<close> is the contract the server relies on.
  \<^item> \<open>Auth\<close>: \<open>internal/auth/auth.go\<close>, \<open>ts_M\<close> for each method; the locale \<open>token_store\<close> is its contract.
  \<^item> \<open>Broker\<close>: \<open>internal/broker/broker.go\<close>, \<open>br_M\<close> for each method; connections and streams are shared by
    pointer in the code and live in a heap here. The locale \<open>stream_table\<close> is what a handler relies on.
  \<^item> \<open>Metrics\<close>, \<open>Logging\<close>, \<open>Config\<close>: \<open>internal/metrics\<close>, \<open>internal/logging\<close>, \<open>internal/config\<close>.
  \<^item> \<open>Ratelimit\<close>: \<open>internal/server/ratelimit.go\<close>.
  \<^item> \<open>Proxy\<close>: \<open>internal/proxy/proxy.go\<close>. \<open>ServeHTTP\<close> is \<open>proxy_begin\<close> up to its \<open>select\<close> and \<open>proxy_finish\<close>
    after it. The state the gateway's handlers share (registry, broker, metrics, sockets) is \<open>Gateway\<close>.
  \<^item> \<open>Admin\<close>: \<open>internal/admin/admin.go\<close>.
  \<^item> \<open>Server\<close>: \<open>internal/server/server.go\<close>. \<open>handleConnect\<close> is \<open>connect_begin\<close> (with \<open>connect_register\<close>), its
    read loop \<open>server_read\<close> per message, its end \<open>server_disconnect\<close>; \<open>server_handle\<close> is the rate limiter
    and the routes of \<open>Start\<close>.
  \<^item> \<open>Gateway_System\<close>: the handlers of the gateway together, as the step relation \<open>gateway_step\<close>; a step
    runs a handler from one wait to the next.
  \<^item> \<open>Gateway_Threads\<close>: the same handlers as goroutines. A \<open>thread\<close> is a program point of \<open>handleConnect\<close>,
    \<open>readLoop\<close>, \<open>cleanupConnection\<close> or \<open>ServeHTTP\<close> with its local variables, \<open>advance\<close> its next call of a
    component, \<open>pool_step\<close> a step of any of them. \<open>Gateway_Interleaving\<close>: runs of the threads, and that
    the steps of \<open>Gateway_System\<close> are such runs. \<open>Gateway_Liveness\<close>: streams and threads come to an end.
  \<^item> \<open>Client\<close>: \<open>internal/client/client.go\<close>; \<open>handleOpenStream\<close> is \<open>handleOpenStream_begin\<close> up to its
    \<open>select\<close> and \<open>handleOpenStream_finish\<close> after it, \<open>Run\<close> is \<open>client_Run\<close>.
  \<^item> \<open>Client_System\<close>: \<open>Run\<close> and the client's other goroutines together, as the step relation \<open>client_step\<close>.
  \<^item> \<open>Cli\<close>: \<open>cmd/gotunnel/main.go\<close>.
  \<^item> This theory: what involves gateway and client together.

  \<^bold>\<open>How the parts interact.\<close> A client's first frame is a \<open>register\<close> message; the server validates its
  token (\<open>Auth\<close>), adds a connection (\<open>Broker\<close>), and registers and routes each of its tunnels
  (\<open>Registry\<close>, \<open>Broker\<close>). A visitor's request passes the rate limiter and the routes; the proxy finds
  the tunnel by the host name, opens a stream on the client's connection, and sends an \<open>open_stream\<close> and
  a \<open>stream_data\<close> frame. The client makes the local request and answers with \<open>stream_data\<close> and
  \<open>close_stream\<close>, which the server's read loop delivers to the waiting handler. The administrator
  creates tokens and deletes tunnels over the REST API.

  \<^bold>\<open>What the lemmas show.\<close>

  \<^item> Wire format: \<open>DecodeFrame\<close> is the inverse of \<open>EncodeFrame\<close>, in both directions and with the length
    field's wrap-around; every control message and envelope is read back as it was written; what happens
    to strings that are not UTF-8.
  \<^item> Registry and tokens: invariants over all sequences of calls, refinement of a map from subdomains to
    tunnels, cleanup independent of the iteration order, exact conditions for a token to be accepted,
    permanence of revocation, and the overflows of the two duration products.
  \<^item> Broker: references stay valid, stream IDs are fresh below \<open>2 ^ 32\<close> streams, removing a connection
    closes its streams for good.
  \<^item> Server: under a connection ID that is not in use, registration is all or nothing and disconnecting
    undoes it; heartbeats renew exactly a session's tunnels, stream data reaches the handler that waits
    for it.
  \<^item> Proxy, admin API, rate limiter: which hosts name which subdomain, that a handler counts each
    request once and leaves no stream behind, that every admin route but the health check needs an admin
    token, that limiting is per address and the cleanup of idle visitors cannot be observed, also when
    calls of \<open>Allow\<close> are interrupted between their two parts.
  \<^item> Client: the port of a stream, what is registered, when \<open>Run\<close> gives up and how long it waits.
  \<^item> Gateway: for all interleavings of its goroutines, references stay valid
    (\<open>interleaved_references_valid\<close>), a client cannot touch the requests of another as long as the two do
    not share a connection ID (\<open>tenant_isolation\<close>),
    no stream outlives its request (\<open>no_stream_leak\<close>), and all goroutines can run to their end
    (\<open>gateway_can_drain\<close>); runs of whole handlers are such interleavings
    (\<open>coarse_runs_are_interleavings\<close>), where also \<open>waiting_request_can_finish\<close> with its status is shown.
  \<^item> Client goroutines: one read loop, one closing of each done channel, no nil socket, a channel per
    handler (\<open>client_threads_valid\<close>); an undisturbed handler and \<open>Connect\<close> do what \<open>Client\<close> says
    (\<open>handler_runs_alone\<close>, \<open>reach_connect\<close>).
  \<^item> System: \<open>request_round_trip\<close> below.
  \<^item> Faults of the program, stated as theorems about what the code does: \<open>fresh_gateway_accepts_nobody\<close>,
    \<open>duplicate_client_id_unroutes\<close>, \<open>Register_duplicate_id_dangles\<close>, \<open>response_and_close_race\<close>,
    \<open>early_stream_data_is_lost\<close>, \<open>resolvePort_suffix_confusion\<close>, \<open>subdomain_unreachable\<close>,
    \<open>proxy_bad_status_panics\<close>, \<open>client_stays_silent\<close>, \<open>expiry_overflow\<close>, \<open>CreateToken_ttl_overflow\<close>,
    \<open>server_command_environment\<close>, \<open>gateway_paths_shadow_tunnels\<close>, and of its concurrency:
    \<open>cleanup_race_unroutes_other\<close>, \<open>late_answer_precedes_register\<close>, \<open>request_precedes_welcome\<close>,
    \<open>heartbeat_loops_accumulate\<close>.

  \<^bold>\<open>Modelling.\<close> Machine integers are words or integers with the wrap-around written out (\<open>wrap64\<close>); a
  \<open>float64\<close> counter only ever gets lengths and is an integer. The clock, random bytes, iteration orders
  of maps, failures of socket writes, files and the environment are arguments. Code outside the
  repository is an argument too: HMAC-SHA256 (\<open>mac\<close>), the token bucket (\<open>new_limiter\<close>, \<open>lim_allow\<close>; \<open>token_bucket\<close>
  is an instance that behaves as the package documents), YAML,
  the WebSocket dialer, certificate parsing, the acceptance of a URL by \<open>http.NewRequest\<close> and the local
  service. Where the code blocks on several channels, the model has one function up to the wait and one
  for the case that is taken, with a predicate that says which cases are ready.

  \<^bold>\<open>Bounds.\<close> The JSON parser's recursion is bounded by the length of its input, which suffices
  (\<open>parse_fuel\<close>); nesting beyond 10000 is an error, as in Go. The loop of \<open>Run\<close> may go on for ever, so
  \<open>run_loop\<close> has fuel, one unit per attempt to connect; \<open>Run_gives_up\<close> shows that with a limit on the
  retries as many units as attempts are enough, \<open>Run_retries_forever\<close> that no fuel is enough without one.
  All other recursions are structural or have termination proofs.

  \<^bold>\<open>Not modelled.\<close> The Prometheus exposition handler, the WebSocket upgrade itself (its outcome is an
  input), the closing of a socket by the peer other than as a failed read or write, TLS handshakes, the
  text of log records, and the memory model of the language: \<open>getStream\<close> reads a map without its lock,
  the client reads \<open>c.ws\<close> and \<open>c.done\<close> while \<open>Run\<close> replaces them, and \<open>sendControlResponse\<close> and \<open>Connect\<close>
  write on a socket without the mutex of the other writers; here each of these accesses is atomic.
  Metrics are updated together with the neighbouring call. What remains of the sources are interfaces,
  imports and constants of third-party types.
\<close>

section \<open>A request through the tunnel\<close>

text \<open>The answer to the stream a request waits on, read by the gateway.\<close>

lemma answer_reaches_waiter:
  assumes "broker_inv (gw_broker g)" "br_OpenStream (gw_broker g) c tid = (ref, gw_broker g1)"
    and "conn_heap (gw_broker g) c = Some conn" "ss_conn ss = c" "sid = nextStreamID (gw_broker g) + 1"
    and "read_message f = Some (MStreamData \<lparr>sd_StreamID = FormatUint (unat sid), sd_Data = d\<rparr>)"
  shows "\<exists>g2. server_read clock Deliver ss f g1 = Some g2 \<and> select_ready (gw_broker g2) ref (GotResponse d)
    \<and> stream_id (gw_broker g2) ref = Some sid \<and> gw_metrics g2 = gw_metrics g1"
proof -
  note open_eff = Open_effect [OF assms(2)]
  have "conn_id (gw_broker g) c \<noteq> None" using assms(3) by (simp add: conn_id_def)
  then have listed: "open_on (gw_broker g1) c sid = Some ref" using open_eff(9) [of c sid] assms(5) by simp
  have inv: "broker_inv (gw_broker g1)" using broker_inv_Open [OF assms(1), of c tid] assms(2) by simp
  obtain s where s: "stream_heap (gw_broker g1) ref = Some s" "st_Response s = []" "st_ID s = sid"
  proof
    let ?s = "\<lparr>st_ID = sid, st_TunnelID = tid, st_Request = [], st_Response = [], st_Done = False\<rparr>"
    have "stream_heap (snd (br_OpenStream (gw_broker g) c tid)) (next_stream (gw_broker g)) = Some ?s"
      using assms(5) by (simp add: br_OpenStream_def Let_def)
    then show "stream_heap (gw_broker g1) ref = Some ?s" using assms(2) open_eff(1) by simp
  qed simp_all
  let ?g2 = "g1\<lparr>gw_broker := put_response ref d (gw_broker g1)\<rparr>"
  have "server_read clock Deliver ss f g1 = Some ?g2"
    using server_read_data [OF assms(6), of sid clock Deliver ss g1] deliver_effect [OF inv listed s(1,2), of d]
      assms(4) by simp
  moreover have "select_ready (gw_broker ?g2) ref (GotResponse d)" "stream_id (gw_broker ?g2) ref = Some sid"
    using s by (simp_all add: select_ready_def put_response_def stream_id_def)
  ultimately show ?thesis by auto
qed

text \<open>The tunnel client from the two frames of a request to the two frames of its answer.\<close>

lemma client_serves_request:
  assumes "forwardable r t body sid" "gc_ws cl = Some ws" "\<And>n. wok ws n"
    and "resolvePort (settings cl) (tun_ID t) = port" "port \<noteq> 0"
    and "url_ok (r_Method r) (target_url (settings cl) port (r_RequestURI r))"
    and "local_envelope (local (build_request order (settings cl) port (request_envelope r body))) = Some resp"
    and "length (json_print (enc_StreamData \<lparr>sd_StreamID = FormatUint (unat sid),
      sd_Data = bytes_of_string (json_print (enc_httpResponse resp))\<rparr>)) < 2 ^ 32"
    and "request_frames sid t r body = [f1, f2]"
  obtains p cl1 cl2 cl3 a1 a2 where "client_read f1 cl = (Some (open_message sid t r), cl)"
    "handleOpenStream_begin (open_message sid t r) cl = (p, cl1)" "client_read f2 cl1 = (None, cl2)"
    "stream_ready cl2 p (StreamRequest (request_data r body))"
    "handleOpenStream_finish url_ok local order wok (open_message sid t r) p (StreamRequest (request_data r body)) cl2
      = (Some (build_request order (settings cl) port (request_envelope r body)), cl3)"
    "ws_received (gc_log cl3) ws = ws_received (gc_log cl) ws @ [a1, a2]"
    "read_message a1 = Some (MStreamData \<lparr>sd_StreamID = FormatUint (unat sid),
       sd_Data = bytes_of_string (json_print (enc_httpResponse resp))\<rparr>)"
proof -
  let ?om = "open_message sid t r" and ?q = "request_envelope r body"
  have om: "os_StreamID ?om = FormatUint (unat sid)" "os_TargetTunnel ?om = tun_ID t" by (simp_all add: open_message_def)
  have fr: "read_message f1 = Some (MOpenStream ?om)"
    "read_message f2 = Some (MStreamData \<lparr>sd_StreamID = os_StreamID ?om, sd_Data = request_data r body\<rparr>)"
    using forwardable_messages(1,2) [OF assms(1)] assms(9) by (simp_all add: request_frames_def om)
  obtain p cl1 where b: "handleOpenStream_begin ?om cl = (p, cl1)" by (metis surj_pair)
  from ordered_stream_data [OF b fr(2)] obtain cl2 where r2: "client_read f2 cl1 = (None, cl2)"
    "stream_ready cl2 p (StreamRequest (request_data r body))"
    and st: "gc_ws cl2 = gc_ws cl" "gc_log cl2 = gc_log cl" "gc_cfg cl2 = gc_cfg cl" by (elim exE conjE)
  obtain made cl3 where fin: "handleOpenStream_finish url_ok local order wok ?om p
      (StreamRequest (request_data r body)) cl2 = (made, cl3)" by (metis surj_pair)
  have q: "valid_httpRequest ?q" "rq_Method ?q = r_Method r" "rq_Path ?q = r_RequestURI r"
    using assms(1) by (simp_all add: forwardable_def valid_httpRequest_def request_envelope_def sorted_map_join)
  have "gc_ws cl2 = Some ws" "resolvePort (settings cl2) (os_TargetTunnel ?om) = port"
    "url_ok (rq_Method ?q) (target_url (settings cl2) port (rq_Path ?q))"
    "local_envelope (local (build_request order (settings cl2) port ?q)) = Some resp"
    using st assms(2,4,6,7) q(2,3) om(2) by simp_all
  note sent = handler_sends [OF this(1) assms(3) q(1) this(2) assms(5) this(3,4) fin]
  obtain a1 a2 where "stream_frames (FormatUint (unat sid)) (bytes_of_string (json_print (enc_httpResponse resp))) = [a1, a2]"
    "read_message a1 = Some (MStreamData \<lparr>sd_StreamID = FormatUint (unat sid),
       sd_Data = bytes_of_string (json_print (enc_httpResponse resp))\<rparr>)"
    using valid_utf8_FormatUint assms(8) by (rule stream_frames_read)
  with that [OF client_read_open [OF fr(1)] b r2] sent(1,2) fin st om(1) show thesis by simp
qed

text \<open>The answer of a client whose local service is down.\<close>

abbreviation ex_answer :: httpResponse where
  "ex_answer \<equiv> \<lparr>rs_StatusCode = 502, rs_Headers = [(''Content-Type'', ''text/plain'')],
     rs_Body = bytes_of_string ''local service unavailable''\<rparr>"

lemma ex_answer_facts:
  "valid_httpResponse ex_answer" "200 \<le> rs_StatusCode ex_answer" "rs_StatusCode ex_answer \<le> 999"
  "body_allowed (rs_StatusCode ex_answer)" "distinct (map CanonicalHeaderKey [''Content-Type''])"
  "set [''Content-Type''] = fst ` set (rs_Headers ex_answer)"
  "map_of (rs_Headers ex_answer) ''Content-Type'' = Some ''text/plain''"
  by (simp_all add: valid_httpResponse_def int64_ok_def min_int64_def max_int64_def valid_utf8_ascii is_ascii_def
      sorted_map_def body_allowed_def)

lemma ex_answer_length:
  "length (json_print (enc_StreamData \<lparr>sd_StreamID = FormatUint (unat (2 :: 32 word)),
     sd_Data = bytes_of_string (json_print (enc_httpResponse ex_answer))\<rparr>)) < 2 ^ 32"
  using length_enc_StreamData [of "''2''" "bytes_of_string (json_print (enc_httpResponse ex_answer))"]
    length_enc_502 by (simp add: FormatUint_2)

text \<open>What the client asks its local service for, field by field.\<close>

lemma build_request_exact:
  assumes "dom (r_Header r) = set (r_HeaderKeys r)" "list_all (\<lambda>k. CanonicalHeaderKey k = k) (r_HeaderKeys r)"
    and "set order = set (r_HeaderKeys r)"
  shows "build_request order c port (request_envelope r body) =
    \<lparr>lr_Method = (if r_Method r = [] then ''GET'' else r_Method r),
     lr_URL = ''http://'' @ (if cl_LocalBind c = [] then ''127.0.0.1'' else cl_LocalBind c) @ '':'' @ FormatInt port
       @ r_RequestURI r,
     lr_Header = (\<lambda>k. map_option (\<lambda>vs. [Join vs '', '']) (r_Header r k)), lr_Body = body\<rparr>"
  by (simp add: build_request_def request_envelope_def target_url_def local_bind_def set_join_headers [OF assms])



section \<open>A request before the welcome\<close>

text \<open>A frame of another type than a control response is not a successful answer to a registration.\<close>

lemma register_reply_wrong_frame:
  assumes "ft \<noteq> FrameControlResponse"
  shows "register_reply (Some (EncodeFrame ft p)) \<noteq> None"
  using assms decode_frame_type [of ft p]
  by (cases "decode_msg (EncodeFrame ft p)") (auto simp: register_reply_def)

text \<open>The handler of a request up to its first frame.\<close>

lemma runs_open_frame:
  assumes "extractSubdomain uni (r_Host r) (px_publicHostname px) = sub" "sub \<noteq> []"
    and "mr_GetBySubdomain (gw_registry g) sub = Inr (Some t)" "br_GetConnectionBySubdomain (gw_broker g) sub = Some c"
    and "conn_heap (gw_broker g) c = Some conn"
  shows "\<exists>x g' p. thread_runs uni mac auth px (Some (ProxyLookup r w), g) (Some x, g') \<and>
    gw_ws g' = (gw_ws g)(cc_WS conn := gw_ws g (cc_WS conn) @ [(EncodeFrame FrameOpenStream p, True)])"
proof -
  obtain ref b where o: "br_OpenStream (gw_broker g) c (tun_ID t) = (ref, b)" by (metis surj_pair)
  let ?sid = "nextStreamID (gw_broker g) + 1" and ?g = "g\<lparr>gw_broker := b\<rparr>"
  let ?frame = "EncodeFrame FrameOpenStream (bytes_of_string (json_print (enc_OpenStream (open_message ?sid t r))))"
  let ?g' = "?g\<lparr>gw_ws := (gw_ws g)(cc_WS conn := gw_ws g (cc_WS conn) @ [(?frame, True)])\<rparr>"
  have 1: "advance uni mac auth px some_input (ProxyLookup r w) g = Some (Some (ProxyFind sub (Some t) r w), g)"
    using assms(1-3) by (simp add: proxy_lookup_def)
  have 2: "advance uni mac auth px some_input (ProxyFind sub (Some t) r w) g = Some (Some (ProxyOpen c t r w), g)"
    using assms(4) by (simp add: proxy_find_def)
  have 3: "advance uni mac auth px some_input (ProxyOpen c t r w) g = Some (Some (ProxySendOpen c ref ?sid t r w), ?g)"
    by (simp add: proxy_open_stream_def o br_OpenStream_stream [OF o])
  have "\<exists>conn'. conn_heap b c = Some conn' \<and> cc_WS conn' = cc_WS conn"
    using assms(5) o by (auto simp: br_OpenStream_def Let_def)
  then have 4: "advance uni mac auth px some_input (ProxySendOpen c ref ?sid t r w) ?g
      = Some (Some (ProxySendData c ref ?sid r w), ?g')"
    by (auto simp: proxy_send_open_def EncodeControlMessage_frame gw_send_def br_SendMessage_def ws_WriteMessage_def
        some_input_def Let_def)
  from runs_step [OF 1 runs_step [OF 2 runs_step [OF 3 runs_one [OF 4]]]] show ?thesis by fastforce
qed

text \<open>C35. The gateway maps the subdomains of a client before it sends the answer to its registration, and a
  request may come in between: then the \<open>open_stream\<close> frame of the request reaches the client first,
  which takes it for the answer, and \<open>Connect\<close> fails although the client is registered.\<close>

theorem request_precedes_welcome:
  assumes "ConnLoop ss u [] \<in># pl_threads P" "ProxyLookup r w \<in># pl_threads P"
    and "extractSubdomain uni (r_Host r) (px_publicHostname (sv_proxy (pl_server P))) = sub" "sub \<noteq> []"
    and "mr_GetBySubdomain (gw_registry (pl_gateway P)) sub = Inr (Some t)"
    and "br_GetConnectionBySubdomain (pl_broker P) sub = Some c"
    and "conn_heap (pl_broker P) c = Some conn" "cc_WS conn = ss_ws ss" "gw_ws (pl_gateway P) (ss_ws ss) = []"
  shows "\<exists>Q first reply. pool_reachable uni mac new_limiter lim_allow P Q \<and> Reading ss \<in># pl_threads Q \<and>
    ws_received (gw_ws (pl_gateway Q)) (ss_ws ss) = [first, reply] \<and> register_reply (Some first) \<noteq> None"
proof -
  let ?s = "pl_server P" and ?reach = "pool_reachable uni mac new_limiter lim_allow"
  obtain N where N: "pl_threads P = add_mset (ProxyLookup r w) N" using multi_member_split [OF assms(2)] by blast
  with assms(1) have "ConnLoop ss u [] \<in># N" by simp
  then obtain M where M: "N = add_mset (ConnLoop ss u []) M" by (auto dest: multi_member_split)
  obtain x g p where run: "thread_runs uni mac (sv_auth ?s) (sv_proxy ?s) (Some (ProxyLookup r w), sv_gateway ?s) (Some x, g)"
    and log: "gw_ws g = (gw_ws (pl_gateway P))(cc_WS conn := gw_ws (pl_gateway P) (cc_WS conn) @
      [(EncodeFrame FrameOpenStream p, True)])"
    using runs_open_frame [OF assms(3-7), of mac "sv_auth ?s" w] by (elim exE conjE)
  let ?s1 = "?s\<lparr>sv_gateway := g\<rparr>"
  let ?g2 = "g\<lparr>gw_broker := set_tunnels (ss_conn ss) (ss_tunnelIDs ss) (gw_broker g)\<rparr>"
  let ?g3 = "sendControlResponse (\<lambda>_ _. True) (ss_ws ss) CodeOK ''registered'' ?g2"
  have 1: "advance uni mac (sv_auth ?s1) (sv_proxy ?s1) some_input (ConnLoop ss u []) (sv_gateway ?s1) = Some (Some (ConnWelcome ss), ?g2)"
    by simp
  have 2: "advance uni mac (sv_auth ?s1) (sv_proxy ?s1) some_input (ConnWelcome ss) ?g2 = Some (Some (Reading ss), ?g3)"
    by (simp add: some_input_def)
  note two = runs_step [OF 1 runs_one [OF 2]]
  let ?Q = "\<lparr>pl_server = ?s1\<lparr>sv_gateway := ?g3\<rparr>, pl_threads = add_mset x M + threads_of (Some (Reading ss))\<rparr>"
  have start: "\<lparr>pl_server = ?s, pl_threads = add_mset (ProxyLookup r w) N\<rparr> = P" using N by simp
  have "?reach P \<lparr>pl_server = ?s1, pl_threads = add_mset (ConnLoop ss u []) (add_mset x M)\<rparr>"
    using pool_runs [OF run, where T = N, unfolded start] by (simp add: M add_mset_commute)
  with pool_runs [OF two, where T = "add_mset x M"] have "?reach P ?Q"
    unfolding pool_reachable_def by (meson rtranclp_trans)
  moreover obtain reply where "ws_received (gw_ws ?g3) (ss_ws ss) = [EncodeFrame FrameOpenStream p, reply]"
    using log assms(8,9) by (simp add: sendControlResponse_def EncodeControlMessage_frame ws_WriteMessage_def ws_received_def Let_def)
  moreover have "register_reply (Some (EncodeFrame FrameOpenStream p)) \<noteq> None"
    by (rule register_reply_wrong_frame) (simp add: frame_types)
  ultimately show ?thesis by (intro exI [of _ ?Q] exI [of _ "EncodeFrame FrameOpenStream p"] exI [of _ reply]) simp
qed

theorem request_precedes_welcome_witness:
  "\<exists>Q. pool_reachable id ex_mac ex_new ex_allow
      \<lparr>pl_server = wd_server ex_world, pl_threads = {#ConnLoop ex_session ''user1'' [], ProxyLookup ex_http new_response#}\<rparr> Q \<and>
     Reading ex_session \<in># pl_threads Q \<and> length (ws_received (gw_ws (pl_gateway Q)) 7) = 2"
proof -
  let ?P = "\<lparr>pl_server = wd_server ex_world, pl_threads = {#ConnLoop ex_session ''user1'' [], ProxyLookup ex_http new_response#}\<rparr>"
  have s: "sv_proxy (pl_server ?P) = ex_proxy" "pl_gateway ?P = ex_gateway" "ss_ws ex_session = 7"
    "gw_ws ex_gateway 7 = []"
    by (simp_all add: ex_world_def ex_session_def ex_gateway_def)
  obtain conn where conn: "conn_heap (gw_broker ex_gateway) 0 = Some conn" "cc_WS conn = 7" using ex_conn by blast
  have t: "ConnLoop ex_session ''user1'' [] \<in># pl_threads ?P" "ProxyLookup ex_http new_response \<in># pl_threads ?P" by simp_all
  have "''app'' \<noteq> []" by simp
  from request_precedes_welcome [OF t, unfolded s, OF ex_subdomain this ex_lookup(1,2) conn(1) conn(2) refl]
  show ?thesis by fastforce
qed

end
